(* ===== verification/Zb_Prelude.thy ===== *)
theory Zb_Prelude
  imports Main "HOL-Library.Word" "HOL-Library.Monad_Syntax"
begin

text \<open>
  Shared vocabulary of the development.

  \<^item> \<open>size_t\<close> values are natural numbers below \<open>2 ^ 64\<close>; every subtraction, addition or
    multiplication of the code that can leave this range goes through \<open>sz_sub\<close>,
    \<open>sz_add\<close> or \<open>sz_mul\<close>, which write the wrap-around out.
  \<^item> A block of memory (the storage of a \<open>std::vector<char>\<close>) is a list of bytes. Reads and
    writes of a range (\<open>memcpy\<close>, dereferences) are \<open>mem_read\<close> and \<open>mem_write\<close>, with the
    result \<open>None\<close> where the code would touch memory outside of the block. An operation of the
    model returns \<open>None\<close> exactly where the C++ has undefined behaviour or throws out of the
    standard library; a failure the code reports itself (a \<open>false\<close>, a \<open>-1\<close>) is a value.
  \<^item> The collections \<open>zb_size\<close> (arithmetic on sizes) and \<open>zb_mem\<close> (memory blocks) carry the
    facts the component proofs share.
\<close>

unbundle bit_operations_syntax

named_theorems zb_size \<open>arithmetic on size_t values\<close>
named_theorems zb_mem \<open>facts on memory blocks\<close>

type_synonym byte = "8 word"
type_synonym bytes = "8 word list"

subsection \<open>Sizes\<close>

definition sz_max :: nat where
  "sz_max = 2 ^ 64"

definition sz_add :: "nat \<Rightarrow> nat \<Rightarrow> nat" where
  "sz_add a b = (a + b) mod sz_max"

definition sz_sub :: "nat \<Rightarrow> nat \<Rightarrow> nat" where
  "sz_sub a b = (a + (sz_max - b mod sz_max)) mod sz_max"

definition sz_mul :: "nat \<Rightarrow> nat \<Rightarrow> nat" where
  "sz_mul a b = (a * b) mod sz_max"

lemma sz_max_pos [simp]: "0 < sz_max"
  by (simp add: sz_max_def)

lemma sz_add_small [zb_size]: "a + b < sz_max \<Longrightarrow> sz_add a b = a + b"
  by (simp add: sz_add_def)

lemma sz_sub_le [zb_size]:
  assumes "b \<le> a" and "a < sz_max"
  shows "sz_sub a b = a - b"
proof -
  have "b mod sz_max = b" using assms by simp
  then have "a + (sz_max - b mod sz_max) = (a - b) + sz_max" using assms by simp
  then show ?thesis using assms(2) by (simp only: sz_sub_def) simp
qed

lemma sz_sub_wraps:
  assumes "a < b" and "b < sz_max"
  shows "sz_sub a b = sz_max - (b - a)"
  using assms by (simp add: sz_sub_def)

lemma sz_mul_small [zb_size]: "a * b < sz_max \<Longrightarrow> sz_mul a b = a * b"
  by (simp add: sz_mul_def)

lemma sz_bounds [simp]: "sz_add a b < sz_max" "sz_sub a b < sz_max" "sz_mul a b < sz_max"
  by (simp_all add: sz_add_def sz_sub_def sz_mul_def)

text \<open>
  The subtraction that wraps and the addition that wraps back cancel: adding
  \<open>e * ((a - b) / e + 1)\<close>, computed modulo \<open>2 ^ 64\<close> with \<open>a < b\<close>, moves a size down by less
  than \<open>b - a\<close>. This is what makes the growth formula of \<open>DynamicBuffer\<close> work in the case its
  subtraction underflows.
\<close>

lemma sz_wrap_cancel:
  assumes ab: "a < b" and b: "b < sz_max" and e: "0 < e" "e \<le> b - a" and n: "b - a \<le> n" "n < sz_max"
  defines "r \<equiv> sz_max - (b - a)"
  shows "sz_add n (sz_mul e (sz_add (sz_sub a b div e) 1)) = n - (b - a) + (e - r mod e)"
proof -
  let ?q = "r div e"
  have sub: "sz_sub a b = r" using sz_sub_wraps [OF ab b] by (simp add: r_def)
  have r: "r < sz_max" "r + (b - a) = sz_max" using ab b by (simp_all add: r_def)
  have eq: "e * ?q + r mod e = r" by simp
  have rm: "r mod e < e" using e(1) by simp
  have prod: "e * (?q + 1) = r + (e - r mod e)" using eq rm by (simp only: distrib_left mult_1_right)
  have "sz_add n (sz_mul e (sz_add ?q 1)) = (n + e * (?q + 1)) mod sz_max"
    by (simp add: sz_add_def sz_mul_def mod_add_right_eq mod_mult_right_eq)
  also have "\<dots> = (n + (r + (e - r mod e))) mod sz_max" by (simp only: prod)
  also have "n + (r + (e - r mod e)) = (n - (b - a) + (e - r mod e)) + sz_max"
    using n r by simp
  also have "\<dots> mod sz_max = (n - (b - a) + (e - r mod e)) mod sz_max" by (rule mod_add_self2)
  also have "\<dots> = n - (b - a) + (e - r mod e)"
    using n e(2) by (intro mod_less) linarith
  finally show ?thesis using sub by simp
qed

subsection \<open>Signed integers\<close>

text \<open>
  Signed division and remainder of C++ truncate towards zero. Signed values are integers of HOL:
  signed overflow is undefined in C++, and the code's seconds, milliseconds and counters stay far
  from it; where the code tests for a wrapped value (the id allocators) the model uses words.
\<close>

definition cdiv :: "int \<Rightarrow> int \<Rightarrow> int" where
  "cdiv a b = sgn a * sgn b * (\<bar>a\<bar> div \<bar>b\<bar>)"

definition cmod :: "int \<Rightarrow> int \<Rightarrow> int" where
  "cmod a b = a - cdiv a b * b"

lemma cdiv_mono:
  assumes "a \<le> b" and "0 < c"
  shows "cdiv a c \<le> cdiv b c"
proof -
  have nonneg: "0 \<le> x div c" if "0 \<le> x" for x using that assms(2) by (simp add: pos_imp_zdiv_nonneg_iff)
  show ?thesis
    using assms nonneg [of b] nonneg [of "- a"] zdiv_mono1 [of a b c] zdiv_mono1 [of "- b" "- a" c]
    by (auto simp: cdiv_def sgn_if)
qed

lemma cdiv_nonneg: "0 \<le> a \<Longrightarrow> 0 < b \<Longrightarrow> cdiv a b = a div b"
  by (cases "a = 0") (simp_all add: cdiv_def)

lemma cmod_nonneg: "0 \<le> a \<Longrightarrow> 0 < b \<Longrightarrow> cmod a b = a mod b"
  by (simp add: cmod_def cdiv_nonneg minus_div_mult_eq_mod)

subsection \<open>Memory blocks\<close>

definition mem_read :: "'a list \<Rightarrow> nat \<Rightarrow> nat \<Rightarrow> 'a list option" where
  "mem_read buf i n = (if i + n \<le> length buf then Some (take n (drop i buf)) else None)"

definition mem_write :: "'a list \<Rightarrow> nat \<Rightarrow> 'a list \<Rightarrow> 'a list option" where
  "mem_write buf i bs =
     (if i + length bs \<le> length buf then Some (take i buf @ bs @ drop (i + length bs) buf) else None)"

lemma mem_read_Some [zb_mem]: "i + n \<le> length buf \<Longrightarrow> mem_read buf i n = Some (take n (drop i buf))"
  by (simp add: mem_read_def)

lemma mem_write_Some [zb_mem]:
  "i + length bs \<le> length buf \<Longrightarrow> mem_write buf i bs = Some (take i buf @ bs @ drop (i + length bs) buf)"
  by (simp add: mem_write_def)

text \<open>The largest block \<open>std::vector<char>\<close> can hold; a larger request throws.\<close>

definition vec_max :: nat where
  "vec_max = 2 ^ 63"

definition vec_alloc :: "nat \<Rightarrow> bytes option" where
  "vec_alloc n = (if n < vec_max then Some (replicate n 0) else None)"

lemma vec_max_less_sz_max: "vec_max + vec_max = sz_max"
  by (simp add: vec_max_def sz_max_def)

lemma vec_max_le_sz_max: "n < vec_max \<Longrightarrow> n < sz_max"
  using vec_max_less_sz_max by linarith

lemma vec_alloc_Some [zb_mem]: "n < vec_max \<Longrightarrow> vec_alloc n = Some (replicate n 0)"
  by (simp add: vec_alloc_def)

subsection \<open>Words as bytes\<close>

text \<open>
  The bytes of a word are \<open>ucast (drop_bit k v)\<close>, as the casts \<open>(uint8_t)(v >> k)\<close> of the code;
  shifting them back and joining them with \<open>OR\<close> gives the word.
\<close>

lemma byte_of_word:
  fixes v :: "'a::len word"
  assumes "8 \<le> LENGTH('a)"
  shows "(ucast (ucast (drop_bit k v) :: byte) :: 'a word) = take_bit 8 (drop_bit k v)"
  using assms by (intro bit_word_eqI) (auto simp: bit_simps)

lemma join_byte:
  fixes v :: "'a::len word"
  shows "take_bit k v OR push_bit k (take_bit 8 (drop_bit k v)) = take_bit (k + 8) v"
  by (rule bit_word_eqI) (auto simp: bit_simps)

lemma word_bytes_16:
  fixes v :: "16 word"
  shows "ucast (ucast v :: byte) OR push_bit 8 (ucast (ucast (drop_bit 8 v) :: byte)) = v"
  using byte_of_word [of 0 v] byte_of_word [of 8 v] join_byte [of 8 v]
  by (simp add: take_bit_word_eq_self)

lemma word_bytes_32:
  fixes v :: "32 word"
  shows "ucast (ucast v :: byte) OR push_bit 8 (ucast (ucast (drop_bit 8 v) :: byte))
    OR push_bit 16 (ucast (ucast (drop_bit 16 v) :: byte))
    OR push_bit 24 (ucast (ucast (drop_bit 24 v) :: byte)) = v"
  using byte_of_word [of 0 v]
  by (simp add: byte_of_word or.assoc [symmetric] join_byte take_bit_word_eq_self)

lemma word_bytes_64:
  fixes v :: "64 word"
  shows "ucast (ucast v :: byte) OR push_bit 8 (ucast (ucast (drop_bit 8 v) :: byte))
    OR push_bit 16 (ucast (ucast (drop_bit 16 v) :: byte))
    OR push_bit 24 (ucast (ucast (drop_bit 24 v) :: byte))
    OR push_bit 32 (ucast (ucast (drop_bit 32 v) :: byte))
    OR push_bit 40 (ucast (ucast (drop_bit 40 v) :: byte))
    OR push_bit 48 (ucast (ucast (drop_bit 48 v) :: byte))
    OR push_bit 56 (ucast (ucast (drop_bit 56 v) :: byte)) = v"
  using byte_of_word [of 0 v]
  by (simp add: byte_of_word or.assoc [symmetric] join_byte take_bit_word_eq_self)

end
