(* ===== verification/Dynamic_Buffer.thy ===== *)
theory Dynamic_Buffer
  imports Zb_Prelude
begin

text \<open>
  \<open>DynamicBuffer\<close> (\<open>zbluenet/dynamic_buffer.h\<close>, \<open>.cc\<close>): the growable byte queue every
  connection, the frame encoder and the asynchronous log use. The record has the four members;
  \<open>read_index_\<close> and \<open>write_index_\<close> delimit the readable bytes, \<open>content\<close> names them.
  The invariant \<open>buffer_ok\<close> orders the indices within the block; the lemmas give each
  operation's effect on \<open>content\<close>, and the locale \<open>byte_queue\<close> is the contract the
  components above rely on.
\<close>

record dynamic_buffer =
  db_buffer :: bytes
  db_expand_size :: nat
  db_read_index :: nat
  db_write_index :: nat

subsection \<open>Operations\<close>

definition DynamicBuffer :: "nat \<Rightarrow> nat \<Rightarrow> dynamic_buffer option" where
  "DynamicBuffer init_size expand_size =
     do { block \<leftarrow> vec_alloc init_size;
          Some \<lparr>db_buffer = block, db_expand_size = expand_size,
                db_read_index = 0, db_write_index = 0\<rparr> }"

definition db_swap :: "dynamic_buffer \<Rightarrow> dynamic_buffer \<Rightarrow> dynamic_buffer \<times> dynamic_buffer" where
  "db_swap b other =
     (b\<lparr>db_buffer := db_buffer other, db_expand_size := db_expand_size other,
        db_read_index := db_read_index other, db_write_index := db_write_index other\<rparr>,
      other\<lparr>db_buffer := db_buffer b, db_expand_size := db_expand_size b,
        db_read_index := db_read_index b, db_write_index := db_write_index b\<rparr>)"

definition capacity :: "dynamic_buffer \<Rightarrow> nat" where
  "capacity b = length (db_buffer b)"

definition discardableBytes :: "dynamic_buffer \<Rightarrow> nat" where
  "discardableBytes b = db_read_index b"

definition readableBytes :: "dynamic_buffer \<Rightarrow> nat" where
  "readableBytes b = sz_sub (db_write_index b) (db_read_index b)"

definition writableBytes :: "dynamic_buffer \<Rightarrow> nat" where
  "writableBytes b = sz_sub (length (db_buffer b)) (db_write_index b)"

text \<open>
  \<open>readBegin()\<close> and \<open>writeBegin()\<close> are pointers into the block: the model gives the offset
  they have in it. A dereference goes through \<open>mem_read\<close> or \<open>mem_write\<close>.
\<close>

definition readBegin :: "dynamic_buffer \<Rightarrow> nat" where
  "readBegin b = db_read_index b"

definition writeBegin :: "dynamic_buffer \<Rightarrow> nat" where
  "writeBegin b = db_write_index b"

definition db_clear :: "dynamic_buffer \<Rightarrow> dynamic_buffer" where
  "db_clear b = b\<lparr>db_read_index := 0, db_write_index := 0\<rparr>"

definition db_read :: "nat \<Rightarrow> dynamic_buffer \<Rightarrow> dynamic_buffer" where
  "db_read n b =
     (let b1 = b\<lparr>db_read_index := sz_add (db_read_index b) (min n (readableBytes b))\<rparr>
      in if db_read_index b1 = db_write_index b1 then db_clear b1 else b1)"

definition db_write :: "nat \<Rightarrow> dynamic_buffer \<Rightarrow> dynamic_buffer" where
  "db_write n b = b\<lparr>db_write_index := sz_add (db_write_index b) (min n (writableBytes b))\<rparr>"

text \<open>
  The growth of \<open>reserveWritableBytes\<close>: the \<open>else\<close> branch is also taken when the free space is
  larger than asked for by at least one expansion, and there \<open>size - free_bytes\<close> wraps.
  \<open>expand_size_ = 0\<close> divides by zero.
\<close>

definition grown_size :: "nat \<Rightarrow> dynamic_buffer \<Rightarrow> nat option" where
  "grown_size n b =
     (let free_bytes = sz_add (discardableBytes b) (writableBytes b);
          new_size = length (db_buffer b);
          e = db_expand_size b
      in if n \<le> free_bytes \<and> sz_sub free_bytes n < e then Some (sz_add new_size e)
         else if e = 0 then None
         else Some (sz_add new_size (sz_mul e (sz_add (sz_sub n free_bytes div e) 1))))"

definition reserveWritableBytes :: "nat \<Rightarrow> dynamic_buffer \<Rightarrow> dynamic_buffer option" where
  "reserveWritableBytes n b =
     (if n \<le> writableBytes b then Some b
      else do {
        new_size \<leftarrow> grown_size n b;
        new_buffer \<leftarrow> vec_alloc new_size;
        readable \<leftarrow> mem_read (db_buffer b) (readBegin b) (readableBytes b);
        new_buffer \<leftarrow> mem_write new_buffer 0 readable;
        Some (b\<lparr>db_buffer := new_buffer, db_read_index := 0, db_write_index := readableBytes b\<rparr>)
      })"

text \<open>
  The peeks. \<open>None\<close> is an access outside of the block, \<open>Some None\<close> the code's \<open>false\<close>,
  \<open>Some (Some v)\<close> the code's \<open>true\<close> with the out-parameter set. The address
  \<open>readBegin() + offset\<close> is computed modulo \<open>2 ^ 64\<close>, as is the bound \<open>offset + n\<close>.
\<close>

definition peek_bytes :: "nat \<Rightarrow> nat \<Rightarrow> dynamic_buffer \<Rightarrow> bytes option option" where
  "peek_bytes n offset b =
     (if readableBytes b < sz_add offset n then Some None
      else do { bs \<leftarrow> mem_read (db_buffer b) (sz_add (readBegin b) offset) n; Some (Some bs) })"

definition le_word16 :: "bytes \<Rightarrow> 16 word" where
  "le_word16 p = (ucast (p ! 0) OR push_bit 8 (ucast (p ! 1)))"

definition be_word16 :: "bytes \<Rightarrow> 16 word" where
  "be_word16 p = (ucast (p ! 1) OR push_bit 8 (ucast (p ! 0)))"

definition le_word32 :: "bytes \<Rightarrow> 32 word" where
  "le_word32 p = (ucast (p ! 0) OR push_bit 8 (ucast (p ! 1)) OR push_bit 16 (ucast (p ! 2))
     OR push_bit 24 (ucast (p ! 3)))"

definition be_word32 :: "bytes \<Rightarrow> 32 word" where
  "be_word32 p = (ucast (p ! 3) OR push_bit 8 (ucast (p ! 2)) OR push_bit 16 (ucast (p ! 1))
     OR push_bit 24 (ucast (p ! 0)))"

definition le_word64 :: "bytes \<Rightarrow> 64 word" where
  "le_word64 p = (ucast (p ! 0) OR push_bit 8 (ucast (p ! 1)) OR push_bit 16 (ucast (p ! 2))
     OR push_bit 24 (ucast (p ! 3)) OR push_bit 32 (ucast (p ! 4)) OR push_bit 40 (ucast (p ! 5))
     OR push_bit 48 (ucast (p ! 6)) OR push_bit 56 (ucast (p ! 7)))"

definition be_word64 :: "bytes \<Rightarrow> 64 word" where
  "be_word64 p = (ucast (p ! 7) OR push_bit 8 (ucast (p ! 6)) OR push_bit 16 (ucast (p ! 5))
     OR push_bit 24 (ucast (p ! 4)) OR push_bit 32 (ucast (p ! 3)) OR push_bit 40 (ucast (p ! 2))
     OR push_bit 48 (ucast (p ! 1)) OR push_bit 56 (ucast (p ! 0)))"

definition peekInt8 :: "nat \<Rightarrow> dynamic_buffer \<Rightarrow> 8 word option option" where
  "peekInt8 offset b = map_option (map_option (\<lambda>p. p ! 0)) (peek_bytes 1 offset b)"

definition peekInt16 :: "nat \<Rightarrow> bool \<Rightarrow> dynamic_buffer \<Rightarrow> 16 word option option" where
  "peekInt16 offset littleEndian b =
     map_option (map_option (if littleEndian then le_word16 else be_word16)) (peek_bytes 2 offset b)"

definition peekInt32 :: "nat \<Rightarrow> bool \<Rightarrow> dynamic_buffer \<Rightarrow> 32 word option option" where
  "peekInt32 offset littleEndian b =
     map_option (map_option (if littleEndian then le_word32 else be_word32)) (peek_bytes 4 offset b)"

definition peekInt64 :: "nat \<Rightarrow> bool \<Rightarrow> dynamic_buffer \<Rightarrow> 64 word option option" where
  "peekInt64 offset littleEndian b =
     map_option (map_option (if littleEndian then le_word64 else be_word64)) (peek_bytes 8 offset b)"

text \<open>The overloads with a wider out-parameter zero-extend; the target width is the result type.\<close>

definition peekInt8_wide :: "nat \<Rightarrow> dynamic_buffer \<Rightarrow> 'w::len word option option" where
  "peekInt8_wide offset b = map_option (map_option ucast) (peekInt8 offset b)"

definition peekInt16_wide :: "nat \<Rightarrow> bool \<Rightarrow> dynamic_buffer \<Rightarrow> 'w::len word option option" where
  "peekInt16_wide offset littleEndian b = map_option (map_option ucast) (peekInt16 offset littleEndian b)"

definition peekInt32_wide :: "nat \<Rightarrow> bool \<Rightarrow> dynamic_buffer \<Rightarrow> 'w::len word option option" where
  "peekInt32_wide offset littleEndian b = map_option (map_option ucast) (peekInt32 offset littleEndian b)"

text \<open>A read is the peek at offset 0 and, when it gives a value, the consumption of its bytes.\<close>

definition read_after :: "nat \<Rightarrow> 'v option option \<Rightarrow> dynamic_buffer \<Rightarrow> ('v option \<times> dynamic_buffer) option" where
  "read_after n peeked b =
     (case peeked of None \<Rightarrow> None
      | Some None \<Rightarrow> Some (None, b)
      | Some (Some v) \<Rightarrow> Some (Some v, db_read n b))"

definition readInt8 :: "dynamic_buffer \<Rightarrow> ('w::len word option \<times> dynamic_buffer) option" where
  "readInt8 b = read_after 1 (peekInt8_wide 0 b) b"

definition readInt16 :: "bool \<Rightarrow> dynamic_buffer \<Rightarrow> ('w::len word option \<times> dynamic_buffer) option" where
  "readInt16 littleEndian b = read_after 2 (peekInt16_wide 0 littleEndian b) b"

definition readInt32 :: "bool \<Rightarrow> dynamic_buffer \<Rightarrow> ('w::len word option \<times> dynamic_buffer) option" where
  "readInt32 littleEndian b = read_after 4 (peekInt32_wide 0 littleEndian b) b"

definition readInt64 :: "bool \<Rightarrow> dynamic_buffer \<Rightarrow> (64 word option \<times> dynamic_buffer) option" where
  "readInt64 littleEndian b = read_after 8 (peekInt64 0 littleEndian b) b"

text \<open>
  The writes reserve, store the bytes at \<open>writeBegin()\<close> and advance the write index. The bytes
  of each integer, in the order of their addresses:
\<close>

definition word16_bytes :: "bool \<Rightarrow> 16 word \<Rightarrow> bytes" where
  "word16_bytes littleEndian v =
     (if littleEndian then [ucast v, ucast (drop_bit 8 v)] else [ucast (drop_bit 8 v), ucast v])"

definition word32_bytes :: "bool \<Rightarrow> 32 word \<Rightarrow> bytes" where
  "word32_bytes littleEndian v =
     (if littleEndian
      then [ucast v, ucast (drop_bit 8 v), ucast (drop_bit 16 v), ucast (drop_bit 24 v)]
      else [ucast (drop_bit 24 v), ucast (drop_bit 16 v), ucast (drop_bit 8 v), ucast v])"

definition word64_bytes :: "bool \<Rightarrow> 64 word \<Rightarrow> bytes" where
  "word64_bytes littleEndian v =
     (if littleEndian
      then [ucast v, ucast (drop_bit 8 v), ucast (drop_bit 16 v), ucast (drop_bit 24 v),
            ucast (drop_bit 32 v), ucast (drop_bit 40 v), ucast (drop_bit 48 v), ucast (drop_bit 56 v)]
      else [ucast (drop_bit 56 v), ucast (drop_bit 48 v), ucast (drop_bit 40 v), ucast (drop_bit 32 v),
            ucast (drop_bit 24 v), ucast (drop_bit 16 v), ucast (drop_bit 8 v), ucast v])"

definition store_and_write :: "bytes \<Rightarrow> dynamic_buffer \<Rightarrow> dynamic_buffer option" where
  "store_and_write bs b =
     do { b1 \<leftarrow> reserveWritableBytes (length bs) b;
          block \<leftarrow> mem_write (db_buffer b1) (writeBegin b1) bs;
          Some (db_write (length bs) (b1\<lparr>db_buffer := block\<rparr>)) }"

definition writeInt8 :: "8 word \<Rightarrow> dynamic_buffer \<Rightarrow> dynamic_buffer option" where
  "writeInt8 v b = store_and_write [v] b"

definition writeInt16 :: "16 word \<Rightarrow> bool \<Rightarrow> dynamic_buffer \<Rightarrow> dynamic_buffer option" where
  "writeInt16 v littleEndian b = store_and_write (word16_bytes littleEndian v) b"

definition writeInt32 :: "32 word \<Rightarrow> bool \<Rightarrow> dynamic_buffer \<Rightarrow> dynamic_buffer option" where
  "writeInt32 v littleEndian b = store_and_write (word32_bytes littleEndian v) b"

definition writeInt64 :: "64 word \<Rightarrow> bool \<Rightarrow> dynamic_buffer \<Rightarrow> dynamic_buffer option" where
  "writeInt64 v littleEndian b = store_and_write (word64_bytes littleEndian v) b"

definition readBytes :: "nat \<Rightarrow> dynamic_buffer \<Rightarrow> (bytes \<times> dynamic_buffer) option" where
  "readBytes count b =
     (let real_count = min count (readableBytes b)
      in do { bs \<leftarrow> mem_read (db_buffer b) (readBegin b) real_count;
              let b1 = b\<lparr>db_read_index := sz_add (db_read_index b) real_count\<rparr>;
              Some (bs, if db_read_index b1 = db_write_index b1 then db_clear b1 else b1) })"

definition writeBytes :: "bytes \<Rightarrow> dynamic_buffer \<Rightarrow> dynamic_buffer option" where
  "writeBytes bs b =
     do { b1 \<leftarrow> reserveWritableBytes (length bs) b;
          block \<leftarrow> mem_write (db_buffer b1) (writeBegin b1) bs;
          Some (b1\<lparr>db_buffer := block, db_write_index := sz_add (db_write_index b1) (length bs)\<rparr>) }"


subsection \<open>Invariant and abstraction\<close>

definition buffer_ok :: "dynamic_buffer \<Rightarrow> bool" where
  "buffer_ok b \<longleftrightarrow> db_read_index b \<le> db_write_index b \<and> db_write_index b \<le> length (db_buffer b)
     \<and> length (db_buffer b) < vec_max \<and> 0 < db_expand_size b"

definition content :: "dynamic_buffer \<Rightarrow> bytes" where
  "content b = take (db_write_index b - db_read_index b) (drop (db_read_index b) (db_buffer b))"

text \<open>What an append of \<open>n\<close> bytes may need at most: the capacity, \<open>n\<close> and one expansion.\<close>

definition room :: "nat \<Rightarrow> dynamic_buffer \<Rightarrow> bool" where
  "room n b \<longleftrightarrow> length (db_buffer b) + n + db_expand_size b < vec_max"

named_theorems buf_simps \<open>the observers of a well-formed buffer\<close>

lemma readableBytes_eq [buf_simps]: "buffer_ok b \<Longrightarrow> readableBytes b = db_write_index b - db_read_index b"
  by (auto simp: buffer_ok_def readableBytes_def intro!: sz_sub_le vec_max_le_sz_max)

lemma writableBytes_eq [buf_simps]: "buffer_ok b \<Longrightarrow> writableBytes b = length (db_buffer b) - db_write_index b"
  by (auto simp: buffer_ok_def writableBytes_def intro!: sz_sub_le vec_max_le_sz_max)

lemma length_content: "buffer_ok b \<Longrightarrow> length (content b) = readableBytes b"
  by (auto simp: buf_simps) (auto simp: content_def buffer_ok_def)

lemma buffer_ok_new:
  "init_size < vec_max \<Longrightarrow> 0 < expand_size \<Longrightarrow>
   \<exists>b. DynamicBuffer init_size expand_size = Some b \<and> buffer_ok b \<and> content b = [] \<and>
       capacity b = init_size \<and> db_expand_size b = expand_size"
  by (simp add: DynamicBuffer_def zb_mem buffer_ok_def content_def capacity_def)

lemma free_bytes_eq:
  assumes "buffer_ok b"
  shows "sz_add (discardableBytes b) (writableBytes b) = db_read_index b + (length (db_buffer b) - db_write_index b)"
  using assms by (subst sz_add_small)
    (auto simp: buf_simps discardableBytes_def buffer_ok_def dest: vec_max_le_sz_max)

text \<open>
  The block \<open>reserveWritableBytes\<close> moves to holds the readable bytes and \<open>n\<close> more, whatever
  branch computed its size, the one with the wrapped subtraction included; it never exceeds the
  old size by more than \<open>n\<close> and one expansion.
\<close>

lemma grown_size_fits:
  assumes ok: "buffer_ok b" and room: "room n b" and small: "writableBytes b < n"
  shows "\<exists>s. grown_size n b = Some s \<and> readableBytes b + n \<le> s
    \<and> s \<le> length (db_buffer b) + n + db_expand_size b"
proof -
  let ?len = "length (db_buffer b)" and ?e = "db_expand_size b"
  let ?free = "db_read_index b + (?len - db_write_index b)"
  have idx: "db_read_index b \<le> db_write_index b" "db_write_index b \<le> ?len" "?len < vec_max" "0 < ?e"
    using ok by (auto simp: buffer_ok_def)
  have bound: "?len + n + ?e < vec_max" using room by (simp add: room_def)
  have below: "m \<le> ?len + n + ?e \<Longrightarrow> m < sz_max" for m
    using bound vec_max_less_sz_max by linarith
  have fr: "sz_add (discardableBytes b) (writableBytes b) = ?free" by (rule free_bytes_eq [OF ok])
  have used: "readableBytes b = ?len - ?free" using ok idx by (simp add: buf_simps)
  show ?thesis
  proof (cases "n \<le> ?free")
    case True
    have fs: "sz_sub ?free n = ?free - n" using True idx below by (intro sz_sub_le) auto
    show ?thesis
    proof (cases "?free - n < ?e")
      case True
      then have "grown_size n b = Some (?len + ?e)"
        using \<open>n \<le> ?free\<close> fs by (simp add: grown_size_def Let_def fr sz_add_small below)
      then show ?thesis using used \<open>n \<le> ?free\<close> True idx by simp
    next
      case False
      let ?r = "sz_max - (?free - n)"
      have "sz_add ?len (sz_mul ?e (sz_add (sz_sub n ?free div ?e) 1)) = ?len - (?free - n) + (?e - ?r mod ?e)"
        using False idx below by (intro sz_wrap_cancel) auto
      then have "grown_size n b = Some (?len - (?free - n) + (?e - ?r mod ?e))"
        using \<open>n \<le> ?free\<close> False fs idx by (simp add: grown_size_def Let_def fr)
      moreover obtain m where "?r mod ?e = m" "m < ?e" using idx(4) mod_less_divisor by blast
      ultimately show ?thesis using used \<open>n \<le> ?free\<close> False idx by auto
    qed
  next
    case False
    let ?k = "(n - ?free) div ?e"
    have k: "?e * ?k \<le> n - ?free" "n - ?free < ?e * (?k + 1)"
      using idx(4) by (simp, metis Suc_eq_plus1 dividend_less_times_div mult_Suc_right add.commute)
    have ek: "?e * (?k + 1) = ?e * ?k + ?e" by simp
    have "?k \<le> n - ?free" by (rule div_le_dividend)
    then have "?k + 1 \<le> ?len + n + ?e" using idx(4) by linarith
    then have "sz_add ?k 1 = ?k + 1" by (intro sz_add_small below)
    moreover have le: "?len + ?e * (?k + 1) \<le> ?len + n + ?e" using k(1) ek by linarith
    then have "sz_mul ?e (?k + 1) = ?e * (?k + 1)"
      by (intro sz_mul_small below) linarith
    moreover have "sz_add ?len (?e * (?k + 1)) = ?len + ?e * (?k + 1)"
      using le by (intro sz_add_small below)
    moreover have "sz_sub n ?free = n - ?free" using False below by (intro sz_sub_le) auto
    ultimately have "grown_size n b = Some (?len + ?e * (?k + 1))"
      using False idx(4) by (simp add: grown_size_def Let_def fr)
    moreover have "readableBytes b + n \<le> ?len + ?e * (?k + 1)"
      using used k(2) idx False by linarith
    ultimately show ?thesis using le by blast
  qed
qed


lemma content_room: "buffer_ok b \<Longrightarrow> content b = drop (db_read_index b) (take (db_write_index b) (db_buffer b))"
  by (simp add: content_def buffer_ok_def take_drop)

lemma read_content: "buffer_ok b \<Longrightarrow> mem_read (db_buffer b) (readBegin b) (readableBytes b) = Some (content b)"
  by (simp add: buf_simps readBegin_def content_def zb_mem buffer_ok_def)

text \<open>What \<open>reserveWritableBytes\<close> promises its callers.\<close>

lemma reserve_ok:
  assumes ok: "buffer_ok b" and room: "room n b"
  obtains b' where "reserveWritableBytes n b = Some b'" "buffer_ok b'" "content b' = content b"
    "n \<le> writableBytes b'" "db_expand_size b' = db_expand_size b"
    "length (db_buffer b') \<le> length (db_buffer b) + n + db_expand_size b"
proof (cases "n \<le> writableBytes b")
  case True
  then show ?thesis using ok by (intro that) (auto simp: reserveWritableBytes_def)
next
  case False
  then obtain s where s: "grown_size n b = Some s" "readableBytes b + n \<le> s"
    "s \<le> length (db_buffer b) + n + db_expand_size b"
    using grown_size_fits [OF ok room] by auto
  have sv: "s < vec_max" using s(3) room by (simp add: room_def)
  have len: "length (content b) = readableBytes b" by (rule length_content [OF ok])
  let ?b' = "b\<lparr>db_buffer := content b @ drop (readableBytes b) (replicate s 0),
    db_read_index := 0, db_write_index := readableBytes b\<rparr>"
  have res: "reserveWritableBytes n b = Some ?b'"
    using False s sv len read_content [OF ok] by (simp add: reserveWritableBytes_def zb_mem)
  have ok': "buffer_ok ?b'" using ok s sv len by (auto simp: buffer_ok_def)
  moreover have "n \<le> writableBytes ?b'" using ok' s len by (simp add: buf_simps)
  moreover have "content ?b' = content b" unfolding content_def [of ?b'] using len by simp
  ultimately show ?thesis using s len by (intro that [OF res]) auto
qed

lemma writing_ok:
  assumes ok: "buffer_ok b" and fits: "length bs \<le> writableBytes b"
  shows "\<exists>block. mem_write (db_buffer b) (writeBegin b) bs = Some block
    \<and> length block = length (db_buffer b)
    \<and> (let b' = b\<lparr>db_buffer := block, db_write_index := db_write_index b + length bs\<rparr>
       in buffer_ok b' \<and> content b' = content b @ bs)"
proof -
  have idx: "db_read_index b \<le> db_write_index b" "db_write_index b + length bs \<le> length (db_buffer b)"
    using ok fits by (auto simp: buf_simps) (auto simp: buffer_ok_def)
  then show ?thesis using ok
    by (auto simp: zb_mem writeBegin_def Let_def buffer_ok_def content_def min_absorb2 take_drop)
qed

text \<open>The two forms of an append, \<open>write(n)\<close> after a store and \<open>write_index_ += n\<close>, agree.\<close>

lemma append_ok:
  assumes ok: "buffer_ok b" and room: "room (length bs) b"
  obtains b' where "store_and_write bs b = Some b'" "writeBytes bs b = Some b'" "buffer_ok b'"
    "content b' = content b @ bs" "db_expand_size b' = db_expand_size b"
    "length (db_buffer b') \<le> length (db_buffer b) + length bs + db_expand_size b"
proof -
  obtain b1 where b1: "reserveWritableBytes (length bs) b = Some b1" "buffer_ok b1"
    "content b1 = content b" "length bs \<le> writableBytes b1" "db_expand_size b1 = db_expand_size b"
    "length (db_buffer b1) \<le> length (db_buffer b) + length bs + db_expand_size b"
    by (rule reserve_ok [OF ok room])
  obtain block where bl: "mem_write (db_buffer b1) (writeBegin b1) bs = Some block"
    "length block = length (db_buffer b1)"
    and ok2: "buffer_ok (b1\<lparr>db_buffer := block, db_write_index := db_write_index b1 + length bs\<rparr>)"
    and con: "content (b1\<lparr>db_buffer := block, db_write_index := db_write_index b1 + length bs\<rparr>) = content b @ bs"
    using writing_ok [OF b1(2,4)] b1(3) by (auto simp: Let_def)
  have add: "sz_add (db_write_index b1) (length bs) = db_write_index b1 + length bs"
    using b1(2,4) by (intro sz_add_small) (auto simp: buf_simps buffer_ok_def dest: vec_max_le_sz_max)
  have wr: "writableBytes (b1\<lparr>db_buffer := block\<rparr>) = writableBytes b1"
    using bl(2) by (simp add: writableBytes_def)
  show ?thesis
  proof (rule that)
    show "store_and_write bs b = Some (b1\<lparr>db_buffer := block, db_write_index := db_write_index b1 + length bs\<rparr>)"
      using b1 bl wr add by (simp add: store_and_write_def db_write_def min_absorb1)
    show "writeBytes bs b = Some (b1\<lparr>db_buffer := block, db_write_index := db_write_index b1 + length bs\<rparr>)"
      using b1 bl add by (simp add: writeBytes_def)
  qed (use ok2 con b1 bl in auto)
qed

subsection \<open>Consuming bytes\<close>

lemma db_clear_ok: "buffer_ok b \<Longrightarrow> buffer_ok (db_clear b) \<and> content (db_clear b) = []"
  by (auto simp: buffer_ok_def db_clear_def content_def)

lemma db_read_ok:
  assumes ok: "buffer_ok b"
  shows "buffer_ok (db_read n b)" "content (db_read n b) = drop n (content b)"
    "db_expand_size (db_read n b) = db_expand_size b" "db_buffer (db_read n b) = db_buffer b"
proof -
  let ?k = "min n (readableBytes b)"
  have "sz_add (db_read_index b) ?k = db_read_index b + ?k"
    using ok by (intro sz_add_small) (auto simp: buf_simps buffer_ok_def dest: vec_max_le_sz_max)
  then show "buffer_ok (db_read n b)" "content (db_read n b) = drop n (content b)"
    "db_expand_size (db_read n b) = db_expand_size b" "db_buffer (db_read n b) = db_buffer b"
    using ok by (auto simp: db_read_def Let_def db_clear_def buffer_ok_def content_def
      readableBytes_eq min_def drop_take add.commute split: if_splits)
qed

lemma readBytes_ok:
  assumes ok: "buffer_ok b"
  shows "readBytes n b = Some (take n (content b), db_read n b)"
proof -
  let ?k = "min n (readableBytes b)"
  have "db_read_index b + ?k \<le> length (db_buffer b)"
    using ok by (auto simp: buf_simps) (auto simp: buffer_ok_def)
  moreover have "take ?k (drop (db_read_index b) (db_buffer b)) = take n (content b)"
    using ok by (simp add: content_def readableBytes_eq)
  ultimately show ?thesis
    by (simp add: readBytes_def db_read_def Let_def readBegin_def zb_mem)
qed

lemma peek_bytes_eq:
  assumes ok: "buffer_ok b" and off: "off + n < sz_max"
  shows "peek_bytes n off b = Some (if off + n \<le> length (content b)
           then Some (take n (drop off (content b))) else None)"
proof (cases "off + n \<le> length (content b)")
  case True
  have lt: "length (db_buffer b) < sz_max" using ok by (auto simp: buffer_ok_def dest: vec_max_le_sz_max)
  have "db_read_index b + off + n \<le> db_write_index b"
    using True ok by (auto simp: length_content buf_simps) (auto simp: buffer_ok_def)
  then have le: "db_read_index b + off + n \<le> length (db_buffer b)"
    using ok by (simp add: buffer_ok_def)
  then have "sz_add (readBegin b) off = db_read_index b + off"
    using lt by (intro sz_add_small [THEN trans]) (auto simp: readBegin_def)
  moreover have "take n (drop (db_read_index b + off) (db_buffer b)) = take n (drop off (content b))"
    using \<open>db_read_index b + off + n \<le> db_write_index b\<close>
    by (simp add: content_def drop_take add.commute)
  ultimately show ?thesis
    using True le off ok by (simp add: peek_bytes_def zb_size zb_mem length_content add.assoc)
next
  case False
  then show ?thesis using off ok by (simp add: peek_bytes_def zb_size length_content)
qed


subsection \<open>Integers in the buffer\<close>

lemmas word_bytes_simps = word16_bytes_def word32_bytes_def word64_bytes_def
  le_word16_def be_word16_def le_word32_def be_word32_def le_word64_def be_word64_def

lemma length_word_bytes [simp]:
  "length (word16_bytes le v) = 2" "length (word32_bytes le w) = 4" "length (word64_bytes le x) = 8"
  by (simp_all add: word_bytes_simps)

lemma word16_join [simp]:
  "le_word16 (word16_bytes True v) = v" "be_word16 (word16_bytes False v) = v"
  by (simp_all add: word_bytes_simps word_bytes_16)

lemma word32_join [simp]:
  "le_word32 (word32_bytes True v) = v" "be_word32 (word32_bytes False v) = v"
  by (simp_all add: word_bytes_simps word_bytes_32)

lemma word64_join [simp]:
  "le_word64 (word64_bytes True v) = v" "be_word64 (word64_bytes False v) = v"
  by (simp_all add: word_bytes_simps word_bytes_64)

subsection \<open>The byte queue contract\<close>

text \<open>
  What the components above rely on: appends go to the end, consumption comes off the front, and
  a queue that grows stays within its capacity, the appended bytes and one \<open>step\<close> per append.
  A sequence of operations is run by \<open>bq_run\<close>, and by \<open>queue_run\<close> on a plain list.
\<close>

datatype buf_op = Append bytes | Consume nat

fun bq_run :: "(bytes \<Rightarrow> 'q \<Rightarrow> 'q option) \<Rightarrow> (nat \<Rightarrow> 'q \<Rightarrow> (bytes \<times> 'q) option) \<Rightarrow>
    buf_op list \<Rightarrow> 'q \<Rightarrow> (bytes \<times> 'q) option" where
  "bq_run enq deq [] q = Some ([], q)"
| "bq_run enq deq (Append bs # ops) q = do { q' \<leftarrow> enq bs q; bq_run enq deq ops q' }"
| "bq_run enq deq (Consume n # ops) q =
     do { (out, q') \<leftarrow> deq n q; (rest, q'') \<leftarrow> bq_run enq deq ops q'; Some (out @ rest, q'') }"

fun queue_run :: "buf_op list \<Rightarrow> bytes \<Rightarrow> bytes \<times> bytes" where
  "queue_run [] c = ([], c)"
| "queue_run (Append bs # ops) c = queue_run ops (c @ bs)"
| "queue_run (Consume n # ops) c = (case queue_run ops (drop n c) of (out, c') \<Rightarrow> (take n c @ out, c'))"

fun appended :: "buf_op list \<Rightarrow> bytes" where
  "appended [] = []"
| "appended (Append bs # ops) = bs @ appended ops"
| "appended (Consume n # ops) = appended ops"

fun growth :: "nat \<Rightarrow> buf_op list \<Rightarrow> nat" where
  "growth e [] = 0"
| "growth e (Append bs # ops) = length bs + e + growth e ops"
| "growth e (Consume n # ops) = growth e ops"

lemma queue_run_fifo: "queue_run ops c = (out, c') \<Longrightarrow> out @ c' = c @ appended ops"
proof (induction ops c arbitrary: out rule: queue_run.induct)
  case (3 n ops c)
  then obtain rest where "queue_run ops (drop n c) = (rest, c')" "out = take n c @ rest"
    by (auto split: prod.splits)
  with "3.IH" [of rest] show ?case by (metis append.assoc append_take_drop_id appended.simps(3))
qed auto

locale byte_queue =
  fixes ok :: "'q \<Rightarrow> bool" and con :: "'q \<Rightarrow> bytes" and cap :: "'q \<Rightarrow> nat" and expand :: "'q \<Rightarrow> nat"
    and enq :: "bytes \<Rightarrow> 'q \<Rightarrow> 'q option" and deq :: "nat \<Rightarrow> 'q \<Rightarrow> (bytes \<times> 'q) option"
  assumes enq_law: "ok q \<Longrightarrow> cap q + length bs + expand q < vec_max \<Longrightarrow>
      \<exists>q'. enq bs q = Some q' \<and> ok q' \<and> con q' = con q @ bs \<and> expand q' = expand q
         \<and> cap q' \<le> cap q + length bs + expand q"
    and deq_law: "ok q \<Longrightarrow>
      \<exists>q'. deq n q = Some (take n (con q), q') \<and> ok q' \<and> con q' = drop n (con q)
         \<and> expand q' = expand q \<and> cap q' = cap q"
begin

lemma run_refines:
  assumes "ok q" and "cap q + growth (expand q) ops < vec_max"
  shows "\<exists>out q'. bq_run enq deq ops q = Some (out, q') \<and> ok q' \<and> queue_run ops (con q) = (out, con q')"
  using assms
proof (induction ops arbitrary: q)
  case Nil
  then show ?case by simp
next
  case (Cons op ops)
  show ?case
  proof (cases op)
    case (Append bs)
    with Cons.prems have "cap q + length bs + expand q < vec_max" by simp
    with enq_law [OF Cons.prems(1)] obtain q' where q': "enq bs q = Some q'" "ok q'"
      "con q' = con q @ bs" "expand q' = expand q" "cap q' \<le> cap q + length bs + expand q" by blast
    with Cons.prems(2) Append have "cap q' + growth (expand q') ops < vec_max" by simp
    from Cons.IH [OF q'(2) this] q' Append show ?thesis by auto
  next
    case (Consume n)
    with deq_law [OF Cons.prems(1)] obtain q' where q': "deq n q = Some (take n (con q), q')" "ok q'"
      "con q' = drop n (con q)" "expand q' = expand q" "cap q' = cap q" by blast
    with Cons.prems(2) Consume have "cap q' + growth (expand q') ops < vec_max" by simp
    from Cons.IH [OF q'(2) this] q' Consume show ?thesis by auto
  qed
qed

lemma enq_then_deq:
  assumes "ok q" and "cap q + length bs + expand q < vec_max" and "con q = []"
  obtains q' q'' where "enq bs q = Some q'" "deq (length bs) q' = Some (bs, q'')" "con q'' = []"
  using enq_law [OF assms(1,2)] deq_law assms(3) by (metis append_Nil drop_all order_refl take_all)

end

interpretation dbq: byte_queue buffer_ok content "\<lambda>b. length (db_buffer b)" db_expand_size writeBytes readBytes
proof unfold_locales
  fix q and bs :: bytes
  assume "buffer_ok q" and "length (db_buffer q) + length bs + db_expand_size q < vec_max"
  then have "buffer_ok q" and "room (length bs) q" by (simp_all add: room_def)
  from append_ok [OF this] show "\<exists>q'. writeBytes bs q = Some q' \<and> buffer_ok q' \<and> content q' = content q @ bs
      \<and> db_expand_size q' = db_expand_size q
      \<and> length (db_buffer q') \<le> length (db_buffer q) + length bs + db_expand_size q"
    by blast
next
  fix q n
  assume "buffer_ok q"
  then show "\<exists>q'. readBytes n q = Some (take n (content q), q') \<and> buffer_ok q'
      \<and> content q' = drop n (content q) \<and> db_expand_size q' = db_expand_size q
      \<and> length (db_buffer q') = length (db_buffer q)"
    by (auto simp: readBytes_ok db_read_ok)
qed

lemma written_then_peeked:
  assumes ok: "buffer_ok b" and room: "room (length bs) b" and ne: "bs \<noteq> []"
  obtains b' where "store_and_write bs b = Some b'" "buffer_ok b'" "content b' = content b @ bs"
    "peek_bytes (length bs) (length (content b)) b' = Some (Some bs)"
    "peek_bytes (length bs) 0 (db_read (length (content b)) b') = Some (Some bs)"
    "content (db_read (length bs) (db_read (length (content b)) b')) = []"
proof -
  obtain b' where b': "store_and_write bs b = Some b'" "buffer_ok b'" "content b' = content b @ bs"
    using append_ok [OF ok room] by metis
  have "length (content b) \<le> length (db_buffer b)" using ok by (simp add: content_def buffer_ok_def)
  then have "length (content b) + length bs < sz_max"
    using room vec_max_less_sz_max unfolding room_def by linarith
  then have lt: "length (content b') < sz_max" using b'(3) by simp
  have "peek_bytes (length bs) (length (content b)) b' = Some (Some bs)"
    using peek_bytes_eq [OF b'(2), of "length (content b)" "length bs"] lt b'(3) by simp
  moreover have "peek_bytes (length bs) 0 (db_read (length (content b)) b') = Some (Some bs)"
    using peek_bytes_eq [OF db_read_ok(1) [OF b'(2)], of 0 "length bs"] lt b'(2,3)
    by (simp add: db_read_ok(2))
  moreover have "content (db_read (length bs) (db_read (length (content b)) b')) = []"
    using b'(2,3) by (simp add: db_read_ok(1,2))
  ultimately show ?thesis using b' that by blast
qed

text \<open>
  Little- and big-endian integers written at the end are peeked there, and read once what stood
  before them is consumed.
\<close>

lemma peeked_word:
  "peek_bytes 1 off b = Some (Some [va]) \<Longrightarrow> peekInt8 off b = Some (Some va)"
  "peek_bytes 2 off b = Some (Some (word16_bytes le vb)) \<Longrightarrow> peekInt16 off le b = Some (Some vb)"
  "peek_bytes 4 off b = Some (Some (word32_bytes le vc)) \<Longrightarrow> peekInt32 off le b = Some (Some vc)"
  "peek_bytes 8 off b = Some (Some (word64_bytes le vd)) \<Longrightarrow> peekInt64 off le b = Some (Some vd)"
  by (cases le, simp_all add: peekInt8_def peekInt16_def peekInt32_def peekInt64_def)

lemma read_word:
  "peekInt8 0 b = Some (Some va) \<Longrightarrow> readInt8 b = Some (Some (ucast va :: 'w::len word), db_read 1 b)"
  "peekInt16 0 le b = Some (Some vb) \<Longrightarrow> readInt16 le b = Some (Some (ucast vb :: 'w::len word), db_read 2 b)"
  "peekInt32 0 le b = Some (Some vc) \<Longrightarrow> readInt32 le b = Some (Some (ucast vc :: 'w::len word), db_read 4 b)"
  "peekInt64 0 le b = Some (Some vd) \<Longrightarrow> readInt64 le b = Some (Some vd, db_read 8 b)"
  by (simp_all add: readInt8_def readInt16_def readInt32_def readInt64_def read_after_def
      peekInt8_wide_def peekInt16_wide_def peekInt32_wide_def)

subsection \<open>Properties\<close>

text \<open>
  C12: \<open>DynamicBuffer\<close> is a FIFO byte queue. From any well-formed buffer, any sequence of
  \<open>writeBytes\<close> and \<open>readBytes\<close> whose growth stays below the largest vector returns without
  touching memory outside of the block, keeps the invariant, and gives the bytes and the final
  content that the same operations give on a plain list.
\<close>
theorem buffer_refines_queue:
  assumes "buffer_ok b" and "length (db_buffer b) + growth (db_expand_size b) ops < vec_max"
  shows "\<exists>out b'. bq_run writeBytes readBytes ops b = Some (out, b') \<and> buffer_ok b'
           \<and> queue_run ops (content b) = (out, content b') \<and> out @ content b' = content b @ appended ops"
  using dbq.run_refines [OF assms] queue_run_fifo by blast

theorem buffer_refines_queue_witness:
  "\<exists>out b'. bq_run writeBytes readBytes [Append [1, 2, 3], Consume 2, Append [4]]
       \<lparr>db_buffer = replicate 4 0, db_expand_size = 2, db_read_index = 0, db_write_index = 0\<rparr> = Some (out, b')
     \<and> buffer_ok b'
     \<and> queue_run [Append [1, 2, 3], Consume 2, Append [4]]
         (content \<lparr>db_buffer = replicate 4 0, db_expand_size = 2, db_read_index = 0, db_write_index = 0\<rparr>) = (out, content b')
     \<and> out @ content b' = content \<lparr>db_buffer = replicate 4 0, db_expand_size = 2, db_read_index = 0, db_write_index = 0\<rparr>
         @ appended [Append [1, 2, 3], Consume 2, Append [4]]"
  by (rule buffer_refines_queue) (simp_all add: buffer_ok_def vec_max_def)

text \<open>
  C13: \<open>reserveWritableBytes\<close> always makes room. Whatever branch of its growth formula is taken,
  the one whose \<open>size - free_bytes\<close> underflows included, the call returns a well-formed buffer
  with the same readable bytes, at least \<open>n\<close> writable ones, and a capacity of at most the old
  one, \<open>n\<close> and one expansion.
\<close>
theorem reserve_makes_room:
  assumes "buffer_ok b" and "length (db_buffer b) + n + db_expand_size b < vec_max"
  shows "\<exists>b'. reserveWritableBytes n b = Some b' \<and> buffer_ok b' \<and> content b' = content b
           \<and> n \<le> writableBytes b' \<and> capacity b' \<le> capacity b + n + db_expand_size b"
proof -
  have "room n b" using assms(2) by (simp add: room_def)
  from reserve_ok [OF assms(1) this] show ?thesis unfolding capacity_def by blast
qed

definition underflow_buffer :: dynamic_buffer where
  "underflow_buffer = \<lparr>db_buffer = replicate 8 7, db_expand_size = 2, db_read_index = 6, db_write_index = 8\<rparr>"

theorem reserve_makes_room_witness:
  "\<exists>b'. reserveWritableBytes 1 underflow_buffer = Some b' \<and> buffer_ok b'
      \<and> content b' = content underflow_buffer \<and> 1 \<le> writableBytes b'
      \<and> capacity b' \<le> capacity underflow_buffer + 1 + db_expand_size underflow_buffer"
  by (rule reserve_makes_room) (simp_all add: underflow_buffer_def buffer_ok_def vec_max_def)

text \<open>
  The underflow of \<open>reserveWritableBytes\<close> is real and shrinks the block. When the free bytes
  exceed the request by at least one expansion (consumed bytes at the front, none left at the
  end), \<open>size - free_bytes\<close> wraps below zero and the new block is not larger than the old one,
  yet by the wrap of the product it still holds the readable bytes and the request.
\<close>
theorem reserve_underflow_shrinks:
  assumes "buffer_ok b" and "writableBytes b < n"
    and "n + db_expand_size b \<le> discardableBytes b + writableBytes b"
  shows "\<exists>b'. reserveWritableBytes n b = Some b' \<and> readableBytes b + n \<le> capacity b' \<and> capacity b' \<le> capacity b"
proof -
  let ?len = "length (db_buffer b)" and ?e = "db_expand_size b"
  let ?free = "db_read_index b + (?len - db_write_index b)"
  let ?r = "sz_max - (?free - n)"
  have idx: "db_read_index b \<le> db_write_index b" "db_write_index b \<le> ?len" "?len < vec_max" "0 < ?e" "?len < sz_max"
    using assms(1) by (auto simp: buffer_ok_def dest: vec_max_le_sz_max)
  have fr: "n + ?e \<le> ?free" using assms by (simp add: buf_simps discardableBytes_def)
  have sub: "sz_sub ?free n = ?free - n" using fr idx by (intro sz_sub_le) auto
  have "sz_add ?len (sz_mul ?e (sz_add (sz_sub n ?free div ?e) 1)) = ?len - (?free - n) + (?e - ?r mod ?e)"
    using fr idx by (intro sz_wrap_cancel) auto
  moreover have "\<not> ?free - n < ?e" using fr by linarith
  ultimately have g: "grown_size n b = Some (?len - (?free - n) + (?e - ?r mod ?e))"
    using sub idx by (simp add: grown_size_def Let_def free_bytes_eq [OF assms(1)])
  obtain m where m: "?r mod ?e = m" "m < ?e" using idx(4) mod_less_divisor by blast
  let ?s = "?len - (?free - n) + (?e - m)"
  have s: "?s \<le> ?len" "readableBytes b + n \<le> ?s"
    using fr idx m assms(1) by (simp_all add: buf_simps)
  have len: "length (content b) = readableBytes b" by (rule length_content [OF assms(1)])
  have gs: "grown_size n b = Some ?s" using g unfolding m(1) .
  obtain t where t: "?s = t" by simp
  have "t < vec_max" using s(1) idx t by simp
  then have "reserveWritableBytes n b = Some (b\<lparr>db_buffer := content b @ drop (readableBytes b) (replicate t 0),
      db_read_index := 0, db_write_index := readableBytes b\<rparr>)"
    using assms(2) gs s(2) len read_content [OF assms(1)] unfolding t
    by (simp add: reserveWritableBytes_def zb_mem)
  then show ?thesis using s len unfolding t by (simp add: capacity_def)
qed

theorem reserve_underflow_shrinks_witness:
  "\<exists>b'. reserveWritableBytes 1 underflow_buffer = Some b'
      \<and> readableBytes underflow_buffer + 1 \<le> capacity b' \<and> capacity b' \<le> capacity underflow_buffer"
  by (rule reserve_underflow_shrinks)
    (simp_all add: underflow_buffer_def buffer_ok_def vec_max_def writableBytes_def discardableBytes_def
      sz_sub_def sz_max_def)

text \<open>
  C16: integers survive the buffer. Writing a 16, 32 or 64 bit integer in either byte order
  appends its bytes; a peek at the old end returns the integer, and once the bytes that stood
  before it are consumed the read of that width returns it and leaves the buffer empty.
\<close>
theorem integers_roundtrip:
  assumes "buffer_ok b" and "length (db_buffer b) + 8 + db_expand_size b < vec_max"
  defines "n \<equiv> length (content b)"
  shows "\<exists>b2 b4 b8.
      writeInt16 v16 le b = Some b2 \<and> peekInt16 n le b2 = Some (Some v16)
        \<and> readInt16 le (db_read n b2) = Some (Some v16, db_read 2 (db_read n b2))
        \<and> content b2 = content b @ word16_bytes le v16 \<and> content (db_read 2 (db_read n b2)) = []
    \<and> writeInt32 v32 le b = Some b4 \<and> peekInt32 n le b4 = Some (Some v32)
        \<and> readInt32 le (db_read n b4) = Some (Some v32, db_read 4 (db_read n b4))
        \<and> content b4 = content b @ word32_bytes le v32 \<and> content (db_read 4 (db_read n b4)) = []
    \<and> writeInt64 v64 le b = Some b8 \<and> peekInt64 n le b8 = Some (Some v64)
        \<and> readInt64 le (db_read n b8) = Some (Some v64, db_read 8 (db_read n b8))
        \<and> content b8 = content b @ word64_bytes le v64 \<and> content (db_read 8 (db_read n b8)) = []"
proof -
  have room: "k \<le> 8 \<Longrightarrow> room k b" for k using assms(2) by (simp add: room_def)
  have ne: "word16_bytes le v16 \<noteq> []" "word32_bytes le v32 \<noteq> []" "word64_bytes le v64 \<noteq> []"
    by (simp_all add: word_bytes_simps)
  obtain b2 where b2: "writeInt16 v16 le b = Some b2" "content b2 = content b @ word16_bytes le v16"
    "peek_bytes 2 n b2 = Some (Some (word16_bytes le v16))"
    "peek_bytes 2 0 (db_read n b2) = Some (Some (word16_bytes le v16))"
    "content (db_read 2 (db_read n b2)) = []"
    using written_then_peeked [OF assms(1) _ ne(1)] room [of 2] unfolding writeInt16_def n_def
    by (metis length_word_bytes(1) numeral_le_iff semiring_norm(68,71))
  obtain b4 where b4: "writeInt32 v32 le b = Some b4" "content b4 = content b @ word32_bytes le v32"
    "peek_bytes 4 n b4 = Some (Some (word32_bytes le v32))"
    "peek_bytes 4 0 (db_read n b4) = Some (Some (word32_bytes le v32))"
    "content (db_read 4 (db_read n b4)) = []"
    using written_then_peeked [OF assms(1) _ ne(2)] room [of 4] unfolding writeInt32_def n_def
    by (metis length_word_bytes(2) numeral_le_iff semiring_norm(68,71))
  obtain b8 where b8: "writeInt64 v64 le b = Some b8" "content b8 = content b @ word64_bytes le v64"
    "peek_bytes 8 n b8 = Some (Some (word64_bytes le v64))"
    "peek_bytes 8 0 (db_read n b8) = Some (Some (word64_bytes le v64))"
    "content (db_read 8 (db_read n b8)) = []"
    using written_then_peeked [OF assms(1) _ ne(3)] room [of 8] unfolding writeInt64_def n_def
    by (metis length_word_bytes(3) order_refl)
  show ?thesis
    using b2 b4 b8 read_word(2) [where 'w = 16 and b = "db_read n b2" and le = le and vb = v16]
      read_word(3) [where 'w = 32 and b = "db_read n b4" and le = le and vc = v32]
      read_word(4) [where b = "db_read n b8" and le = le and vd = v64]
    by (intro exI [of _ b2] exI [of _ b4] exI [of _ b8]) (simp add: peeked_word)
qed

theorem integers_roundtrip_witness:
  defines "b \<equiv> underflow_buffer"
  shows "\<exists>b2 b4 b8.
      writeInt16 258 True b = Some b2 \<and> peekInt16 (length (content b)) True b2 = Some (Some 258)
        \<and> readInt16 True (db_read (length (content b)) b2) = Some (Some (258 :: 16 word), db_read 2 (db_read (length (content b)) b2))
        \<and> content b2 = content b @ word16_bytes True 258 \<and> content (db_read 2 (db_read (length (content b)) b2)) = []
    \<and> writeInt32 3 True b = Some b4 \<and> peekInt32 (length (content b)) True b4 = Some (Some 3)
        \<and> readInt32 True (db_read (length (content b)) b4) = Some (Some (3 :: 32 word), db_read 4 (db_read (length (content b)) b4))
        \<and> content b4 = content b @ word32_bytes True 3 \<and> content (db_read 4 (db_read (length (content b)) b4)) = []
    \<and> writeInt64 (-1) True b = Some b8 \<and> peekInt64 (length (content b)) True b8 = Some (Some (-1))
        \<and> readInt64 True (db_read (length (content b)) b8) = Some (Some (-1), db_read 8 (db_read (length (content b)) b8))
        \<and> content b8 = content b @ word64_bytes True (-1) \<and> content (db_read 8 (db_read (length (content b)) b8)) = []"
  unfolding b_def by (rule integers_roundtrip) (simp_all add: underflow_buffer_def buffer_ok_def vec_max_def)

end
