(* ===== verification/Timestamp_Model.thy ===== *)
theory Timestamp_Model
  imports Zb_Prelude
begin

text \<open>
  \<open>Timestamp\<close> (\<open>zbluenet/timestamp.h\<close>, \<open>.cc\<close>): a point in time as seconds and nanoseconds. The
  class's \<open>operator<\<close> is the order of the type; \<open>normal\<close> says that the nanoseconds are within
  their second, which \<open>setNow\<close> establishes. The clock (\<open>std::chrono::system_clock\<close>, in
  nanoseconds since the epoch) is an argument of the operations that read it.
\<close>

datatype timestamp = Timestamp (second: int) (nanosecond: int)

definition setNow :: "int \<Rightarrow> timestamp" where
  "setNow clock_ns =
     (let s = cdiv clock_ns 1000000000 in Timestamp s (clock_ns - s * 1000000000))"

definition getNow :: "int \<Rightarrow> int" where
  "getNow clock_ns = cdiv clock_ns 1000000000"

definition getNowInMillisecond :: "int \<Rightarrow> int" where
  "getNowInMillisecond clock_ns = cdiv clock_ns 1000000"

definition getMillisecond :: "timestamp \<Rightarrow> int" where
  "getMillisecond t = cdiv (nanosecond t) 1000000"

definition plus_ms :: "timestamp \<Rightarrow> int \<Rightarrow> timestamp" where
  "plus_ms t millisecond =
     (let s = second t + cdiv millisecond 1000;
          n = nanosecond t + cmod millisecond 1000 * 1000000
      in if 1000000000 \<le> n then Timestamp (s + 1) (n - 1000000000) else Timestamp s n)"

definition timestamp_before :: "timestamp \<Rightarrow> timestamp \<Rightarrow> bool" where
  "timestamp_before t other \<longleftrightarrow>
     (if second t \<noteq> second other then second t < second other else nanosecond t < nanosecond other)"

instantiation timestamp :: linorder
begin

definition less_timestamp :: "timestamp \<Rightarrow> timestamp \<Rightarrow> bool" where
  "less_timestamp t other \<longleftrightarrow> timestamp_before t other"

definition less_eq_timestamp :: "timestamp \<Rightarrow> timestamp \<Rightarrow> bool" where
  "less_eq_timestamp t other \<longleftrightarrow> t < other \<or> t = other"

instance
proof
  fix x y :: timestamp
  show "x \<le> y \<or> y \<le> x"
    by (cases x; cases y) (auto simp: less_timestamp_def timestamp_before_def less_eq_timestamp_def)
qed (auto simp: less_timestamp_def timestamp_before_def less_eq_timestamp_def split: if_splits)

end

definition millisecondLess :: "timestamp \<Rightarrow> timestamp \<Rightarrow> bool" where
  "millisecondLess t other \<longleftrightarrow>
     (if second t \<noteq> second other then second t < second other
      else getMillisecond t < getMillisecond other)"

definition millisecondEqual :: "timestamp \<Rightarrow> timestamp \<Rightarrow> bool" where
  "millisecondEqual t other \<longleftrightarrow> second t = second other \<and> getMillisecond t = getMillisecond other"

definition distanceSecond :: "timestamp \<Rightarrow> timestamp \<Rightarrow> int" where
  "distanceSecond t other =
     (if second other < second t then second t - second other else second other - second t)"

definition distanceMillisecond :: "timestamp \<Rightarrow> timestamp \<Rightarrow> int" where
  "distanceMillisecond t other =
     (let (bigger, smaller) = (if t < other then (other, t) else (t, other))
      in (second bigger - second smaller) * 1000 + (getMillisecond bigger - getMillisecond smaller))"

subsection \<open>Normal timestamps and what they denote\<close>

definition normal :: "timestamp \<Rightarrow> bool" where
  "normal t \<longleftrightarrow> 0 \<le> nanosecond t \<and> nanosecond t < 1000000000"

definition in_ns :: "timestamp \<Rightarrow> int" where
  "in_ns t = second t * 1000000000 + nanosecond t"

definition in_ms :: "timestamp \<Rightarrow> int" where
  "in_ms t = second t * 1000 + nanosecond t div 1000000"

lemma getMillisecond_normal: "normal t \<Longrightarrow> getMillisecond t = nanosecond t div 1000000"
  by (simp add: getMillisecond_def normal_def cdiv_nonneg)

lemma ms_bounds: "normal t \<Longrightarrow> 0 \<le> nanosecond t div 1000000 \<and> nanosecond t div 1000000 < 1000"
  by (auto simp: normal_def)

lemma in_ms_of_ns: "in_ms t = in_ns t div 1000000"
  by (simp add: in_ms_def in_ns_def)

lemma setNow_normal: "0 \<le> clock_ns \<Longrightarrow> normal (setNow clock_ns) \<and> in_ns (setNow clock_ns) = clock_ns"
  by (auto simp: setNow_def normal_def in_ns_def cdiv_nonneg Let_def minus_div_mult_eq_mod)

lemma plus_ms_normal:
  assumes "normal t" and "0 \<le> ms"
  shows "normal (plus_ms t ms)" and "in_ns (plus_ms t ms) = in_ns t + ms * 1000000"
proof -
  have "ms div 1000 * 1000000000 + ms mod 1000 * 1000000 = ms * 1000000"
    using div_mult_mod_eq [of ms 1000] by linarith
  moreover have "0 \<le> ms mod 1000" "ms mod 1000 < 1000" by simp_all
  ultimately show "normal (plus_ms t ms)" "in_ns (plus_ms t ms) = in_ns t + ms * 1000000"
    using assms by (auto simp: plus_ms_def normal_def in_ns_def cdiv_nonneg cmod_nonneg Let_def)
qed

lemma less_in_ns: "normal t \<Longrightarrow> normal u \<Longrightarrow> t < u \<longleftrightarrow> in_ns t < in_ns u"
  by (auto simp: less_timestamp_def timestamp_before_def normal_def in_ns_def)

lemma le_in_ns: "normal t \<Longrightarrow> normal u \<Longrightarrow> t \<le> u \<longleftrightarrow> in_ns t \<le> in_ns u"
  using less_in_ns [of u t] by (simp add: not_less [symmetric])

lemma millisecondLess_in_ms: "normal t \<Longrightarrow> normal u \<Longrightarrow> millisecondLess t u \<longleftrightarrow> in_ms t < in_ms u"
  using ms_bounds [of t] ms_bounds [of u]
  by (auto simp: millisecondLess_def getMillisecond_normal in_ms_def)

lemma in_ms_mono: "normal t \<Longrightarrow> normal u \<Longrightarrow> t \<le> u \<Longrightarrow> in_ms t \<le> in_ms u"
  by (simp add: le_in_ns in_ms_of_ns zdiv_mono1)

subsection \<open>Properties\<close>

text \<open>
  Adding a non-negative number of milliseconds is exact: a normal timestamp stays normal and
  moves by exactly that many milliseconds, carries included; and the class's orders are the orders
  of the denoted times: \<open>operator<\<close> compares nanoseconds, \<open>millisecondLess\<close> whole milliseconds, and
  \<open>distanceMillisecond\<close> is the absolute difference of the whole milliseconds.
\<close>
theorem timestamp_arithmetic:
  assumes "normal t" and "normal u" and "0 \<le> ms"
  shows "normal (plus_ms t ms) \<and> in_ns (plus_ms t ms) = in_ns t + ms * 1000000
    \<and> (t < u \<longleftrightarrow> in_ns t < in_ns u) \<and> (millisecondLess t u \<longleftrightarrow> in_ms t < in_ms u)
    \<and> distanceMillisecond t u = \<bar>in_ms t - in_ms u\<bar>"
proof -
  have "distanceMillisecond t u = \<bar>in_ms t - in_ms u\<bar>"
    using in_ms_mono [of t u] in_ms_mono [of u t] assms(1,2)
    by (auto simp: distanceMillisecond_def getMillisecond_normal in_ms_def algebra_simps not_less)
  then show ?thesis
    using plus_ms_normal [OF assms(1,3)] less_in_ns [OF assms(1,2)] millisecondLess_in_ms [OF assms(1,2)]
    by simp
qed

theorem timestamp_arithmetic_witness:
  "normal (plus_ms (Timestamp 5 999000000) 1001)
    \<and> in_ns (plus_ms (Timestamp 5 999000000) 1001) = in_ns (Timestamp 5 999000000) + 1001 * 1000000
    \<and> (Timestamp 5 999000000 < Timestamp 7 0 \<longleftrightarrow> in_ns (Timestamp 5 999000000) < in_ns (Timestamp 7 0))
    \<and> (millisecondLess (Timestamp 5 999000000) (Timestamp 7 0) \<longleftrightarrow>
         in_ms (Timestamp 5 999000000) < in_ms (Timestamp 7 0))
    \<and> distanceMillisecond (Timestamp 5 999000000) (Timestamp 7 0)
        = \<bar>in_ms (Timestamp 5 999000000) - in_ms (Timestamp 7 0)\<bar>"
  by (rule timestamp_arithmetic) (simp_all add: normal_def)

end
