(* ===== verification/Heap_Array.thy ===== *)
theory Heap_Array
  imports Main "HOL-Library.Multiset"
begin

text \<open>
  Binary heaps in a 1-based array (slot 0 unused), as lists over a linear order: the heap order,
  and the two ways it can be broken at one slot only, which the sifting loops repair. The facts
  are about the array of keys; the timer heap's loops are tied to them slot by slot.
\<close>

definition heap_order :: "'a::linorder list \<Rightarrow> bool" where
  "heap_order xs \<longleftrightarrow> (\<forall>k. 2 \<le> k \<and> k < length xs \<longrightarrow> xs ! (k div 2) \<le> xs ! k)"

text \<open>Heap order but for slot \<open>c\<close>, which may be smaller than its parent.\<close>

definition order_but_up :: "'a::linorder list \<Rightarrow> nat \<Rightarrow> bool" where
  "order_but_up xs c \<longleftrightarrow>
     (\<forall>k. 2 \<le> k \<and> k < length xs \<and> k \<noteq> c \<longrightarrow> xs ! (k div 2) \<le> xs ! k)
   \<and> (\<forall>k. 2 \<le> c \<and> k < length xs \<and> k div 2 = c \<longrightarrow> xs ! (c div 2) \<le> xs ! k)"

text \<open>Heap order but for slot \<open>c\<close>, which may be greater than its children.\<close>

definition order_but_down :: "'a::linorder list \<Rightarrow> nat \<Rightarrow> bool" where
  "order_but_down xs c \<longleftrightarrow>
     (\<forall>k. 2 \<le> k \<and> k < length xs \<and> k div 2 \<noteq> c \<longrightarrow> xs ! (k div 2) \<le> xs ! k)
   \<and> (\<forall>k. 2 \<le> c \<and> k < length xs \<and> k div 2 = c \<longrightarrow> xs ! (c div 2) \<le> xs ! k)"

definition list_swap :: "nat \<Rightarrow> nat \<Rightarrow> 'a list \<Rightarrow> 'a list" where
  "list_swap a c xs = xs[a := xs ! c, c := xs ! a]"

lemma length_list_swap [simp]: "length (list_swap a c xs) = length xs"
  by (simp add: list_swap_def)

lemma nth_list_swap:
  "a < length xs \<Longrightarrow> c < length xs \<Longrightarrow>
   list_swap a c xs ! k = (if k = c then xs ! a else if k = a then xs ! c else xs ! k)"
  by (auto simp: list_swap_def nth_list_update)

lemma mset_list_swap: "a < length xs \<Longrightarrow> c < length xs \<Longrightarrow> mset (list_swap a c xs) = mset xs"
  unfolding list_swap_def by (rule mset_swap)

lemma hd_list_swap: "1 \<le> a \<Longrightarrow> 1 \<le> c \<Longrightarrow> hd (list_swap a c xs) = hd xs"
  by (cases xs; cases a; cases c) (simp_all add: list_swap_def)

lemma map_list_swap: "a < length xs \<Longrightarrow> c < length xs \<Longrightarrow> map f (list_swap a c xs) = list_swap a c (map f xs)"
  by (simp add: list_swap_def map_update)

lemma heap_order_min:
  assumes "heap_order xs" and "1 \<le> k" and "k < length xs"
  shows "xs ! 1 \<le> xs ! k"
  using assms(2,3)
proof (induction k rule: less_induct)
  case (less k)
  show ?case
  proof (cases "k = 1")
    case False
    with less.prems have "k div 2 < k" "1 \<le> k div 2" "k div 2 < length xs" by auto
    with less.IH have "xs ! 1 \<le> xs ! (k div 2)" by blast
    also have "\<dots> \<le> xs ! k" using assms(1) less.prems False by (simp add: heap_order_def)
    finally show ?thesis .
  qed simp
qed

subsection \<open>Sifting up\<close>

lemma order_but_up_step:
  assumes up: "order_but_up xs c" and c: "2 \<le> c" "c < length xs" and le: "xs ! c \<le> xs ! (c div 2)"
  shows "order_but_up (list_swap (c div 2) c xs) (c div 2)"
proof -
  let ?p = "c div 2"
  have p: "?p < length xs" "?p < c" using c by auto
  have sw: "list_swap ?p c xs ! k = (if k = c then xs ! ?p else if k = ?p then xs ! c else xs ! k)" for k
    by (rule nth_list_swap) (use p c in auto)
  have edge: "xs ! (k div 2) \<le> xs ! k" if "2 \<le> k" "k < length xs" "k \<noteq> c" for k
    using up that by (simp add: order_but_up_def)
  have below: "xs ! ?p \<le> xs ! k" if "k < length xs" "k div 2 = c" for k
    using up that c by (simp add: order_but_up_def)
  show ?thesis unfolding order_but_up_def
  proof (intro conjI allI impI)
    fix k
    assume k: "2 \<le> k \<and> k < length (list_swap ?p c xs) \<and> k \<noteq> ?p"
    then have kk: "2 \<le> k" "k < length xs" by auto
    show "list_swap ?p c xs ! (k div 2) \<le> list_swap ?p c xs ! k"
    proof (cases "k = c")
      case True
      then show ?thesis using sw p le by simp
    next
      case False
      have e: "xs ! (k div 2) \<le> xs ! k" by (rule edge [OF kk False])
      consider "k div 2 = c" | "k div 2 = ?p" | "k div 2 \<noteq> c" "k div 2 \<noteq> ?p" by blast
      then show ?thesis
      proof cases
        case 1
        then show ?thesis using sw False k below [OF kk(2) 1] by simp
      next
        case 2
        then show ?thesis using sw False k e le p by auto
      next
        case 3
        then show ?thesis using sw False k e by simp
      qed
    qed
  next
    fix k
    assume k: "2 \<le> ?p \<and> k < length (list_swap ?p c xs) \<and> k div 2 = ?p"
    then have kk: "2 \<le> k" "k < length xs" "?p div 2 \<noteq> c" "?p div 2 \<noteq> ?p" "k \<noteq> ?p" by auto
    have top: "xs ! (?p div 2) \<le> xs ! ?p" using edge [of ?p] k p by simp
    show "list_swap ?p c xs ! (?p div 2) \<le> list_swap ?p c xs ! k"
    proof (cases "k = c")
      case True
      then show ?thesis using sw kk top by simp
    next
      case False
      then show ?thesis using sw kk top edge [OF kk(1,2) False] k by auto
    qed
  qed
qed

lemma order_but_up_done:
  "order_but_up xs c \<Longrightarrow> c < 2 \<or> xs ! (c div 2) \<le> xs ! c \<Longrightarrow> heap_order xs"
  by (auto simp: order_but_up_def heap_order_def)

lemma order_but_up_append: "heap_order xs \<Longrightarrow> order_but_up (xs @ [x]) (length xs)"
  by (auto simp: heap_order_def order_but_up_def nth_append)

subsection \<open>Sifting down\<close>

lemma order_but_down_step:
  assumes down: "order_but_down xs c" and c: "1 \<le> c" and d: "d div 2 = c" "d < length xs"
    and le: "xs ! d \<le> xs ! c" and least: "\<And>k. k div 2 = c \<Longrightarrow> k < length xs \<Longrightarrow> xs ! d \<le> xs ! k"
  shows "order_but_down (list_swap c d xs) d"
proof -
  have cd: "c < d" "c < length xs" using c d by auto
  have sw: "list_swap c d xs ! k = (if k = d then xs ! c else if k = c then xs ! d else xs ! k)" for k
    by (rule nth_list_swap) (use cd d in auto)
  have edge: "xs ! (k div 2) \<le> xs ! k" if "2 \<le> k" "k < length xs" "k div 2 \<noteq> c" for k
    using down that by (simp add: order_but_down_def)
  have below: "xs ! (c div 2) \<le> xs ! k" if "2 \<le> c" "k < length xs" "k div 2 = c" for k
    using down that by (simp add: order_but_down_def)
  show ?thesis unfolding order_but_down_def
  proof (intro conjI allI impI)
    fix k
    assume "2 \<le> k \<and> k < length (list_swap c d xs) \<and> k div 2 \<noteq> d"
    then have k: "2 \<le> k" "k < length xs" "k div 2 \<noteq> d" by auto
    show "list_swap c d xs ! (k div 2) \<le> list_swap c d xs ! k"
    proof (cases "k div 2 = c")
      case True
      then show ?thesis using sw k le least [OF True k(2)] d by auto
    next
      case False
      then show ?thesis using sw k edge [OF k(1,2) False] below [of d] d cd by auto
    qed
  next
    fix k
    assume k: "2 \<le> d \<and> k < length (list_swap c d xs) \<and> k div 2 = d"
    then have "xs ! d \<le> xs ! k" using edge [of k] cd by auto
    then show "list_swap c d xs ! (d div 2) \<le> list_swap c d xs ! k"
      using sw k d cd by auto
  qed
qed

lemma order_but_down_done:
  assumes "order_but_down xs c" and "\<And>k. 2 \<le> k \<Longrightarrow> k div 2 = c \<Longrightarrow> k < length xs \<Longrightarrow> xs ! c \<le> xs ! k"
  shows "heap_order xs"
  using assms by (auto simp: order_but_down_def heap_order_def)

text \<open>
  Replacing a slot by the last key and dropping the last slot, as an erase does. The result is
  in order but for that slot's children when the moved key is not below the slot's parent.
\<close>

lemma order_but_down_erase:
  assumes xs: "heap_order xs" and c: "1 \<le> c" "c < length xs"
    and up: "2 \<le> c \<Longrightarrow> c < length xs - 1 \<Longrightarrow> xs ! (c div 2) \<le> last xs"
  shows "order_but_down (butlast (xs[c := last xs])) c"
proof -
  let ?ys = "butlast (xs[c := last xs])"
  have ys: "?ys ! k = (if k = c then last xs else xs ! k)" if "k < length xs - 1" for k
    using that by (auto simp: nth_butlast nth_list_update)
  have edge: "xs ! (k div 2) \<le> xs ! k" if "2 \<le> k" "k < length xs" for k
    using xs that by (simp add: heap_order_def)
  show ?thesis unfolding order_but_down_def
  proof (intro conjI allI impI)
    fix k
    assume "2 \<le> k \<and> k < length ?ys \<and> k div 2 \<noteq> c"
    then have k: "2 \<le> k" "k < length xs - 1" "k div 2 \<noteq> c" "k div 2 < length xs - 1" by auto
    show "?ys ! (k div 2) \<le> ?ys ! k"
      using ys [OF k(2)] ys [OF k(4)] k up edge [of k] by auto
  next
    fix k
    assume "2 \<le> c \<and> k < length ?ys \<and> k div 2 = c"
    then have k: "2 \<le> c" "k < length xs - 1" "k div 2 = c" "c div 2 < length xs - 1" "c div 2 \<noteq> c" "k \<noteq> c"
      by auto
    have "xs ! (c div 2) \<le> xs ! c" using edge [of c] k(1) c by simp
    also have "\<dots> \<le> xs ! k" using edge [of k] k by auto
    finally show "?ys ! (c div 2) \<le> ?ys ! k" using ys [OF k(2)] ys [OF k(4)] k by simp
  qed
qed

end
