(* ===== verification/Timer_Heap.thy ===== *)
theory Timer_Heap
  imports Timestamp_Model Heap_Array
begin

text \<open>
  The timer queue (\<open>zbluenet/timer.h\<close>, \<open>base_heap_value.h\<close>, \<open>timer_id_allocator.h\<close>,
  \<open>timer_heap.h\<close>, \<open>timer_heap.cc\<close>): a binary min-heap of pointers to timers, with an id map.

  Every \<open>Timer\<close> object is owned by exactly one entry of \<open>timer_map_\<close>, the one of its id, so the
  model keeps the objects in the map and a \<open>Timer *\<close> is the timer's id. The heap array is the list
  \<open>th_heap\<close> with the unused null pointer in slot 0 (\<open>null_timer\<close>). A callback is a token
  interpreted by a function \<open>run\<close>, an argument of \<open>checkTimeout\<close>, that may change the heap
  and the world, as a \<open>TimerCallback\<close> may call \<open>addTimer\<close> or \<open>removeTimer\<close>.
\<close>

type_synonym timer_id = "64 word"

record 'cb timer =
  t_id :: timer_id
  t_heap_pos :: int
  t_value :: timestamp
  t_timeout :: int
  t_cb :: 'cb
  t_call_times :: int

record 'cb timer_heap =
  th_next_id :: timer_id
  th_map :: "timer_id \<rightharpoonup> 'cb timer"
  th_heap :: "timer_id list"

definition null_timer :: timer_id where
  "null_timer = -1"

definition TimerHeap :: "'cb timer_heap" where
  "TimerHeap = \<lparr>th_next_id = 0, th_map = Map.empty, th_heap = [null_timer]\<rparr>"

subsection \<open>Ids and objects\<close>

definition nextId :: "timer_id \<Rightarrow> timer_id" where
  "nextId timer_id = (let t = timer_id + 1 in if sint t < 0 then 0 else t)"

definition Timer :: "timer_id \<Rightarrow> timestamp \<Rightarrow> int \<Rightarrow> 'cb \<Rightarrow> int \<Rightarrow> 'cb timer" where
  "Timer timer_id timestamp timeout_millisec timer_cb call_times =
     \<lparr>t_id = timer_id, t_heap_pos = -1, t_value = timestamp, t_timeout = timeout_millisec,
      t_cb = timer_cb, t_call_times = call_times\<rparr>"

definition timer_of :: "'cb timer_heap \<Rightarrow> timer_id \<Rightarrow> 'cb timer" where
  "timer_of h i = the (th_map h i)"

definition value_at :: "'cb timer_heap \<Rightarrow> nat \<Rightarrow> timestamp" where
  "value_at h k = t_value (timer_of h (th_heap h ! k))"

definition setHeapPos :: "timer_id \<Rightarrow> int \<Rightarrow> 'cb timer_heap \<Rightarrow> 'cb timer_heap" where
  "setHeapPos i heap_pos h = h\<lparr>th_map := (th_map h)(i \<mapsto> (timer_of h i)\<lparr>t_heap_pos := heap_pos\<rparr>)\<rparr>"

definition swap_slots :: "nat \<Rightarrow> nat \<Rightarrow> 'cb timer_heap \<Rightarrow> 'cb timer_heap" where
  "swap_slots a c h =
     (let xs = th_heap h;
          h1 = setHeapPos (xs ! a) (int c) h;
          h2 = setHeapPos (xs ! c) (int a) h1
      in h2\<lparr>th_heap := xs[a := xs ! c, c := xs ! a]\<rparr>)"

subsection \<open>The heap operations\<close>

function sift_up :: "nat \<Rightarrow> 'cb timer_heap \<Rightarrow> 'cb timer_heap" where
  "sift_up cur_index h =
     (let parent_index = cur_index div 2
      in if parent_index = 0 then h
         else if value_at h parent_index < value_at h cur_index then h
         else sift_up parent_index (swap_slots parent_index cur_index h))"
  by pat_completeness auto
termination
  by (relation "measure fst") auto

definition minHeapInsert :: "timer_id \<Rightarrow> 'cb timer_heap \<Rightarrow> 'cb timer_heap" where
  "minHeapInsert i h =
     (let cur_index = length (th_heap h);
          h1 = setHeapPos i (int cur_index) (h\<lparr>th_heap := th_heap h @ [i]\<rparr>)
      in sift_up cur_index h1)"

text \<open>
  The loop of \<open>minHeapErase\<close>. It starts at a timer's position, which is at least 1; at 0 the
  code would read through the null pointer of slot 0, and the model stops.
\<close>

definition least_child :: "nat \<Rightarrow> 'cb timer_heap \<Rightarrow> nat" where
  "least_child cur_index h =
     (let child_index = cur_index * 2
      in if child_index + 1 < length (th_heap h) \<and> value_at h (child_index + 1) < value_at h child_index
         then child_index + 1 else child_index)"

function sift_down :: "nat \<Rightarrow> 'cb timer_heap \<Rightarrow> 'cb timer_heap" where
  "sift_down cur_index h =
     (if cur_index = 0 \<or> length (th_heap h) \<le> cur_index * 2 then h
      else let child_index = least_child cur_index h
      in if value_at h cur_index < value_at h child_index then h
         else sift_down child_index (swap_slots cur_index child_index h))"
  by pat_completeness auto
termination
  by (relation "measure (\<lambda>(cur_index, h). length (th_heap h) - cur_index)")
    (auto simp: least_child_def swap_slots_def setHeapPos_def Let_def)

declare sift_up.simps [simp del]
declare sift_down.simps [simp del]

definition minHeapErase :: "timer_id \<Rightarrow> 'cb timer_heap \<Rightarrow> 'cb timer_heap" where
  "minHeapErase i h =
     (let cur = t_heap_pos (timer_of h i)
      in if cur < 0 then h
         else
           let cur_index = nat cur;
               h1 = setHeapPos i (-1) h;
               back = last (th_heap h1);
               h2 = setHeapPos back (int cur_index) (h1\<lparr>th_heap := (th_heap h1)[cur_index := back]\<rparr>);
               h3 = h2\<lparr>th_heap := butlast (th_heap h2)\<rparr>
           in sift_down cur_index h3)"

definition minHeapTop :: "'cb timer_heap \<Rightarrow> timer_id option" where
  "minHeapTop h = (if length (th_heap h) \<le> 1 then None else Some (th_heap h ! 1))"

subsection \<open>The public operations\<close>

definition getNextTimeoutMillisecond :: "timestamp \<Rightarrow> 'cb timer_heap \<Rightarrow> int" where
  "getNextTimeoutMillisecond now h =
     (case minHeapTop h of None \<Rightarrow> -1
      | Some i \<Rightarrow> if t_value (timer_of h i) < now then -1
                  else distanceMillisecond now (t_value (timer_of h i)))"

definition addTimer :: "timestamp \<Rightarrow> int \<Rightarrow> 'cb \<Rightarrow> int \<Rightarrow> 'cb timer_heap \<Rightarrow> timer_id \<times> 'cb timer_heap" where
  "addTimer now timeout_ms timer_cb call_times h =
     (let timer_id = nextId (th_next_id h);
          h1 = h\<lparr>th_next_id := timer_id\<rparr>;
          timeout = max 0 timeout_ms;
          timer = Timer timer_id (plus_ms now timeout) timeout timer_cb call_times
      in if th_map h1 timer_id \<noteq> None then (-1, h1)
         else (timer_id, minHeapInsert timer_id (h1\<lparr>th_map := (th_map h1)(timer_id \<mapsto> timer)\<rparr>)))"

definition removeTimer :: "timer_id \<Rightarrow> 'cb timer_heap \<Rightarrow> 'cb timer_heap" where
  "removeTimer timer_id h =
     (case th_map h timer_id of None \<Rightarrow> h
      | Some _ \<Rightarrow> let h1 = minHeapErase timer_id h
                  in h1\<lparr>th_map := (th_map h1)(timer_id := None)\<rparr>)"

text \<open>
  One round of the loop of \<open>checkTimeout\<close> up to the call of the callback: the timer leaves the
  heap, and unless this was its last call it comes back with its next deadline.
\<close>

definition fire_timer :: "timer_id \<Rightarrow> 'cb timer_heap \<Rightarrow> 'cb timer_heap" where
  "fire_timer i h =
     (let h1 = minHeapErase i h; t = timer_of h1 i
      in if t_call_times t = 1 then h1\<lparr>th_map := (th_map h1)(i := None)\<rparr>
         else let t1 = (if 0 < t_call_times t then t\<lparr>t_call_times := t_call_times t - 1\<rparr> else t);
                  t2 = t1\<lparr>t_value := plus_ms (t_value t1) (t_timeout t1)\<rparr>
              in minHeapInsert i (h1\<lparr>th_map := (th_map h1)(i \<mapsto> t2)\<rparr>))"

partial_function (option) checkTimeout ::
  "('cb \<Rightarrow> timer_id \<Rightarrow> 'cb timer_heap \<times> 'w \<Rightarrow> 'cb timer_heap \<times> 'w) \<Rightarrow> timestamp \<Rightarrow>
     'cb timer_heap \<times> 'w \<Rightarrow> ('cb timer_heap \<times> 'w) option" where
  "checkTimeout run now s =
     (case minHeapTop (fst s) of None \<Rightarrow> Some s
      | Some i \<Rightarrow>
          if millisecondLess now (t_value (timer_of (fst s) i)) then Some s
          else checkTimeout run now (run (t_cb (timer_of (fst s) i)) i (fire_timer i (fst s), snd s)))"

subsection \<open>Well-formedness\<close>

text \<open>
  \<open>wf_heap\<close>: every slot but the first holds a live timer that knows its slot, and the map files
  each timer under its own id. \<open>ordered\<close> is the heap order. \<open>heap_inv\<close> adds that every live
  timer is in the heap, with a normal deadline and a non-negative period.
\<close>

definition wf_heap :: "'cb timer_heap \<Rightarrow> bool" where
  "wf_heap h \<longleftrightarrow> 1 \<le> length (th_heap h)
     \<and> (\<forall>k. 1 \<le> k \<and> k < length (th_heap h) \<longrightarrow>
          (\<exists>t. th_map h (th_heap h ! k) = Some t \<and> t_heap_pos t = int k))
     \<and> (\<forall>i t. th_map h i = Some t \<longrightarrow> t_id t = i)"

definition keys :: "'cb timer_heap \<Rightarrow> timestamp list" where
  "keys h = map (\<lambda>i. t_value (timer_of h i)) (th_heap h)"

definition ordered :: "'cb timer_heap \<Rightarrow> bool" where
  "ordered h \<longleftrightarrow> heap_order (keys h)"

text \<open>What a timer is, apart from its place in the array.\<close>

definition timers :: "'cb timer_heap \<Rightarrow> timer_id \<rightharpoonup> 'cb timer" where
  "timers h = (\<lambda>i. map_option (\<lambda>t. t\<lparr>t_heap_pos := 0\<rparr>) (th_map h i))"

definition in_heap :: "'cb timer_heap \<Rightarrow> timer_id multiset" where
  "in_heap h = mset (tl (th_heap h))"

subsection \<open>What the steps of the loops keep\<close>

lemma length_keys [simp]: "length (keys h) = length (th_heap h)"
  by (simp add: keys_def)

lemma value_at_keys: "k < length (th_heap h) \<Longrightarrow> value_at h k = keys h ! k"
  by (simp add: value_at_def keys_def)

lemma t_value_timers: "t_value (timer_of h i) = t_value (the (timers h i))"
  by (cases "th_map h i") (simp_all add: timer_of_def timers_def)

lemma keys_cong: "timers h' = timers h \<Longrightarrow> th_heap h' = th_heap h \<Longrightarrow> keys h' = keys h"
  by (simp add: keys_def t_value_timers)

lemma slot_timer:
  assumes "wf_heap h" and "1 \<le> k" and "k < length (th_heap h)"
  obtains t where "th_map h (th_heap h ! k) = Some t" "t_heap_pos t = int k" "timer_of h (th_heap h ! k) = t"
  using assms unfolding wf_heap_def timer_of_def by (metis option.sel)

lemma slots_distinct:
  assumes "wf_heap h" and "1 \<le> k" "k < length (th_heap h)" and "1 \<le> m" "m < length (th_heap h)"
  shows "th_heap h ! k = th_heap h ! m \<longleftrightarrow> k = m"
  using assms by (metis slot_timer of_nat_eq_iff)

lemma slots_distinct_list:
  assumes "wf_heap h"
  shows "distinct (tl (th_heap h))"
proof (unfold distinct_conv_nth, intro allI impI)
  fix i j
  assume "i < length (tl (th_heap h))" "j < length (tl (th_heap h))" "i \<noteq> j"
  then show "tl (th_heap h) ! i \<noteq> tl (th_heap h) ! j"
    using slots_distinct [OF assms, of "Suc i" "Suc j"] by (simp add: nth_tl)
qed

lemma setHeapPos_simps [simp]:
  "th_heap (setHeapPos i p h) = th_heap h" "th_next_id (setHeapPos i p h) = th_next_id h"
  "th_map (setHeapPos i p h) j = (if j = i then Some ((timer_of h i)\<lparr>t_heap_pos := p\<rparr>) else th_map h j)"
  by (simp_all add: setHeapPos_def)

lemma timers_setHeapPos: "th_map h i \<noteq> None \<Longrightarrow> timers (setHeapPos i p h) = timers h"
  by (auto simp: timers_def timer_of_def)

text \<open>
  \<open>rearranged h h'\<close>: the same timers in the same heap, in another arrangement; what both sifting
  loops do whatever the keys are.
\<close>

definition rearranged :: "'cb timer_heap \<Rightarrow> 'cb timer_heap \<Rightarrow> bool" where
  "rearranged h h' \<longleftrightarrow> wf_heap h' \<and> timers h' = timers h \<and> th_next_id h' = th_next_id h
     \<and> mset (th_heap h') = mset (th_heap h) \<and> hd (th_heap h') = hd (th_heap h)"

lemma rearranged_refl: "wf_heap h \<Longrightarrow> rearranged h h"
  by (simp add: rearranged_def)

lemma rearranged_trans: "rearranged h1 h2 \<Longrightarrow> rearranged h2 h3 \<Longrightarrow> rearranged h1 h3"
  by (simp add: rearranged_def)

lemma rearranged_length: "rearranged h h' \<Longrightarrow> length (th_heap h') = length (th_heap h)"
  unfolding rearranged_def by (metis size_mset)

lemma rearranged_tl: "rearranged h h' \<Longrightarrow> wf_heap h \<Longrightarrow> in_heap h' = in_heap h"
  unfolding rearranged_def in_heap_def wf_heap_def
  by (cases "th_heap h"; cases "th_heap h'") auto

lemma rearranged_dom: "rearranged h h' \<Longrightarrow> th_map h' i = None \<longleftrightarrow> th_map h i = None"
  unfolding rearranged_def timers_def by (metis (no_types, lifting) map_option_is_None)

lemma swap_slots_heap [simp]: "th_heap (swap_slots a c h) = list_swap a c (th_heap h)"
  by (simp add: swap_slots_def Let_def list_swap_def)

lemma swap_slots_rearranged:
  assumes wf: "wf_heap h" and ac: "1 \<le> a" "a < length (th_heap h)" "1 \<le> c" "c < length (th_heap h)" "a \<noteq> c"
  shows "rearranged h (swap_slots a c h)" and "keys (swap_slots a c h) = list_swap a c (keys h)"
proof -
  let ?xs = "th_heap h" and ?h' = "swap_slots a c h"
  have ne: "?xs ! a \<noteq> ?xs ! c" using slots_distinct [OF wf] ac by blast
  obtain ta tc where t: "th_map h (?xs ! a) = Some ta" "th_map h (?xs ! c) = Some tc"
    using slot_timer [OF wf] ac by metis
  have map: "th_map ?h' j = (if j = ?xs ! c then Some (tc\<lparr>t_heap_pos := int a\<rparr>)
      else if j = ?xs ! a then Some (ta\<lparr>t_heap_pos := int c\<rparr>) else th_map h j)" for j
    using t ne by (simp add: swap_slots_def Let_def timer_of_def)
  have tim: "timers ?h' = timers h"
    using t ne by (auto simp: timers_def map)
  have "wf_heap ?h'"
    unfolding wf_heap_def
  proof (intro conjI allI impI)
    show "1 \<le> length (th_heap ?h')" using ac by simp
  next
    fix k
    assume "1 \<le> k \<and> k < length (th_heap ?h')"
    then have k: "1 \<le> k" "k < length ?xs" by auto
    show "\<exists>t. th_map ?h' (th_heap ?h' ! k) = Some t \<and> t_heap_pos t = int k"
      using slot_timer [OF wf k] slots_distinct [OF wf k] ac ne
      by (auto simp: map nth_list_swap)
  next
    fix i t'
    assume "th_map ?h' i = Some t'"
    then show "t_id t' = i" using wf t by (auto simp: map wf_heap_def split: if_splits)
  qed
  then show "rearranged h ?h'"
    using ac tim by (simp add: rearranged_def mset_list_swap hd_list_swap)
      (simp add: swap_slots_def Let_def)
  show "keys ?h' = list_swap a c (keys h)"
    using ac by (simp add: keys_def t_value_timers tim map_list_swap)
qed

lemma sift_up_rearranged:
  "wf_heap h \<Longrightarrow> c < length (th_heap h) \<Longrightarrow> rearranged h (sift_up c h)"
proof (induction c h rule: sift_up.induct)
  case (1 c h)
  let ?p = "c div 2"
  show ?case
  proof (cases "?p = 0 \<or> value_at h ?p < value_at h c")
    case True
    then have "sift_up c h = h" by (subst sift_up.simps) (auto simp: Let_def)
    with "1.prems" show ?thesis by (simp add: rearranged_refl)
  next
    case False
    then have p: "1 \<le> ?p" "?p \<noteq> c" "1 \<le> c" "?p < length (th_heap h)" using "1.prems" by auto
    have sw: "rearranged h (swap_slots ?p c h)"
      by (rule swap_slots_rearranged) (use "1.prems" p in auto)
    have "rearranged (swap_slots ?p c h) (sift_up ?p (swap_slots ?p c h))"
      using "1.IH" [OF refl] False sw p by (simp add: rearranged_def)
    moreover have "sift_up c h = sift_up ?p (swap_slots ?p c h)"
      using False by (subst sift_up.simps) (simp add: Let_def)
    ultimately show ?thesis using sw rearranged_trans by metis
  qed
qed

lemma sift_up_ordered:
  "wf_heap h \<Longrightarrow> 1 \<le> c \<Longrightarrow> c < length (th_heap h) \<Longrightarrow> order_but_up (keys h) c \<Longrightarrow> ordered (sift_up c h)"
proof (induction c h rule: sift_up.induct)
  case (1 c h)
  let ?p = "c div 2"
  show ?case
  proof (cases "?p = 0 \<or> value_at h ?p < value_at h c")
    case True
    then have "sift_up c h = h" by (subst sift_up.simps) (auto simp: Let_def)
    moreover have "c < 2 \<or> keys h ! ?p \<le> keys h ! c"
      using True "1.prems" by (auto simp: value_at_keys)
    ultimately show ?thesis using order_but_up_done "1.prems"(4) by (auto simp: ordered_def)
  next
    case False
    then have p: "1 \<le> ?p" "?p \<noteq> c" "?p < length (th_heap h)" "2 \<le> c" using "1.prems" by auto
    have sw: "rearranged h (swap_slots ?p c h)" "keys (swap_slots ?p c h) = list_swap ?p c (keys h)"
      using swap_slots_rearranged [of h ?p c] "1.prems" p by auto
    have "order_but_up (keys (swap_slots ?p c h)) ?p"
      unfolding sw(2) using False "1.prems" p
      by (intro order_but_up_step) (auto simp: value_at_keys)
    then have "ordered (sift_up ?p (swap_slots ?p c h))"
      using "1.IH" [OF refl] False sw(1) p by (simp add: rearranged_def)
    moreover have "sift_up c h = sift_up ?p (swap_slots ?p c h)"
      using False by (subst sift_up.simps) (simp add: Let_def)
    ultimately show ?thesis by simp
  qed
qed

lemma least_child_bounds:
  assumes "1 \<le> c" and "c * 2 < length (th_heap h)"
  shows "least_child c h div 2 = c" "least_child c h < length (th_heap h)" "1 \<le> least_child c h"
    "c \<noteq> least_child c h"
  using assms by (auto simp: least_child_def Let_def)

lemma least_child_least:
  assumes "1 \<le> c" and "c * 2 < length (th_heap h)" and "k div 2 = c" and "k < length (th_heap h)"
  shows "keys h ! least_child c h \<le> keys h ! k"
proof -
  have "k = c * 2 \<or> k = c * 2 + 1" using assms(3) by auto
  then show ?thesis using assms by (auto simp: least_child_def Let_def value_at_keys not_less)
qed

lemma sift_down_unfold:
  assumes "c \<noteq> 0" and "c * 2 < length (th_heap h)" and "\<not> value_at h c < value_at h (least_child c h)"
  shows "sift_down c h = sift_down (least_child c h) (swap_slots c (least_child c h) h)"
  using assms by (subst sift_down.simps) (simp add: Let_def)

lemma sift_down_stop:
  assumes "c = 0 \<or> length (th_heap h) \<le> c * 2 \<or> value_at h c < value_at h (least_child c h)"
  shows "sift_down c h = h"
  using assms by (subst sift_down.simps) (auto simp: Let_def)

lemma sift_down_rearranged: "wf_heap h \<Longrightarrow> rearranged h (sift_down c h)"
proof (induction c h rule: sift_down.induct)
  case (1 c h)
  let ?d = "least_child c h"
  show ?case
  proof (cases "c = 0 \<or> length (th_heap h) \<le> c * 2 \<or> value_at h c < value_at h ?d")
    case True
    then show ?thesis using "1.prems" by (simp add: sift_down_stop rearranged_refl)
  next
    case False
    then have c: "1 \<le> c" "c * 2 < length (th_heap h)" "\<not> value_at h c < value_at h ?d" by auto
    note d = least_child_bounds [OF c(1,2)]
    have sw: "rearranged h (swap_slots c ?d h)"
      by (rule swap_slots_rearranged) (use "1.prems" c d in auto)
    moreover have "rearranged (swap_slots c ?d h) (sift_down ?d (swap_slots c ?d h))"
      using "1.IH" [OF _ refl] c sw by (simp add: rearranged_def)
    ultimately show ?thesis using c sift_down_unfold rearranged_trans by (metis less_one not_less)
  qed
qed

lemma sift_down_ordered:
  "wf_heap h \<Longrightarrow> 1 \<le> c \<Longrightarrow> order_but_down (keys h) c \<Longrightarrow> ordered (sift_down c h)"
proof (induction c h rule: sift_down.induct)
  case (1 c h)
  let ?d = "least_child c h"
  show ?case
  proof (cases "length (th_heap h) \<le> c * 2 \<or> value_at h c < value_at h ?d")
    case True
    have "keys h ! c \<le> keys h ! k" if k: "2 \<le> k" "k div 2 = c" "k < length (keys h)" for k
    proof -
      have c2: "c * 2 < length (th_heap h)" using k by auto
      note d = least_child_bounds [OF "1.prems"(2) c2]
      have "keys h ! c \<le> keys h ! ?d" using True c2 d by (auto simp: value_at_keys)
      also have "\<dots> \<le> keys h ! k" using least_child_least [OF "1.prems"(2) c2 k(2)] k by simp
      finally show ?thesis .
    qed
    with "1.prems"(3) have "heap_order (keys h)" by (rule order_but_down_done)
    then show ?thesis using True by (auto simp: sift_down_stop ordered_def)
  next
    case False
    then have c: "c \<noteq> 0" "c * 2 < length (th_heap h)" "\<not> value_at h c < value_at h ?d"
      using "1.prems" by auto
    note d = least_child_bounds [OF "1.prems"(2) c(2)]
    have sw: "rearranged h (swap_slots c ?d h)" "keys (swap_slots c ?d h) = list_swap c ?d (keys h)"
      using swap_slots_rearranged [of h c ?d] "1.prems" c d by auto
    have "keys h ! ?d \<le> keys h ! c" using c d by (simp add: value_at_keys)
    then have "order_but_down (keys (swap_slots c ?d h)) ?d"
      unfolding sw(2) using "1.prems" d least_child_least [OF "1.prems"(2) c(2)]
      by (intro order_but_down_step) auto
    then have "ordered (sift_down ?d (swap_slots c ?d h))"
      using "1.IH" [OF _ refl] c sw(1) d by (simp add: rearranged_def)
    then show ?thesis using c by (simp add: sift_down_unfold)
  qed
qed

subsection \<open>Insert and erase\<close>

text \<open>
  The state between insertion into the array and sifting, and between the erase of a slot and
  sifting: both are well formed and change the array in the expected way.
\<close>

lemma insert_ok:
  assumes wf: "wf_heap h" and new: "i \<notin> set (tl (th_heap h))" and t: "th_map h i = Some t"
  defines "h' \<equiv> minHeapInsert i h"
  shows "wf_heap h'" "timers h' = timers h" "in_heap h' = add_mset i (in_heap h)"
    "th_next_id h' = th_next_id h" "ordered h \<Longrightarrow> ordered h'"
proof -
  let ?n = "length (th_heap h)"
  let ?h1 = "setHeapPos i (int ?n) (h\<lparr>th_heap := th_heap h @ [i]\<rparr>)"
  have n: "1 \<le> ?n" using wf by (simp add: wf_heap_def)
  have tim: "timers ?h1 = timers h" using t by (auto simp: timers_def timer_of_def)
  have other: "th_heap h ! k \<noteq> i" if "1 \<le> k" "k < ?n" for k
    using new that by (metis Nitpick.size_list_simp(2) Suc_le_D diff_Suc_1 in_set_conv_nth length_tl
      less_Suc_eq_le nth_tl Suc_less_eq not_less_eq not_one_le_zero)
  have wf1: "wf_heap ?h1"
    unfolding wf_heap_def
  proof (intro conjI allI impI)
    fix k
    assume "1 \<le> k \<and> k < length (th_heap ?h1)"
    then have k: "1 \<le> k" "k < Suc ?n" by auto
    show "\<exists>t. th_map ?h1 (th_heap ?h1 ! k) = Some t \<and> t_heap_pos t = int k"
    proof (cases "k = ?n")
      case False
      with k have "k < ?n" by simp
      with slot_timer [OF wf k(1)] other [OF k(1)] show ?thesis by (simp add: nth_append) metis
    qed simp
  qed (use wf t in \<open>auto simp: wf_heap_def timer_of_def split: if_splits\<close>)
  have re: "rearranged ?h1 h'"
    unfolding h'_def minHeapInsert_def Let_def by (rule sift_up_rearranged [OF wf1]) simp
  have k1: "keys ?h1 = keys h @ [t_value (timer_of h i)]"
    by (simp add: keys_def t_value_timers tim)
  show "wf_heap h'" "timers h' = timers h" "th_next_id h' = th_next_id h"
    using re tim by (simp_all add: rearranged_def)
  show "in_heap h' = add_mset i (in_heap h)"
    using rearranged_tl [OF re wf1] n by (cases "th_heap h") (auto simp: in_heap_def)
  show "ordered h'" if "ordered h"
    unfolding h'_def minHeapInsert_def Let_def
    by (rule sift_up_ordered [OF wf1])
      (use n k1 that order_but_up_append [of "keys h"] in \<open>auto simp: ordered_def\<close>)
qed

definition erase_slot :: "timer_id \<Rightarrow> 'cb timer_heap \<Rightarrow> 'cb timer_heap" where
  "erase_slot i h =
     (let c = nat (t_heap_pos (timer_of h i));
          h1 = setHeapPos i (-1) h;
          back = last (th_heap h1);
          h2 = setHeapPos back (int c) (h1\<lparr>th_heap := (th_heap h1)[c := back]\<rparr>)
      in h2\<lparr>th_heap := butlast (th_heap h2)\<rparr>)"

lemma minHeapErase_slot:
  "0 \<le> t_heap_pos (timer_of h i) \<Longrightarrow>
   minHeapErase i h = sift_down (nat (t_heap_pos (timer_of h i))) (erase_slot i h)"
  by (simp add: minHeapErase_def erase_slot_def Let_def)

lemma mset_butlast_last: "xs \<noteq> [] \<Longrightarrow> mset (butlast xs) = mset xs - {#last xs#}"
  by (induction xs rule: rev_induct) auto

lemma erase_slot_ok:
  assumes wf: "wf_heap h" and c: "1 \<le> c" "c < length (th_heap h)" and i: "i = th_heap h ! c"
  defines "h3 \<equiv> erase_slot i h"
  shows "wf_heap h3" "timers h3 = timers h" "th_next_id h3 = th_next_id h"
    "th_heap h3 = butlast ((th_heap h)[c := last (th_heap h)])"
    "keys h3 = butlast ((keys h)[c := last (keys h)])"
    "in_heap h3 = in_heap h - {#i#}"
proof -
  let ?xs = "th_heap h" and ?n = "length (th_heap h)"
  let ?b = "last ?xs"
  obtain t where t: "th_map h i = Some t" "t_heap_pos t = int c" "timer_of h i = t"
    using slot_timer [OF wf c] i by metis
  have ne: "?xs \<noteq> []" using c by auto
  have b: "?b = ?xs ! (?n - 1)" "1 \<le> ?n - 1" "?n - 1 < ?n" using c last_conv_nth [OF ne] by auto
  obtain tb where tb: "th_map h ?b = Some tb" using slot_timer [OF wf b(2,3)] b(1) by metis
  have map: "th_map h3 j = (if j = ?b then Some ((if ?b = i then t else tb)\<lparr>t_heap_pos := int c\<rparr>)
      else if j = i then Some (t\<lparr>t_heap_pos := -1\<rparr>) else th_map h j)" for j
    using t tb by (simp add: h3_def erase_slot_def Let_def timer_of_def)
  show heap: "th_heap h3 = butlast (?xs[c := ?b])"
    using t by (simp add: h3_def erase_slot_def Let_def)
  show tim: "timers h3 = timers h" using t tb by (auto simp: timers_def map)
  show "th_next_id h3 = th_next_id h" by (simp add: h3_def erase_slot_def Let_def)
  show "keys h3 = butlast ((keys h)[c := last (keys h)])"
    using c by (simp add: keys_def t_value_timers tim heap map_butlast map_update last_map [OF ne])
  have len: "length (th_heap h3) = ?n - 1" using heap by simp
  have slot: "th_heap h3 ! k = (if k = c then ?b else ?xs ! k)" if "k < ?n - 1" for k
    using that by (auto simp: heap nth_butlast nth_list_update)
  show "wf_heap h3"
    unfolding wf_heap_def
  proof (intro conjI allI impI)
    show "1 \<le> length (th_heap h3)" using len b by simp
  next
    fix k
    assume "1 \<le> k \<and> k < length (th_heap h3)"
    then have k: "1 \<le> k" "k < ?n" "k < ?n - 1" using len by auto
    have kb: "?xs ! k \<noteq> ?b" using slots_distinct [OF wf k(1,2) b(2,3)] b(1) k(3) by simp
    have ki: "?xs ! k \<noteq> i" if "k \<noteq> c" using slots_distinct [OF wf k(1,2) c] that i by simp
    show "\<exists>t. th_map h3 (th_heap h3 ! k) = Some t \<and> t_heap_pos t = int k"
      using slot [OF k(3)] map slot_timer [OF wf k(1,2)] kb ki by auto
  next
    fix j t'
    assume "th_map h3 j = Some t'"
    then show "t_id t' = j" using wf t tb by (auto simp: map wf_heap_def split: if_splits)
  qed
  have "mset (butlast (?xs[c := ?b])) = mset ?xs - {#i#}"
  proof -
    have "?xs[c := ?b] \<noteq> []" using c by auto
    moreover have "last (?xs[c := ?b]) = ?b" by (simp add: last_list_update [OF ne])
    moreover have "?b \<in># mset ?xs" using c by (intro in_multiset_in_set [THEN iffD2] last_in_set) auto
    ultimately show ?thesis using c i by (simp add: mset_butlast_last mset_update)
  qed
  moreover have n3: "th_heap h3 \<noteq> []" using b len by auto
  moreover have "hd (th_heap h3) = hd ?xs"
    using slot [of 0] b len c by (simp add: hd_conv_nth [OF ne] hd_conv_nth [OF n3])
  ultimately show "in_heap h3 = in_heap h - {#i#}"
    using c i heap by (cases ?xs; cases "th_heap h3"; cases c) (auto simp: in_heap_def)
qed

lemma erase_ok:
  assumes wf: "wf_heap h" and c: "1 \<le> c" "c < length (th_heap h)" and i: "i = th_heap h ! c"
  defines "h' \<equiv> minHeapErase i h"
  shows "wf_heap h'" "timers h' = timers h" "in_heap h' = in_heap h - {#i#}" "th_next_id h' = th_next_id h"
    "ordered h \<Longrightarrow> (2 \<le> c \<Longrightarrow> c < length (th_heap h) - 1 \<Longrightarrow> keys h ! (c div 2) \<le> last (keys h)) \<Longrightarrow> ordered h'"
proof -
  note e = erase_slot_ok [OF wf c i]
  have "t_heap_pos (timer_of h i) = int c" using slot_timer [OF wf c] i by metis
  then have h': "h' = sift_down c (erase_slot i h)" by (simp add: h'_def minHeapErase_slot)
  have re: "rearranged (erase_slot i h) h'" unfolding h' by (rule sift_down_rearranged [OF e(1)])
  show "wf_heap h'" "timers h' = timers h" "th_next_id h' = th_next_id h"
    using re e by (simp_all add: rearranged_def)
  show "in_heap h' = in_heap h - {#i#}" using rearranged_tl [OF re e(1)] e(6) by simp
  assume ord: "ordered h" and up: "2 \<le> c \<Longrightarrow> c < length (th_heap h) - 1 \<Longrightarrow> keys h ! (c div 2) \<le> last (keys h)"
  show "ordered h'"
    unfolding h'
    by (rule sift_down_ordered [OF e(1) c(1)], unfold e(5), rule order_but_down_erase)
      (use ord up c in \<open>auto simp: ordered_def\<close>)
qed

definition heap_inv :: "'cb timer_heap \<Rightarrow> bool" where
  "heap_inv h \<longleftrightarrow> wf_heap h 
     \<and> (\<forall>i t. timers h i = Some t \<longrightarrow> i \<in># in_heap h \<and> normal (t_value t) \<and> 0 \<le> t_timeout t)"

lemma timers_None [simp]: "timers h i = None \<longleftrightarrow> th_map h i = None"
  by (simp add: timers_def)

lemma in_heap_slot:
  assumes "wf_heap h" and "i \<in># in_heap h"
  obtains c where "1 \<le> c" "c < length (th_heap h)" "i = th_heap h ! c"
proof -
  from assms(2) obtain k where "k < length (tl (th_heap h))" "tl (th_heap h) ! k = i"
    unfolding in_heap_def set_mset_mset in_set_conv_nth by blast
  then show ?thesis by (intro that [of "Suc k"]) (auto simp: nth_tl)
qed

lemma in_heap_live:
  assumes "wf_heap h" and "i \<in># in_heap h"
  shows "th_map h i \<noteq> None"
proof -
  obtain c where "1 \<le> c" "c < length (th_heap h)" "i = th_heap h ! c"
    using in_heap_slot [OF assms] .
  then show ?thesis using slot_timer [OF assms(1)] by auto
qed

lemma count_in_heap: "wf_heap h \<Longrightarrow> count (in_heap h) i \<le> 1"
  using slots_distinct_list [of h] unfolding in_heap_def
  by (simp add: distinct_count_atmost_1)

lemma erased_not_in: "wf_heap h \<Longrightarrow> i \<notin># in_heap h - {#i#}"
  using count_in_heap [of h i] by (auto simp: not_in_iff)

lemma minHeapTop_slot:
  "minHeapTop h = Some i \<longleftrightarrow> 1 < length (th_heap h) \<and> i = th_heap h ! 1"
  by (auto simp: minHeapTop_def)

lemma top_in_heap: "minHeapTop h = Some i \<Longrightarrow> i \<in># in_heap h"
  by (cases "th_heap h") (auto simp: minHeapTop_slot in_heap_def)

lemma minHeapTop_None: "wf_heap h \<Longrightarrow> minHeapTop h = None \<longleftrightarrow> in_heap h = {#}"
  by (cases "th_heap h") (auto simp: minHeapTop_def in_heap_def wf_heap_def)

lemma minHeapTop_least:
  assumes "wf_heap h" and "ordered h" and "minHeapTop h = Some i" and "j \<in># in_heap h"
  shows "t_value (timer_of h i) \<le> t_value (timer_of h j)"
proof -
  obtain c where c: "1 \<le> c" "c < length (th_heap h)" "j = th_heap h ! c"
    using in_heap_slot [OF assms(1,4)] .
  have "keys h ! 1 \<le> keys h ! c"
    using heap_order_min [of "keys h" c] assms(2) c by (simp add: ordered_def)
  then show ?thesis using assms(3) c by (simp add: keys_def minHeapTop_slot)
qed

subsection \<open>The public operations keep the invariant\<close>

lemma timers_map_upd [simp]:
  "timers (h\<lparr>th_map := m(i \<mapsto> t)\<rparr>) = (timers (h\<lparr>th_map := m\<rparr>))(i \<mapsto> t\<lparr>t_heap_pos := 0\<rparr>)"
  "timers (h\<lparr>th_map := m(i := None)\<rparr>) = (timers (h\<lparr>th_map := m\<rparr>))(i := None)"
  by (auto simp: timers_def)

lemma timers_same_map [simp]:
  "timers (h\<lparr>th_map := th_map h\<rparr>) = timers h" "timers (h\<lparr>th_next_id := n\<rparr>) = timers h"
  by (simp_all add: timers_def)

lemma in_heap_upd [simp]: "in_heap (h\<lparr>th_map := m\<rparr>) = in_heap h" "in_heap (h\<lparr>th_next_id := n\<rparr>) = in_heap h"
  by (simp_all add: in_heap_def)

text \<open>Filing an object that is not in the heap under its id changes neither the slots nor the order.\<close>

lemma file_timer_ok:
  assumes "wf_heap h" and "i \<notin># in_heap h" and "case ot of None \<Rightarrow> True | Some t \<Rightarrow> t_id t = i"
  shows "wf_heap (h\<lparr>th_map := (th_map h)(i := ot)\<rparr>)"
    and "ordered h \<Longrightarrow> ordered (h\<lparr>th_map := (th_map h)(i := ot)\<rparr>)"
proof -
  let ?h = "h\<lparr>th_map := (th_map h)(i := ot)\<rparr>"
  have other: "th_heap h ! k \<noteq> i" if "1 \<le> k" "k < length (th_heap h)" for k
    using assms(2) that unfolding in_heap_def set_mset_mset in_set_conv_nth
    by (metis Suc_pred' diff_less_mono length_tl less_eq_Suc_le nth_tl One_nat_def)
  then show "wf_heap ?h"
    using assms(1,3) by (auto simp: wf_heap_def split: option.splits)
  assume "ordered h"
  moreover have "heap_order (keys ?h) \<longleftrightarrow> heap_order (keys h)"
    unfolding heap_order_def
    using other by (intro all_cong1 imp_cong refl) (auto simp: keys_def timer_of_def)
  ultimately show "ordered ?h" by (simp add: ordered_def)
qed

lemma heap_inv_wf: "heap_inv h \<Longrightarrow> wf_heap h"
  by (simp add: heap_inv_def)

lemma live_iff_in_heap: "heap_inv h \<Longrightarrow> th_map h i = None \<longleftrightarrow> i \<notin># in_heap h"
  using in_heap_live [of h i] timers_None [of h i] unfolding heap_inv_def by (metis option.exhaust)

lemma heap_inv_cong:
  "wf_heap h' \<Longrightarrow> timers h' = timers h \<Longrightarrow> in_heap h' = in_heap h \<Longrightarrow> heap_inv h \<Longrightarrow> heap_inv h'"
  by (simp add: heap_inv_def)

lemma heap_inv_update:
  assumes h: "heap_inv h" and wf: "wf_heap h'" and tim: "timers h' = (timers h)(i := ot)"
    and heap: "\<And>j. j \<noteq> i \<Longrightarrow> j \<in># in_heap h \<Longrightarrow> j \<in># in_heap h'"
    and t: "\<And>t. ot = Some t \<Longrightarrow> i \<in># in_heap h' \<and> normal (t_value t) \<and> 0 \<le> t_timeout t"
  shows "heap_inv h'"
  unfolding heap_inv_def
proof (rule conjI [OF wf], intro allI impI)
  fix j u
  assume u: "timers h' j = Some u"
  show "j \<in># in_heap h' \<and> normal (t_value u) \<and> 0 \<le> t_timeout u"
  proof (cases "j = i")
    case True
    then show ?thesis using u t tim by simp
  next
    case False
    then show ?thesis using u tim heap h by (simp add: heap_inv_def)
  qed
qed

lemma TimerHeap_ok: "heap_inv (TimerHeap :: 'cb timer_heap) \<and> ordered (TimerHeap :: 'cb timer_heap)"
  by (auto simp: heap_inv_def wf_heap_def TimerHeap_def timers_def in_heap_def ordered_def heap_order_def keys_def)

lemma addTimer_fresh:
  assumes h: "heap_inv h" and now: "normal now" and new: "th_map h (nextId (th_next_id h)) = None"
  defines "i \<equiv> nextId (th_next_id h)"
  obtains h' where "addTimer now ms cb n h = (i, h')" "heap_inv h'" "ordered h \<Longrightarrow> ordered h'"
    "timers h' = (timers h)(i \<mapsto> (Timer i (plus_ms now (max 0 ms)) (max 0 ms) cb n)\<lparr>t_heap_pos := 0\<rparr>)"
    "in_heap h' = add_mset i (in_heap h)" "th_next_id h' = i"
proof -
  let ?t = "Timer i (plus_ms now (max 0 ms)) (max 0 ms) cb n"
  let ?h0 = "h\<lparr>th_next_id := i\<rparr>"
  let ?h1 = "?h0\<lparr>th_map := (th_map ?h0)(i := Some ?t)\<rparr>"
  have wf0: "wf_heap ?h0" and ord0: "ordered h \<Longrightarrow> ordered ?h0"
    using heap_inv_wf [OF h] by (auto simp: wf_heap_def ordered_def keys_def timer_of_def)
  have ni: "i \<notin># in_heap ?h0" using live_iff_in_heap [OF h, of i] new by (simp add: i_def)
  have id: "case Some ?t of None \<Rightarrow> True | Some t \<Rightarrow> t_id t = i" by (simp add: Timer_def)
  note f = file_timer_ok [OF wf0 ni id]
  have nh: "i \<notin> set (tl (th_heap ?h1))" using ni by (simp add: in_heap_def)
  have some: "th_map ?h1 i = Some ?t" by simp
  note ins = insert_ok [OF f(1) nh some]
  have tim: "timers ?h1 = (timers h)(i \<mapsto> ?t\<lparr>t_heap_pos := 0\<rparr>)"
    by (simp add: timers_def fun_eq_iff)
  have inv: "heap_inv (minHeapInsert i ?h1)"
    by (rule heap_inv_update [OF h ins(1) ins(2) [unfolded tim]])
      (use plus_ms_normal(1) [OF now, of "max 0 ms"] ins(3) in \<open>auto simp: Timer_def\<close>)
  show ?thesis
    by (rule that [of "minHeapInsert i ?h1"])
      (use inv ins f ord0 tim new in \<open>auto simp: addTimer_def i_def Let_def\<close>)
qed

lemma removeTimer_ok:
  fixes i :: timer_id
  assumes h: "heap_inv h"
  defines "h' \<equiv> removeTimer i h"
  shows "heap_inv h'" "timers h' = (timers h)(i := None)" "in_heap h' = in_heap h - {#i#}"
    "th_next_id h' = th_next_id h"
    "ordered h \<Longrightarrow> (\<And>c. 2 \<le> c \<Longrightarrow> c < length (th_heap h) - 1 \<Longrightarrow> th_heap h ! c = i \<Longrightarrow>
        keys h ! (c div 2) \<le> last (keys h)) \<Longrightarrow> ordered h'"
proof -
  have wf: "wf_heap h" using h by (rule heap_inv_wf)
  have "heap_inv h' \<and> timers h' = (timers h)(i := None) \<and> in_heap h' = in_heap h - {#i#}
      \<and> th_next_id h' = th_next_id h
      \<and> (ordered h \<longrightarrow> (\<forall>c. 2 \<le> c \<longrightarrow> c < length (th_heap h) - 1 \<longrightarrow> th_heap h ! c = i \<longrightarrow>
        keys h ! (c div 2) \<le> last (keys h)) \<longrightarrow> ordered h')"
  proof (cases "th_map h i")
    case None
    then have "h' = h" by (simp add: h'_def removeTimer_def)
    moreover have "(timers h)(i := None) = timers h" using None by (simp add: fun_upd_idem)
    moreover have "i \<notin># in_heap h" using None live_iff_in_heap [OF h, of i] by simp
    ultimately show ?thesis using h by (simp add: diff_single_trivial)
  next
    case (Some t)
    then obtain c where c: "1 \<le> c" "c < length (th_heap h)" "i = th_heap h ! c"
      using in_heap_slot [OF wf] live_iff_in_heap [OF h, of i] by (metis option.distinct(1))
    note e = erase_ok [OF wf c]
    have h': "h' = (minHeapErase i h)\<lparr>th_map := (th_map (minHeapErase i h))(i := None)\<rparr>"
      using Some by (simp add: h'_def removeTimer_def Let_def)
    have ni: "i \<notin># in_heap (minHeapErase i h)" using e(3) erased_not_in [OF wf] by simp
    note f = file_timer_ok [OF e(1) ni, where ot = None, folded h', simplified]
    have tim: "timers h' = (timers h)(i := None)" unfolding h' by (simp add: e(2))
    have heap: "in_heap h' = in_heap h - {#i#}" unfolding h' by (simp add: e(3))
    have "heap_inv h'"
      by (rule heap_inv_update [OF h f(1) tim]) (auto simp: heap in_diff_count)
    moreover have "ordered h'" if "ordered h" and "\<forall>c. 2 \<le> c \<longrightarrow> c < length (th_heap h) - 1 \<longrightarrow> th_heap h ! c = i \<longrightarrow>
        keys h ! (c div 2) \<le> last (keys h)"
      using that c by (intro f(2) e(5)) auto
    moreover have "th_next_id h' = th_next_id h" unfolding h' by (simp add: e(4))
    ultimately show ?thesis using tim heap by blast
  qed
  then show "heap_inv h'" "timers h' = (timers h)(i := None)" "in_heap h' = in_heap h - {#i#}"
    "th_next_id h' = th_next_id h"
    "ordered h \<Longrightarrow> (\<And>c. 2 \<le> c \<Longrightarrow> c < length (th_heap h) - 1 \<Longrightarrow> th_heap h ! c = i \<Longrightarrow>
        keys h ! (c div 2) \<le> last (keys h)) \<Longrightarrow> ordered h'" by blast+
qed

text \<open>What becomes of a timer that fires: gone after its last call, else due one period later.\<close>

definition after_fire :: "'cb timer \<Rightarrow> 'cb timer option" where
  "after_fire t =
     (if t_call_times t = 1 then None
      else Some (t\<lparr>t_call_times := (if 0 < t_call_times t then t_call_times t - 1 else t_call_times t),
                   t_value := plus_ms (t_value t) (t_timeout t)\<rparr>))"

lemma top_slot:
  assumes "minHeapTop h = Some i" obtains "1 < length (th_heap h)" "i = th_heap h ! 1"
  using assms by (auto simp: minHeapTop_slot)

lemma timer_of_timers: "timers h i = Some t \<Longrightarrow> timer_of h i = t\<lparr>t_heap_pos := t_heap_pos (timer_of h i)\<rparr>"
  by (cases "th_map h i") (auto simp: timers_def timer_of_def)

lemma fire_ok:
  assumes h: "heap_inv h" and ord: "ordered h" and top: "minHeapTop h = Some i" and t: "timers h i = Some t"
  defines "h' \<equiv> fire_timer i h"
  shows "heap_inv h'" "ordered h'" "timers h' = (timers h)(i := after_fire t)"
    "in_heap h' = (if t_call_times t = 1 then in_heap h - {#i#} else in_heap h)"
proof -
  have c: "1 \<le> (1::nat)" "1 < length (th_heap h)" "i = th_heap h ! 1" using top_slot [OF top] by auto
  note wf = heap_inv_wf [OF h]
  let ?h1 = "minHeapErase i h"
  let ?u = "timer_of ?h1 i"
  note e = erase_ok [OF wf c]
  have ord1: "ordered ?h1" using e(5) ord by simp
  have ni: "i \<notin># in_heap ?h1" using e(3) erased_not_in [OF wf] by simp
  have i: "i \<in># in_heap h" using h t by (simp add: heap_inv_def)
  have t1: "timers ?h1 i = Some t" using t e(2) by simp
  obtain p where u: "?u = t\<lparr>t_heap_pos := p\<rparr>" using timer_of_timers [OF t1] by blast
  have tid: "t_id t = i" "t_heap_pos t = 0" "normal (t_value t)" "0 \<le> t_timeout t"
    using t h by (auto simp: timers_def heap_inv_def wf_heap_def)
  have nt: "normal (plus_ms (t_value t) (t_timeout t))" using tid by (intro plus_ms_normal(1))
  have "heap_inv h' \<and> ordered h' \<and> timers h' = (timers h)(i := after_fire t)
      \<and> in_heap h' = (if t_call_times t = 1 then in_heap h - {#i#} else in_heap h)"
  proof (cases "t_call_times t = 1")
    case True
    then have h': "h' = ?h1\<lparr>th_map := (th_map ?h1)(i := None)\<rparr>"
      using u by (simp add: h'_def fire_timer_def Let_def)
    note f = file_timer_ok [OF e(1) ni, where ot = None, folded h', simplified]
    have tim: "timers h' = (timers h)(i := after_fire t)" unfolding h' using True by (simp add: e(2) after_fire_def)
    have heap: "in_heap h' = in_heap h - {#i#}" unfolding h' by (simp add: e(3))
    have "heap_inv h'"
      by (rule heap_inv_update [OF h f(1) tim]) (use True in \<open>auto simp: heap in_diff_count after_fire_def\<close>)
    then show ?thesis using f(2) ord1 tim heap True by simp
  next
    case False
    let ?t2 = "the (after_fire t)"
    let ?h2 = "?h1\<lparr>th_map := (th_map ?h1)(i := Some (?t2\<lparr>t_heap_pos := p\<rparr>))\<rparr>"
    have h': "h' = minHeapInsert i ?h2"
      using u False by (cases t) (simp add: h'_def fire_timer_def Let_def after_fire_def)
    have id: "case Some (?t2\<lparr>t_heap_pos := p\<rparr>) of None \<Rightarrow> True | Some t \<Rightarrow> t_id t = i"
      using tid False by (simp add: after_fire_def)
    note f = file_timer_ok [OF e(1) ni id]
    have nh: "i \<notin> set (tl (th_heap ?h2))" using ni by (simp add: in_heap_def)
    have some: "th_map ?h2 i = Some (?t2\<lparr>t_heap_pos := p\<rparr>)" by simp
    note ins = insert_ok [OF f(1) nh some, folded h']
    have "after_fire t = Some ?t2" "?t2\<lparr>t_heap_pos := p, t_heap_pos := 0\<rparr> = ?t2"
      using False tid by (simp_all add: after_fire_def)
    then have tim: "timers h' = (timers h)(i := after_fire t)" by (simp add: ins(2) e(2))
    have heap: "in_heap h' = in_heap h" using i by (simp add: ins(3) e(3))
    have "heap_inv h'"
      by (rule heap_inv_update [OF h ins(1) tim]) (use False i heap nt tid in \<open>auto simp: after_fire_def\<close>)
    then show ?thesis using ins(5) f(2) ord1 tim heap False by simp
  qed
  then show "heap_inv h'" "ordered h'" "timers h' = (timers h)(i := after_fire t)"
    "in_heap h' = (if t_call_times t = 1 then in_heap h - {#i#} else in_heap h)" by blast+
qed

subsection \<open>The queue the event loops rely on\<close>

text \<open>
  \<open>drain_due\<close> is the loop of \<open>checkTimeout\<close> over any queue: pop the top while it is due. The locale
  \<open>priority_queue\<close> states what the loop needs of the queue and proves once that the elements come out
  in the order of their keys and that exactly the due ones do. It is interpreted on the array heap
  (popping with \<open>minHeapErase\<close>) and on the timer queue whose timers fire once.
\<close>

primrec drain_due ::
  "('h \<Rightarrow> 'e option) \<Rightarrow> ('e \<Rightarrow> 'h \<Rightarrow> 'h) \<Rightarrow> ('h \<Rightarrow> 'e \<Rightarrow> bool) \<Rightarrow> nat \<Rightarrow> 'h \<Rightarrow> 'e list \<times> 'h" where
  "drain_due peek pop due 0 h = ([], h)"
| "drain_due peek pop due (Suc n) h =
     (case peek h of None \<Rightarrow> ([], h)
      | Some e \<Rightarrow> if due h e then let (es, h') = drain_due peek pop due n (pop e h) in (e # es, h')
                  else ([], h))"

locale priority_queue =
  fixes inv :: "'h \<Rightarrow> bool" and elems :: "'h \<Rightarrow> 'e multiset" and key :: "'h \<Rightarrow> 'e \<Rightarrow> 'k::linorder"
    and peek :: "'h \<Rightarrow> 'e option" and pop :: "'e \<Rightarrow> 'h \<Rightarrow> 'h"
  assumes top_None: "inv h \<Longrightarrow> peek h = None \<longleftrightarrow> elems h = {#}"
    and top_least: "inv h \<Longrightarrow> peek h = Some e \<Longrightarrow> e' \<in># elems h \<Longrightarrow> e \<in># elems h \<and> key h e \<le> key h e'"
    and pop_inv: "inv h \<Longrightarrow> peek h = Some e \<Longrightarrow> inv (pop e h)"
    and pop_elems: "inv h \<Longrightarrow> peek h = Some e \<Longrightarrow> elems (pop e h) = elems h - {#e#}"
    and pop_key: "inv h \<Longrightarrow> peek h = Some e \<Longrightarrow> e' \<in># elems (pop e h) \<Longrightarrow> key (pop e h) e' = key h e'"
begin

lemma top_in: "inv h \<Longrightarrow> peek h = Some e \<Longrightarrow> e \<in># elems h"
  using top_None [of h] top_least [of h e] by (metis multiset_nonemptyE option.distinct(1))

lemma drain_ok:
  assumes "inv h" and "size (elems h) \<le> n" and "antimono due"
    and "drain_due peek pop (\<lambda>h e. due (key h e)) n h = (es, h')"
  shows "inv h' \<and> mset es + elems h' = elems h \<and> sorted (map (key h) es)
    \<and> (\<forall>e\<in>set es. due (key h e)) \<and> (\<forall>e\<in>#elems h'. \<not> due (key h' e) \<and> key h' e = key h e)"
  using assms(1,2,4)
proof (induction n arbitrary: h es)
  case 0
  then show ?case by simp
next
  case (Suc n)
  show ?case
  proof (cases "peek h")
    case None
    then have "elems h = {#}" using top_None Suc.prems(1) by simp
    then show ?thesis using None Suc.prems by simp
  next
    case (Some e)
    note e = top_in [OF Suc.prems(1) Some]
    show ?thesis
    proof (cases "due (key h e)")
      case False
      then have "\<not> due (key h e')" if "e' \<in># elems h" for e'
        using top_least [OF Suc.prems(1) Some that] antimonoD [OF assms(3)] by (metis le_boolD)
      then show ?thesis using False Some Suc.prems by auto
    next
      case True
      then obtain es1 where es1: "es = e # es1"
          "drain_due peek pop (\<lambda>h e. due (key h e)) n (pop e h) = (es1, h')"
        using Some Suc.prems(3) by (auto split: prod.splits)
      note p = pop_inv [OF Suc.prems(1) Some] pop_elems [OF Suc.prems(1) Some]
        pop_key [OF Suc.prems(1) Some]
      have "size (elems (pop e h)) \<le> n" using Suc.prems(2) e p(2) by (simp add: size_Diff_singleton)
      note IH = Suc.IH [OF p(1) this es1(2)]
      have sub: "e' \<in># elems (pop e h)" if "e' \<in> set es1 \<or> e' \<in># elems h'" for e'
        using IH that by (metis in_multiset_in_set union_iff)
      have ks: "map (key (pop e h)) es1 = map (key h) es1" using sub p(3) by simp
      have "mset es + elems h' = elems h" using IH es1(1) p(2) e by simp
      moreover have "sorted (map (key h) es)"
        using IH ks sub top_least [OF Suc.prems(1) Some] p(2) es1(1) by (auto dest: in_diffD)
      moreover have "\<forall>e\<in>set es. due (key h e)" using IH sub p(3) es1(1) True by simp
      moreover have "\<forall>e\<in>#elems h'. \<not> due (key h' e) \<and> key h' e = key h e" using IH sub p(3) by auto
      ultimately show ?thesis using IH by blast
    qed
  qed
qed

end

lemma erase_top_ok:
  assumes "wf_heap h" and "ordered h" and "minHeapTop h = Some i"
  shows "wf_heap (minHeapErase i h)" "ordered (minHeapErase i h)" "timers (minHeapErase i h) = timers h"
    "in_heap (minHeapErase i h) = in_heap h - {#i#}"
proof -
  have c: "1 \<le> (1::nat)" "1 < length (th_heap h)" "i = th_heap h ! 1" using top_slot [OF assms(3)] by auto
  note e = erase_ok [OF assms(1) c]
  show "wf_heap (minHeapErase i h)" "timers (minHeapErase i h) = timers h"
    "in_heap (minHeapErase i h) = in_heap h - {#i#}" by (fact e)+
  show "ordered (minHeapErase i h)" using e(5) assms(2) by simp
qed

interpretation array_heap: priority_queue
  "\<lambda>h. wf_heap h \<and> ordered h" in_heap "\<lambda>h i. t_value (timer_of h i)" minHeapTop minHeapErase
  by unfold_locales
    (simp_all add: minHeapTop_None top_in_heap erase_top_ok minHeapTop_least [unfolded t_value_timers] t_value_timers)

definition one_shot :: "'cb timer_heap \<Rightarrow> bool" where
  "one_shot h \<longleftrightarrow> (\<forall>i t. timers h i = Some t \<longrightarrow> t_call_times t = 1)"

lemma top_timer:
  assumes "heap_inv h" and "minHeapTop h = Some i"
  obtains t where "timers h i = Some t" "t_value (timer_of h i) = t_value t" "t_cb (timer_of h i) = t_cb t"
proof -
  have "th_map h i \<noteq> None" using assms live_iff_in_heap top_in_heap by blast
  then obtain u where "th_map h i = Some u" by blast
  then show ?thesis by (intro that [of "u\<lparr>t_heap_pos := 0\<rparr>"]) (simp_all add: timers_def timer_of_def)
qed

lemma fire_one_shot:
  assumes "heap_inv h" and "ordered h" and "one_shot h" and "minHeapTop h = Some i"
  shows "heap_inv (fire_timer i h)" "ordered (fire_timer i h)" "one_shot (fire_timer i h)"
    "timers (fire_timer i h) = (timers h)(i := None)" "in_heap (fire_timer i h) = in_heap h - {#i#}"
proof -
  obtain t where t: "timers h i = Some t" using top_timer [OF assms(1,4)] by blast
  then have one: "t_call_times t = 1" using assms(3) by (simp add: one_shot_def)
  note f = fire_ok [OF assms(1,2,4) t]
  show "heap_inv (fire_timer i h)" "ordered (fire_timer i h)" by (fact f)+
  show tim: "timers (fire_timer i h) = (timers h)(i := None)" using f(3) one by (simp add: after_fire_def)
  then show "one_shot (fire_timer i h)" using assms(3) by (auto simp: one_shot_def split: if_splits)
  show "in_heap (fire_timer i h) = in_heap h - {#i#}" using f(4) one by simp
qed

lemma fire_one_shot_value:
  assumes "heap_inv h" and "ordered h" and "one_shot h" and "minHeapTop h = Some i" and "j \<in># in_heap h - {#i#}"
  shows "t_value (timer_of (fire_timer i h) j) = t_value (timer_of h j)"
proof -
  have "j \<noteq> i" using assms(5) erased_not_in [OF heap_inv_wf [OF assms(1)]] by metis
  then show ?thesis by (simp add: t_value_timers fire_one_shot(4) [OF assms(1-4)])
qed

interpretation one_shot: priority_queue
  "\<lambda>h. heap_inv h \<and> ordered h \<and> one_shot h" in_heap "\<lambda>h i. t_value (timer_of h i)" minHeapTop fire_timer
  by unfold_locales
    (simp_all add: array_heap.top_None array_heap.top_least heap_inv_wf fire_one_shot fire_one_shot_value)

lemma due_antimono: "antimono (\<lambda>v. \<not> millisecondLess now v)"
proof (rule antimonoI, rule le_boolI)
  fix u v :: timestamp
  assume "u \<le> v" and "\<not> millisecondLess now v"
  moreover have "millisecondLess now u \<Longrightarrow> u < v \<Longrightarrow> millisecondLess now v"
    unfolding millisecondLess_def less_timestamp_def timestamp_before_def getMillisecond_def
    using cdiv_mono [of "nanosecond u" "nanosecond v" 1000000] by (auto split: if_splits)
  ultimately show "\<not> millisecondLess now u" by (auto simp: less_eq_timestamp_def)
qed

text \<open>A callback that only records that it ran, and with which id.\<close>

definition log_call :: "'cb \<Rightarrow> timer_id \<Rightarrow> 'cb timer_heap \<times> timer_id list \<Rightarrow> 'cb timer_heap \<times> timer_id list" where
  "log_call cb i s = (fst s, snd s @ [i])"

lemma checkTimeout_drain:
  assumes "heap_inv h" and "ordered h" and "one_shot h" and "size (in_heap h) \<le> n"
    and "drain_due minHeapTop fire_timer (\<lambda>h i. \<not> millisecondLess now (t_value (timer_of h i))) n h = (es, h')"
  shows "checkTimeout log_call now (h, w) = Some (h', w @ es)"
  using assms
proof (induction n arbitrary: h es w)
  case 0
  then have "minHeapTop h = None" by (simp add: minHeapTop_None heap_inv_wf)
  then show ?case using "0.prems"(5) by (simp add: checkTimeout.simps)
next
  case (Suc n)
  show ?case
  proof (cases "minHeapTop h")
    case None
    then show ?thesis using Suc.prems(5) by (simp add: checkTimeout.simps)
  next
    case (Some i)
    note f = fire_one_shot [OF Suc.prems(1-3) Some]
    have size: "size (in_heap (fire_timer i h)) \<le> n"
      using Suc.prems(4) top_in_heap [OF Some] by (simp add: f(5) size_Diff_singleton)
    show ?thesis
    proof (cases "millisecondLess now (t_value (timer_of h i))")
      case True
      then show ?thesis using Some Suc.prems(5) by (simp add: checkTimeout.simps)
    next
      case False
      then obtain es1 where es1: "es = i # es1" "drain_due minHeapTop fire_timer
          (\<lambda>h i. \<not> millisecondLess now (t_value (timer_of h i))) n (fire_timer i h) = (es1, h')"
        using Some Suc.prems(5) by (auto split: prod.splits)
      have "checkTimeout log_call now (fire_timer i h, w @ [i]) = Some (h', (w @ [i]) @ es1)"
        by (rule Suc.IH [OF f(1-3) size es1(2)])
      then show ?thesis using Some False es1(1) by (subst checkTimeout.simps) (simp add: log_call_def)
    qed
  qed
qed

subsection \<open>When the loop of \<open>checkTimeout\<close> ends\<close>

text \<open>
  How often a timer can still fire at one time: its remaining calls when they are bounded, else one
  round for every millisecond its deadline lies behind.
\<close>

definition rounds :: "timestamp \<Rightarrow> 'cb timer \<Rightarrow> nat" where
  "rounds now t = (if 0 < t_call_times t then nat (t_call_times t)
                   else nat (in_ms now - in_ms (t_value t) + 1))"

definition work :: "timestamp \<Rightarrow> 'cb timer_heap \<Rightarrow> nat" where
  "work now h = sum_mset (image_mset (\<lambda>i. rounds now (the (timers h i))) (in_heap h))"

definition finite_rounds :: "'cb timer_heap \<Rightarrow> bool" where
  "finite_rounds h \<longleftrightarrow> (\<forall>i t. timers h i = Some t \<longrightarrow> 0 < t_call_times t \<or> 0 < t_timeout t)"

lemma in_ms_plus: "normal t \<Longrightarrow> 0 \<le> ms \<Longrightarrow> in_ms (plus_ms t ms) = in_ms t + ms"
  by (simp add: in_ms_of_ns plus_ms_normal)

lemma rounds_after_fire:
  assumes "after_fire t = Some u" and "normal (t_value t)" and "0 \<le> t_timeout t"
    and "0 < t_call_times t \<or> 0 < t_timeout t" and "in_ms (t_value t) \<le> in_ms now"
  shows "rounds now u < rounds now t"
  using assms by (auto simp: after_fire_def rounds_def in_ms_plus split: if_splits)

lemma work_fire:
  assumes h: "heap_inv h" "ordered h" and peek: "minHeapTop h = Some i" and fin: "finite_rounds h"
    and now: "normal now" and due: "\<not> millisecondLess now (t_value (timer_of h i))"
  shows "work now (fire_timer i h) < work now h" and "finite_rounds (fire_timer i h)"
proof -
  obtain t where t: "timers h i = Some t" "t_value (timer_of h i) = t_value t"
    using top_timer [OF h(1) peek] by metis
  note f = fire_ok [OF h peek t(1)]
  have t': "normal (t_value t)" "0 \<le> t_timeout t" "0 < t_call_times t \<or> 0 < t_timeout t"
    using t(1) h(1) fin by (auto simp: heap_inv_def finite_rounds_def)
  have due': "in_ms (t_value t) \<le> in_ms now" using due t millisecondLess_in_ms [OF now t'(1)] by simp
  show "finite_rounds (fire_timer i h)"
    using fin t(1) unfolding finite_rounds_def f(3) by (auto simp: after_fire_def split: if_splits)
  define rest where "rest = in_heap h - {#i#}"
  have heap: "in_heap h = add_mset i rest" using top_in_heap [OF peek] by (simp add: rest_def)
  have ni: "i \<notin># rest" using erased_not_in [OF heap_inv_wf [OF h(1)]] by (simp add: rest_def)
  then have same: "image_mset (\<lambda>j. rounds now (the (if j = i then ot else timers h j))) rest
      = image_mset (\<lambda>j. rounds now (the (timers h j))) rest" for ot
    by (intro image_mset_cong) auto
  have pos: "0 < rounds now t" using t' due' by (auto simp: rounds_def)
  show "work now (fire_timer i h) < work now h"
  proof (cases "after_fire t")
    case None
    then have "t_call_times t = 1" by (simp add: after_fire_def split: if_splits)
    then show ?thesis using pos t(1) unfolding work_def f(3) f(4) by (simp add: same heap)
  next
    case (Some u)
    then have "t_call_times t \<noteq> 1" by (auto simp: after_fire_def)
    then show ?thesis
      using rounds_after_fire [OF Some t' due'] t(1) Some unfolding work_def f(3) f(4) by (simp add: same heap)
  qed
qed

text \<open>
  C11: \<open>checkTimeout\<close> returns, and when it does nothing that is due is left. If every timer has a
  bounded number of calls left or a positive period, and the callbacks leave the timer heap
  alone, the loop ends; the heap is again a heap with every timer in its slot, each live timer's
  deadline lies in a later millisecond than now, and no timer appeared.
\<close>
theorem checkTimeout_terminates:
  assumes "heap_inv h" and "ordered h" and "finite_rounds h" and "normal now"
    and quiet: "\<And>cb i s. fst (run cb i s) = fst s"
  shows "\<exists>h' w'. checkTimeout run now (h, w) = Some (h', w') \<and> heap_inv h' \<and> ordered h' \<and> finite_rounds h'
    \<and> (\<forall>i t. timers h' i = Some t \<longrightarrow> in_ms now < in_ms (t_value t))
    \<and> dom (timers h') \<subseteq> dom (timers h)"
  using assms(1-3)
proof (induction "work now h" arbitrary: h w rule: less_induct)
  case less
  show ?case
  proof (cases "minHeapTop h")
    case None
    then have "in_heap h = {#}" using minHeapTop_None less.prems(1) heap_inv_wf by blast
    then have "timers h i \<noteq> Some t" for i t using less.prems(1) unfolding heap_inv_def by (metis empty_iff set_mset_empty)
    then show ?thesis using None less.prems by (simp add: checkTimeout.simps)
  next
    case (Some i)
    obtain t where t: "timers h i = Some t" "t_value (timer_of h i) = t_value t"
      using top_timer [OF less.prems(1) Some] by metis
    then have nt: "normal (t_value t)" using less.prems(1) by (simp add: heap_inv_def)
    show ?thesis
    proof (cases "millisecondLess now (t_value (timer_of h i))")
      case True
      have "in_ms now < in_ms (t_value u)" if u: "timers h j = Some u" for j u
      proof -
        have j: "j \<in># in_heap h" "normal (t_value u)" using u less.prems(1) by (auto simp: heap_inv_def)
        have "t_value t \<le> t_value u"
          using minHeapTop_least [OF heap_inv_wf [OF less.prems(1)] less.prems(2) Some j(1)] u t
          by (simp add: t_value_timers)
        then have "in_ms (t_value t) \<le> in_ms (t_value u)" by (rule in_ms_mono [OF nt j(2)])
        then show ?thesis using True t(2) millisecondLess_in_ms [OF assms(4) nt] by simp
      qed
      then show ?thesis using Some True less.prems by (auto simp: checkTimeout.simps)
    next
      case False
      obtain w1 where run: "run (t_cb (timer_of h i)) i (fire_timer i h, w) = (fire_timer i h, w1)"
        using quiet by (metis fst_conv prod.collapse)
      note f = fire_ok [OF less.prems(1,2) Some t(1)] work_fire [OF less.prems(1,2) Some less.prems(3) assms(4) False]
      have "dom (timers (fire_timer i h)) \<subseteq> dom (timers h)" using t(1) unfolding f(3) by auto
      moreover have "checkTimeout run now (h, w) = checkTimeout run now (fire_timer i h, w1)"
        by (subst checkTimeout.simps) (simp add: Some False run)
      moreover obtain h' w' where "checkTimeout run now (fire_timer i h, w1) = Some (h', w')" "heap_inv h'"
          "ordered h'" "finite_rounds h'" "\<forall>i t. timers h' i = Some t \<longrightarrow> in_ms now < in_ms (t_value t)"
          "dom (timers h') \<subseteq> dom (timers (fire_timer i h))"
        using less.hyps [OF f(5) f(1,2,6), of w1] by blast
      ultimately show ?thesis by (intro exI [of _ h'] exI [of _ w']) simp
    qed
  qed
qed

theorem checkTimeout_terminates_witness:
  "\<exists>h' w'. checkTimeout log_call (Timestamp 5 0) (snd (addTimer (Timestamp 3 0) 700 () (-1) TimerHeap), []) = Some (h', w')
    \<and> heap_inv h' \<and> ordered h' \<and> finite_rounds h'
    \<and> dom (timers h') \<subseteq> dom (timers (snd (addTimer (Timestamp 3 0) 700 () (-1) TimerHeap)))"
proof -
  have "normal (Timestamp 3 0)" "th_map TimerHeap (nextId (th_next_id TimerHeap)) = None"
    by (simp_all add: normal_def TimerHeap_def)
  note start = addTimer_fresh [OF TimerHeap_ok [THEN conjunct1] this, of 700 "()" "-1"]
  show ?thesis
  proof (rule start, goal_cases)
    case (1 h')
    have "ordered h'" using 1(3) TimerHeap_ok by blast
    moreover have "finite_rounds h'"
      unfolding finite_rounds_def 1(4) by (auto simp: Timer_def timers_def TimerHeap_def split: if_splits)
    ultimately show ?case
      unfolding 1(1) snd_conv
      using checkTimeout_terminates [of h' "Timestamp 5 0" log_call "[]"] 1(2) by (auto simp: normal_def log_call_def)
  qed
qed

subsection \<open>Properties of the public operations\<close>

text \<open>
  \<open>addTimer\<close> files the timer. With a fresh id the new timer, due \<open>timeout_ms\<close> (at least 0) after
  now, joins the map and the heap under the next id of the allocator; the other timers stay, every
  slot still holds a live timer that knows its slot, and the heap order is kept.
\<close>
theorem addTimer_files_timer:
  assumes "heap_inv h" and "ordered h" and "normal now" and "th_map h (nextId (th_next_id h)) = None"
  shows "\<exists>h'. addTimer now ms cb n h = (nextId (th_next_id h), h') \<and> heap_inv h' \<and> ordered h'
    \<and> timers h' = (timers h)(nextId (th_next_id h) \<mapsto>
         (Timer (nextId (th_next_id h)) (plus_ms now (max 0 ms)) (max 0 ms) cb n)\<lparr>t_heap_pos := 0\<rparr>)
    \<and> in_heap h' = add_mset (nextId (th_next_id h)) (in_heap h)"
  using addTimer_fresh [OF assms(1,3,4), of ms cb n] assms(2) by blast

theorem addTimer_files_timer_witness:
  "\<exists>h'. addTimer (Timestamp 9 5) (-4) ''cb'' 2 TimerHeap = (nextId (th_next_id (TimerHeap :: string timer_heap)), h')
    \<and> heap_inv h' \<and> ordered h'
    \<and> timers h' = (timers TimerHeap)(nextId (th_next_id (TimerHeap :: string timer_heap)) \<mapsto>
         (Timer (nextId (th_next_id (TimerHeap :: string timer_heap))) (plus_ms (Timestamp 9 5) (max 0 (-4)))
            (max 0 (-4)) ''cb'' 2)\<lparr>t_heap_pos := 0\<rparr>)
    \<and> in_heap h' = add_mset (nextId (th_next_id (TimerHeap :: string timer_heap))) (in_heap (TimerHeap :: string timer_heap))"
  by (rule addTimer_files_timer) (simp_all add: TimerHeap_ok normal_def, simp add: TimerHeap_def)

text \<open>
  C10: what fires, and in which order. With timers that fire once, \<open>checkTimeout\<close> calls the callbacks of
  exactly the timers whose deadline's millisecond has come, each once, in the order of their deadlines,
  and exactly those timers are gone afterwards.
\<close>
theorem checkTimeout_fires_in_order:
  assumes "heap_inv h" and "ordered h" and "one_shot h"
  shows "\<exists>es h'. checkTimeout log_call now (h, w) = Some (h', w @ es) \<and> heap_inv h' \<and> ordered h'
    \<and> distinct es \<and> sorted (map (\<lambda>i. t_value (timer_of h i)) es)
    \<and> set es = {i. \<exists>t. timers h i = Some t \<and> \<not> millisecondLess now (t_value t)}
    \<and> dom (timers h') = dom (timers h) - set es"
proof -
  let ?due = "\<lambda>v. \<not> millisecondLess now v"
  obtain es h' where d: "drain_due minHeapTop fire_timer (\<lambda>h i. ?due (t_value (timer_of h i)))
      (size (in_heap h)) h = (es, h')" by (metis prod.exhaust)
  have inv: "heap_inv h \<and> ordered h \<and> one_shot h" using assms by blast
  note r = one_shot.drain_ok [OF inv order_refl due_antimono d]
  have live: "i \<in> dom (timers g) \<longleftrightarrow> i \<in># in_heap g" if "heap_inv g" for i and g :: "'a timer_heap"
    using live_iff_in_heap [OF that, of i] by (simp add: domIff)
  have dist: "distinct es \<and> set es \<inter> set_mset (in_heap h') = {}"
  proof -
    have "mset es + in_heap h' = mset (tl (th_heap h))" using r by (simp add: in_heap_def)
    then have "mset (es @ tl (th_heap h')) = mset (tl (th_heap h))" by (simp add: in_heap_def)
    then have "distinct (es @ tl (th_heap h'))"
      using slots_distinct_list [OF heap_inv_wf [OF assms(1)]] mset_eq_imp_distinct_iff by blast
    then show ?thesis by (simp add: in_heap_def)
  qed
  have heap: "set_mset (in_heap h) = set es \<union> set_mset (in_heap h')"
    using r by (metis set_mset_mset set_mset_union)
  have "i \<in> set es \<longleftrightarrow> (\<exists>t. timers h i = Some t \<and> ?due (t_value t))" for i
  proof -
    have "i \<in> set es \<longleftrightarrow> i \<in># in_heap h \<and> ?due (t_value (timer_of h i))" using r heap by auto
    also have "\<dots> \<longleftrightarrow> i \<in> dom (timers h) \<and> ?due (t_value (the (timers h i)))"
      using live [OF assms(1)] by (simp add: t_value_timers)
    also have "\<dots> \<longleftrightarrow> (\<exists>t. timers h i = Some t \<and> ?due (t_value t))"
      by (cases "timers h i") (simp_all add: domIff del: timers_None)
    finally show ?thesis .
  qed
  moreover have "dom (timers h') = dom (timers h) - set es"
    using r live heap dist assms(1) by blast
  ultimately show ?thesis
    using checkTimeout_drain [OF assms order_refl d] r dist by blast
qed

theorem checkTimeout_fires_in_order_witness:
  "\<exists>es h'. checkTimeout log_call (Timestamp 4 0) (snd (addTimer (Timestamp 3 0) 700 () 1 TimerHeap), []) = Some (h', [] @ es)
    \<and> heap_inv h' \<and> ordered h' \<and> distinct es
    \<and> sorted (map (\<lambda>i. t_value (timer_of (snd (addTimer (Timestamp 3 0) 700 () 1 TimerHeap)) i)) es)
    \<and> set es = {i. \<exists>t. timers (snd (addTimer (Timestamp 3 0) 700 () 1 TimerHeap)) i = Some t
                     \<and> \<not> millisecondLess (Timestamp 4 0) (t_value t)}
    \<and> dom (timers h') = dom (timers (snd (addTimer (Timestamp 3 0) 700 () 1 TimerHeap))) - set es"
proof -
  have "normal (Timestamp 3 0)" "th_map TimerHeap (nextId (th_next_id TimerHeap)) = None"
    by (simp_all add: normal_def TimerHeap_def)
  note start = addTimer_fresh [OF TimerHeap_ok [THEN conjunct1] this, of 700 "()" "1"]
  show ?thesis
  proof (rule start, goal_cases)
    case (1 h')
    have "ordered h'" using 1(3) TimerHeap_ok by blast
    moreover have "one_shot h'"
      unfolding one_shot_def 1(4) by (auto simp: Timer_def timers_def TimerHeap_def split: if_splits)
    ultimately show ?case unfolding 1(1) snd_conv by (intro checkTimeout_fires_in_order 1(2))
  qed
qed

definition add_all :: "int list \<Rightarrow> unit timer_heap" where
  "add_all tms = fold (\<lambda>ms h. snd (addTimer (Timestamp 0 0) ms () 1 h)) tms TimerHeap"

lemma th_map_timers: "timers h i = None \<Longrightarrow> th_map h i = None"
  by simp

text \<open>
  C14: \<open>removeTimer\<close> removes. The timer of the id leaves the map and the heap, the others stay with
  their deadlines and know their slots; an unknown id changes nothing. The heap order survives when the
  timer that is moved into the hole is not due before the hole's parent.
\<close>
theorem removeTimer_removes:
  assumes "heap_inv h" and "ordered h"
  shows "heap_inv (removeTimer i h) \<and> timers (removeTimer i h) = (timers h)(i := None)
    \<and> in_heap (removeTimer i h) = in_heap h - {#i#} \<and> (timers h i = None \<longrightarrow> removeTimer i h = h)
    \<and> ((\<forall>c. 2 \<le> c \<longrightarrow> c < length (th_heap h) - 1 \<longrightarrow> th_heap h ! c = i \<longrightarrow> keys h ! (c div 2) \<le> last (keys h))
        \<longrightarrow> ordered (removeTimer i h))"
  using removeTimer_ok [OF assms(1), of i] assms(2) by (simp add: removeTimer_def)

text \<open>A heap of a few timers, as adding them one by one makes it.\<close>

lemma add_next:
  fixes ms :: int
  assumes "heap_inv h" and "ordered h" and "\<And>i. th_map h i \<noteq> None \<Longrightarrow> uint i \<le> uint (th_next_id h)"
    and small: "uint (th_next_id h) < 1000"
  defines "h' \<equiv> snd (addTimer (Timestamp 0 0) ms () 1 h)"
  shows "heap_inv h'" "ordered h'" "\<And>i. th_map h' i \<noteq> None \<Longrightarrow> uint i \<le> uint (th_next_id h')"
    "uint (th_next_id h') = uint (th_next_id h) + 1"
proof -
  let ?i = "nextId (th_next_id h)"
  have plus: "uint (th_next_id h + 1) = uint (th_next_id h) + 1"
    using small by (simp add: uint_word_ariths mod_pos_pos_trivial)
  then have "sint (th_next_id h + 1) = uint (th_next_id h) + 1" using small by (simp add: sint_uint signed_take_bit_int_eq_self)
  then have "\<not> sint (th_next_id h + 1) < 0" using uint_ge_0 [of "th_next_id h"] by linarith
  then have i: "uint ?i = uint (th_next_id h) + 1" using plus by (simp only: nextId_def Let_def if_False)
  then have "\<not> uint ?i \<le> uint (th_next_id h)" by simp
  then have fresh: "th_map h ?i = None" using assms(3) [of ?i] by blast
  obtain g where g: "addTimer (Timestamp 0 0) ms () 1 h = (?i, g)" "heap_inv g" "ordered h \<Longrightarrow> ordered g"
    "timers g = (timers h)(?i \<mapsto> (Timer ?i (plus_ms (Timestamp 0 0) (max 0 ms)) (max 0 ms) () 1)\<lparr>t_heap_pos := 0\<rparr>)"
    "th_next_id g = ?i"
    using addTimer_fresh [OF assms(1) _ fresh, of "Timestamp 0 0" ms "()" 1] by (auto simp: normal_def)
  then have h': "h' = g" by (simp add: h'_def)
  show "heap_inv h'" "ordered h'" "uint (th_next_id h') = uint (th_next_id h) + 1" using g i assms(2) by (simp_all add: h')
  show "uint j \<le> uint (th_next_id h')" if "th_map h' j \<noteq> None" for j
  proof (cases "j = ?i")
    case False
    then have "th_map h j \<noteq> None" using that fun_cong [OF g(4), of j] by (cases "th_map h j") (auto simp: h' timers_def)
    then show ?thesis using assms(3) [of j] g(5) i by (simp add: h')
  qed (simp add: h' g(5))
qed

lemma add_all_inv: "length tms \<le> 1000 \<Longrightarrow> heap_inv (add_all tms) \<and> ordered (add_all tms)
    \<and> (\<forall>i. th_map (add_all tms) i \<noteq> None \<longrightarrow> uint i \<le> uint (th_next_id (add_all tms)))
    \<and> uint (th_next_id (add_all tms)) = int (length tms)"
proof (induction tms rule: rev_induct)
  case Nil
  then show ?case using TimerHeap_ok by (simp add: add_all_def) (simp add: TimerHeap_def)
next
  case (snoc ms tms)
  have "add_all (tms @ [ms]) = snd (addTimer (Timestamp 0 0) ms () 1 (add_all tms))" by (simp add: add_all_def)
  moreover have IH: "heap_inv (add_all tms)" "ordered (add_all tms)" "uint (th_next_id (add_all tms)) < 1000"
    "uint (th_next_id (add_all tms)) = int (length tms)"
    "\<And>i. th_map (add_all tms) i \<noteq> None \<Longrightarrow> uint i \<le> uint (th_next_id (add_all tms))" using snoc by auto
  note add_next [OF IH(1,2,5,3), of ms]
  ultimately show ?case using IH(4) by simp
qed

theorem removeTimer_removes_witness:
  "let h = add_all [10, 30, 20, 50, 60, 55] in
   th_heap h = [null_timer, 1, 2, 3, 4, 5, 6] \<and> keys h ! (2 div 2) \<le> last (keys h) \<and> timers h 2 \<noteq> None
   \<and> th_heap (removeTimer 2 h) = [null_timer, 1, 4, 3, 6, 5] \<and> heap_inv (removeTimer 2 h) \<and> ordered (removeTimer 2 h)
   \<and> in_heap (removeTimer 2 h) = {#1, 3, 4, 5, 6#} \<and> timers (removeTimer 2 h) = (timers h)(2 := None)"
proof -
  define h where "h = add_all [10, 30, 20, 50, 60, 55]"
  have heap: "th_heap h = [null_timer, 1, 2, 3, 4, 5, 6]" "th_heap (removeTimer 2 h) = [null_timer, 1, 4, 3, 6, 5]"
    "keys h ! 1 = Timestamp 0 10000000" "last (keys h) = Timestamp 0 55000000" "th_map h 2 \<noteq> None"
    unfolding h_def by code_simp+
  have "keys h ! 1 \<le> last (keys h)" unfolding heap(3,4) by code_simp
  then have order: "keys h ! (2 div 2) \<le> last (keys h)" by simp
  have inv: "heap_inv h" "ordered h" unfolding h_def by (simp_all add: add_all_inv)
  have slot: "c = 2" if "2 \<le> c" "c < length (th_heap h) - 1" "th_heap h ! c = 2" for c
  proof -
    have "c = 2 \<or> c = 3 \<or> c = 4 \<or> c = 5" using that(1,2) by (auto simp: heap(1))
    then show ?thesis using that(3) by (auto simp: heap(1))
  qed
  have "\<forall>c. 2 \<le> c \<longrightarrow> c < length (th_heap h) - 1 \<longrightarrow> th_heap h ! c = 2 \<longrightarrow> keys h ! (c div 2) \<le> last (keys h)"
    using slot order by blast
  moreover note removeTimer_removes [OF inv, of 2]
  moreover have "in_heap h - {#2#} = {#1, 3, 4, 5, 6#}" by (simp add: in_heap_def heap(1))
  moreover have "timers h 2 \<noteq> None" using heap(5) by (simp add: timers_def)
  ultimately show ?thesis using heap order unfolding h_def [symmetric] Let_def by simp
qed

text \<open>
  Without that condition the order is lost, and a timer that is due does not fire. Fifteen timers are
  added and timer 8 is removed: the erase puts timer 15, due at 4 ms, below timer 4, due at 11 ms, and
  only sifts down. The check at 5 ms returns with timer 15 still waiting, behind timer 2 at the top.
\<close>
theorem removal_delays_due_timer:
  "let h = removeTimer 8 (add_all [1, 10, 2, 11, 12, 50, 3, 13, 14, 15, 16, 52, 53, 51, 4]) in
   \<exists>h'. checkTimeout log_call (Timestamp 0 5000000) (h, []) = Some (h', [1, 3, 7])
     \<and> minHeapTop h' = Some 2 \<and> map_option t_value (th_map h' 15) = Some (Timestamp 0 4000000)"
proof -
  define h where "h = removeTimer 8 (add_all [1, 10, 2, 11, 12, 50, 3, 13, 14, 15, 16, 52, 53, 51, 4])"
  let ?now = "Timestamp 0 5000000"
  have step: "checkTimeout log_call ?now (g, w) = checkTimeout log_call ?now (fire_timer i g, w @ [i])"
    if "minHeapTop g = Some i" "\<not> millisecondLess ?now (t_value (timer_of g i))" for g :: "unit timer_heap" and i w
    using that by (subst checkTimeout.simps) (simp add: log_call_def)
  have run: "let h1 = fire_timer 1 h; h3 = fire_timer 3 h1; h7 = fire_timer 7 h3 in
      minHeapTop h = Some 1 \<and> minHeapTop h1 = Some 3 \<and> minHeapTop h3 = Some 7 \<and> minHeapTop h7 = Some 2
      \<and> \<not> millisecondLess ?now (t_value (timer_of h 1)) \<and> \<not> millisecondLess ?now (t_value (timer_of h1 3))
      \<and> \<not> millisecondLess ?now (t_value (timer_of h3 7)) \<and> millisecondLess ?now (t_value (timer_of h7 2))
      \<and> map_option t_value (th_map h7 15) = Some (Timestamp 0 4000000)"
    unfolding h_def by code_simp
  obtain h1 h3 h7 where hs: "fire_timer 1 h = h1" "fire_timer 3 h1 = h3" "fire_timer 7 h3 = h7" by blast
  have "checkTimeout log_call ?now (h, []) = checkTimeout log_call ?now (h7, [1, 3, 7])"
    using run unfolding hs Let_def by (simp add: step hs)
  also have "\<dots> = Some (h7, [1, 3, 7])" using run unfolding hs Let_def by (subst checkTimeout.simps) simp
  finally show ?thesis using run unfolding hs Let_def h_def [symmetric] by simp
qed

text \<open>Due timers that never become late timers: unlimited calls and a period of 0.\<close>

definition stuck :: "timestamp \<Rightarrow> 'cb timer_heap \<Rightarrow> bool" where
  "stuck now h \<longleftrightarrow> heap_inv h \<and> ordered h
     \<and> (\<exists>i t. timers h i = Some t \<and> t_call_times t \<le> 0 \<and> t_timeout t = 0 \<and> in_ms (t_value t) \<le> in_ms now)"

lemma stuck_fires:
  assumes "stuck now h" and now: "normal now"
  obtains i where "minHeapTop h = Some i" "\<not> millisecondLess now (t_value (timer_of h i))"
    "stuck now (fire_timer i h)"
proof -
  obtain j u where h: "heap_inv h" "ordered h" and u: "timers h j = Some u" "t_call_times u \<le> 0"
    "t_timeout u = 0" "in_ms (t_value u) \<le> in_ms now" using assms(1) unfolding stuck_def by blast
  have j: "j \<in># in_heap h" "normal (t_value u)" using u(1) h(1) by (auto simp: heap_inv_def)
  obtain i where i: "minHeapTop h = Some i"
    using j(1) minHeapTop_None [OF heap_inv_wf [OF h(1)]] by (cases "minHeapTop h") auto
  obtain t where t: "timers h i = Some t" "t_value (timer_of h i) = t_value t" using top_timer [OF h(1) i] by metis
  have nt: "normal (t_value t)" using t(1) h(1) by (simp add: heap_inv_def)
  have "t_value t \<le> t_value u"
    using minHeapTop_least [OF heap_inv_wf [OF h(1)] h(2) i j(1)] t u by (simp add: t_value_timers)
  then have due: "\<not> millisecondLess now (t_value (timer_of h i))"
    using in_ms_mono [OF nt j(2)] u(4) t(2) millisecondLess_in_ms [OF now nt] by simp
  note f = fire_ok [OF h i t(1)]
  have "\<exists>v. timers (fire_timer i h) j = Some v \<and> t_call_times v \<le> 0 \<and> t_timeout v = 0
      \<and> in_ms (t_value v) \<le> in_ms now"
  proof (cases "j = i")
    case True
    then have "timers (fire_timer i h) j = Some (u\<lparr>t_value := plus_ms (t_value u) 0\<rparr>)"
      using u t(1) f(3) by (simp add: after_fire_def)
    then show ?thesis using u(2-4) in_ms_plus [OF j(2), of 0] by simp
  next
    case False
    then show ?thesis using u f(3) by simp
  qed
  then have "stuck now (fire_timer i h)" unfolding stuck_def using f(1,2) by blast
  then show ?thesis using that i due by blast
qed

text \<open>
  C15: a timer with an unlimited number of calls (the default \<open>call_times = -1\<close>) and a timeout of 0 makes
  \<open>checkTimeout\<close> loop for ever as soon as it is due, when the callbacks do not touch the heap: every round puts it back with
  the same deadline.
\<close>
theorem zero_period_never_returns:
  assumes "stuck now h" and "normal now" and quiet: "\<And>cb i s. fst (run cb i s) = fst s"
  shows "checkTimeout run now (h, w) = None"
proof (rule ccontr)
  assume "checkTimeout run now (h, w) \<noteq> None"
  then obtain y where "checkTimeout run now (h, w) = Some y" by blast
  then have "run = run \<longrightarrow> now = now \<longrightarrow> \<not> stuck now (fst (h, w))"
  proof (rule checkTimeout.raw_induct [where P = "\<lambda>r n s y. r = run \<longrightarrow> n = now \<longrightarrow> \<not> stuck n (fst s)", rotated],
      intro impI notI, goal_cases)
    case (1 rec r n s y)
    then obtain i where i: "minHeapTop (fst s) = Some i" "\<not> millisecondLess now (t_value (timer_of (fst s) i))"
      "stuck now (fire_timer i (fst s))" using stuck_fires [of now "fst s"] assms(2) by blast
    then have "rec run now (run (t_cb (timer_of (fst s) i)) i (fire_timer i (fst s), snd s)) = Some y"
      using 1(2-5) by simp
    from 1(1) [OF this] show False using i(3) quiet by simp
  qed
  then show False using assms(1) by simp
qed

theorem zero_period_never_returns_witness:
  "checkTimeout log_call (Timestamp 3 0) (snd (addTimer (Timestamp 3 0) 0 () (-1) TimerHeap), []) = None"
proof -
  have "normal (Timestamp 3 0)" "th_map TimerHeap (nextId (th_next_id TimerHeap)) = None"
    by (simp_all add: normal_def TimerHeap_def)
  note start = addTimer_fresh [OF TimerHeap_ok [THEN conjunct1] this, of 0 "()" "-1"]
  show ?thesis
  proof (rule start, goal_cases)
    case (1 h')
    have "ordered h'" using 1(3) TimerHeap_ok by blast
    moreover have "\<exists>t. timers h' (nextId (th_next_id (TimerHeap :: unit timer_heap))) = Some t \<and> t_call_times t \<le> 0
        \<and> t_timeout t = 0 \<and> in_ms (t_value t) \<le> in_ms (Timestamp 3 0)"
      unfolding 1(4) by (simp add: Timer_def in_ms_plus normal_def)
    ultimately have "stuck (Timestamp 3 0) h'" using 1(2) unfolding stuck_def by blast
    then show ?case unfolding 1(1) snd_conv
      by (intro zero_period_never_returns) (simp_all add: normal_def log_call_def)
  qed
qed

text \<open>
  The timeout handed to the pollers. It is -1 both when no timer is pending and when one is already
  overdue; otherwise it is the distance in whole milliseconds to the nearest deadline.
\<close>
theorem next_timeout_value:
  assumes "heap_inv h" and "ordered h" and "normal now"
  shows "(getNextTimeoutMillisecond now h = -1 \<longleftrightarrow>
            timers h = Map.empty \<or> (\<exists>i t. timers h i = Some t \<and> t_value t < now))
    \<and> (getNextTimeoutMillisecond now h \<noteq> -1 \<longrightarrow>
        (\<exists>i t. timers h i = Some t \<and> getNextTimeoutMillisecond now h = in_ms (t_value t) - in_ms now
           \<and> (\<forall>j u. timers h j = Some u \<longrightarrow> t_value t \<le> t_value u)))"
proof (cases "minHeapTop h")
  case None
  then have "in_heap h = {#}" using minHeapTop_None assms(1) heap_inv_wf by blast
  then have "timers h i \<noteq> Some t" for i t
    using assms(1) unfolding heap_inv_def by (metis empty_iff set_mset_empty)
  then have "timers h = Map.empty" by (metis option.exhaust)
  then show ?thesis using None by (simp add: getNextTimeoutMillisecond_def)
next
  case (Some i)
  obtain t where t: "timers h i = Some t" "t_value (timer_of h i) = t_value t"
    using top_timer [OF assms(1) Some] by metis
  have nt: "normal (t_value t)" using t(1) assms(1) by (simp add: heap_inv_def)
  have least: "t_value t \<le> t_value u" if u: "timers h j = Some u" for j u
  proof -
    have "j \<in># in_heap h" using u assms(1) by (simp add: heap_inv_def)
    from minHeapTop_least [OF heap_inv_wf [OF assms(1)] assms(2) Some this] show ?thesis
      using t u by (simp add: t_value_timers)
  qed
  show ?thesis
  proof (cases "t_value t < now")
    case True
    then show ?thesis using Some t by (auto simp: getNextTimeoutMillisecond_def)
  next
    case False
    have dist: "distanceMillisecond now (t_value t) = in_ms (t_value t) - in_ms now"
      using False in_ms_mono [OF assms(3) nt] assms(3) nt
      by (auto simp: distanceMillisecond_def getMillisecond_normal in_ms_def algebra_simps not_less)
    have "0 \<le> in_ms (t_value t) - in_ms now" using in_ms_mono [OF assms(3) nt] False by simp
    moreover have "getNextTimeoutMillisecond now h = in_ms (t_value t) - in_ms now"
      using Some t False dist by (simp add: getNextTimeoutMillisecond_def)
    moreover have "timers h \<noteq> Map.empty" using t(1) by auto
    moreover have "\<not> (\<exists>j u. timers h j = Some u \<and> t_value u < now)"
      using least False by (meson le_less_trans)
    ultimately show ?thesis using t(1) least by (intro conjI impI exI [of _ i] exI [of _ t]) auto
  qed
qed

theorem next_timeout_value_witness:
  "getNextTimeoutMillisecond (Timestamp 1 0) (TimerHeap :: unit timer_heap) = -1"
proof -
  have "timers (TimerHeap :: unit timer_heap) = Map.empty" by (simp add: TimerHeap_def timers_def)
  then show ?thesis
    using next_timeout_value [of "TimerHeap :: unit timer_heap" "Timestamp 1 0"]
      TimerHeap_ok [where 'cb = unit] by (simp add: normal_def)
qed

end
