(* ===== verification/Wire_Codec.thy ===== *)
theory Wire_Codec
  imports Zb_Prelude
begin

text \<open>
  The encoding macros of \<open>zbluenet/exchange/macro.h\<close>, with which generated message classes write
  their \<open>encode\<close> and \<open>decode\<close>.

  A reading macro works on the cursor \<open>p\<close> with \<open>left_bytes\<close> bytes behind it; the model is a
  function from the bytes that are left to the value and the bytes then left, and \<open>None\<close> is the
  macro's \<open>return -1\<close>. A writing macro works on a cursor with \<open>left_bytes\<close> bytes of room; the model's
  cursor is the pair of the bytes written so far and the room left. The integer macros are modelled on
  variables of their own width (the signed ones read as their two's complement word). That the reading
  macros touch no other byte than those is shown on memory in \<open>Wire_Memory\<close>.

  The locale \<open>codec\<close> is what a message class needs of each of them; the lists of any codec are again a
  codec, proved once inside the locale.
\<close>

type_synonym 'a reader = "bytes \<Rightarrow> ('a \<times> bytes) option"
type_synonym cursor = "bytes \<times> nat"
type_synonym 'a writer = "'a \<Rightarrow> cursor \<Rightarrow> cursor option"

subsection \<open>Fixed width integers\<close>

definition READ_INT8 :: "'w::len word reader" where
  "READ_INT8 p = (if length p < 1 then None else Some (ucast (p ! 0), drop 1 p))"

definition WRITE_INT8 :: "'w::len word writer" where
  "WRITE_INT8 var c =
     (let (out, left_bytes) = c in
      if left_bytes < 1 then None else Some (out @ [ucast var], left_bytes - 1))"

definition READ_INT16 :: "'w::len word reader" where
  "READ_INT16 p =
     (if length p < 2 then None
      else Some (ucast (p ! 1) OR push_bit 8 (ucast (p ! 0)), drop 2 p))"

definition WRITE_INT16 :: "'w::len word writer" where
  "WRITE_INT16 var c =
     (let (out, left_bytes) = c in
      if left_bytes < 2 then None
      else Some (out @ [ucast (drop_bit 8 var), ucast var], left_bytes - 2))"

definition READ_INT32 :: "'w::len word reader" where
  "READ_INT32 p =
     (if length p < 4 then None
      else Some (ucast (p ! 3) OR push_bit 8 (ucast (p ! 2)) OR push_bit 16 (ucast (p ! 1))
                   OR push_bit 24 (ucast (p ! 0)), drop 4 p))"

definition WRITE_INT32 :: "'w::len word writer" where
  "WRITE_INT32 var c =
     (let (out, left_bytes) = c in
      if left_bytes < 4 then None
      else Some (out @ [ucast (drop_bit 24 var), ucast (drop_bit 16 var), ucast (drop_bit 8 var), ucast var],
                 left_bytes - 4))"

definition READ_INT64 :: "64 word reader" where
  "READ_INT64 p =
     (if length p < 8 then None
      else Some (ucast (p ! 7) OR push_bit 8 (ucast (p ! 6)) OR push_bit 16 (ucast (p ! 5))
                   OR push_bit 24 (ucast (p ! 4)) OR push_bit 32 (ucast (p ! 3)) OR push_bit 40 (ucast (p ! 2))
                   OR push_bit 48 (ucast (p ! 1)) OR push_bit 56 (ucast (p ! 0)), drop 8 p))"

definition WRITE_INT64 :: "64 word writer" where
  "WRITE_INT64 var c =
     (let (out, left_bytes) = c in
      if left_bytes < 8 then None
      else Some (out @ [ucast (drop_bit 56 var), ucast (drop_bit 48 var), ucast (drop_bit 40 var),
                        ucast (drop_bit 32 var), ucast (drop_bit 24 var), ucast (drop_bit 16 var),
                        ucast (drop_bit 8 var), ucast var], left_bytes - 8))"

subsection \<open>Variable width integers and lengths\<close>

definition READ_INT16V :: "16 word reader" where
  "READ_INT16V p =
     do { (var, p1) \<leftarrow> READ_INT8 p;
          if var < 255 then Some (var, p1) else READ_INT16 p1 }"

definition WRITE_INT16V :: "16 word writer" where
  "WRITE_INT16V var c =
     (if var < 255 then WRITE_INT8 var c
      else do { c1 \<leftarrow> WRITE_INT8 (255 :: 16 word) c; WRITE_INT16 var c1 })"

definition READ_INT32V :: "32 word reader" where
  "READ_INT32V p =
     do { (var, p1) \<leftarrow> READ_INT8 p;
          if var < 254 then Some (var, p1)
          else if var = 254 then READ_INT16 p1
          else READ_INT32 p1 }"

definition WRITE_INT32V :: "32 word writer" where
  "WRITE_INT32V var c =
     (if var < 254 then WRITE_INT8 var c
      else if var \<le> 0xffff then do { c1 \<leftarrow> WRITE_INT8 (254 :: 32 word) c; WRITE_INT16 var c1 }
      else do { c1 \<leftarrow> WRITE_INT8 (255 :: 32 word) c; WRITE_INT32 var c1 })"

definition READ_INT64V :: "64 word reader" where
  "READ_INT64V p =
     do { (var, p1) \<leftarrow> READ_INT8 p;
          if var < 253 then Some (var, p1)
          else if var = 253 then READ_INT16 p1
          else if var = 254 then READ_INT32 p1
          else READ_INT64 p1 }"

definition WRITE_INT64V :: "64 word writer" where
  "WRITE_INT64V var c =
     (if var < 253 then WRITE_INT8 var c
      else if var \<le> 0xffff then do { c1 \<leftarrow> WRITE_INT8 (253 :: 64 word) c; WRITE_INT16 var c1 }
      else if var \<le> 0xffffffff then do { c1 \<leftarrow> WRITE_INT8 (254 :: 64 word) c; WRITE_INT32 var c1 }
      else do { c1 \<leftarrow> WRITE_INT8 (255 :: 64 word) c; WRITE_INT64 var c1 })"

text \<open>A length is a \<open>size_t\<close>; the macros move it through the integer macros at its width of 64 bits.\<close>

definition READ_LENGTH :: "64 word reader" where
  "READ_LENGTH p =
     do { (len, p1) \<leftarrow> READ_INT8 p;
          if len < 254 then Some (len, p1)
          else if len = 254 then READ_INT16 p1
          else READ_INT32 p1 }"

definition WRITE_LENGTH :: "64 word writer" where
  "WRITE_LENGTH len c =
     (if len < 254 then WRITE_INT8 len c
      else if len \<le> 0xffff then do { c1 \<leftarrow> WRITE_INT8 (254 :: 64 word) c; WRITE_INT16 len c1 }
      else if len \<le> 0xffffffff then do { c1 \<leftarrow> WRITE_INT8 (255 :: 64 word) c; WRITE_INT32 len c1 }
      else None)"

subsection \<open>Strings, enums, structs and lists\<close>

definition READ_STRING :: "bytes reader" where
  "READ_STRING p =
     do { (len, p1) \<leftarrow> READ_LENGTH p;
          if length p1 < unat len then None
          else Some (take (unat len) p1, drop (unat len) p1) }"

definition WRITE_STRING :: "bytes writer" where
  "WRITE_STRING var c =
     do { (out, left_bytes) \<leftarrow> WRITE_LENGTH (of_nat (length var)) c;
          if left_bytes < length var then None
          else Some (out @ var, left_bytes - length var) }"

text \<open>An enum is its \<open>int32_t\<close>; \<open>enum_type\<close> is the cast back to the enum type.\<close>

definition READ_ENUM :: "(32 word \<Rightarrow> 'e) \<Rightarrow> 'e reader" where
  "READ_ENUM enum_type p = do { (v, p1) \<leftarrow> READ_INT32V p; Some (enum_type v, p1) }"

definition WRITE_ENUM :: "('e \<Rightarrow> 32 word) \<Rightarrow> 'e writer" where
  "WRITE_ENUM enum_value var c = WRITE_INT32V (enum_value var) c"

text \<open>
  A struct brings its own \<open>encode\<close>, a virtual function of \<open>BaseStruct\<close> that returns the bytes it stored and
  their number, or -1. \<open>READ_STRUCT\<close> moves the cursor by whatever number \<open>decode\<close> returns and is modelled
  on memory, in \<open>Wire_Memory\<close>.
\<close>

definition WRITE_STRUCT :: "('s \<Rightarrow> nat \<Rightarrow> bytes option) \<Rightarrow> 's writer" where
  "WRITE_STRUCT encode var c =
     (let (out, left_bytes) = c in
      case encode var left_bytes of None \<Rightarrow> None
      | Some bs \<Rightarrow> Some (out @ bs, sz_sub left_bytes (length bs)))"

primrec read_n :: "'a reader \<Rightarrow> nat \<Rightarrow> 'a list reader" where
  "read_n read_func 0 p = Some ([], p)"
| "read_n read_func (Suc n) p =
     do { (v, p1) \<leftarrow> read_func p; (vs, p2) \<leftarrow> read_n read_func n p1; Some (v # vs, p2) }"

definition READ_LIST :: "'a reader \<Rightarrow> 'a list reader" where
  "READ_LIST read_func p = do { (len, p1) \<leftarrow> READ_LENGTH p; read_n read_func (unat len) p1 }"

primrec write_all :: "'a writer \<Rightarrow> 'a list writer" where
  "write_all write_func [] c = Some c"
| "write_all write_func (v # vs) c = do { c1 \<leftarrow> write_func v c; write_all write_func vs c1 }"

definition WRITE_LIST :: "'a writer \<Rightarrow> 'a list writer" where
  "WRITE_LIST write_func var c =
     do { c1 \<leftarrow> WRITE_LENGTH (of_nat (length var)) c; write_all write_func var c1 }"

subsection \<open>What a message class needs of a codec\<close>

text \<open>
  \<open>enc\<close> is the encoding of a value. The writer appends it when it fits and fails otherwise; the reader
  takes it back from the front of the bytes and leaves the rest; and whatever the reader accepts, it has
  only moved forward within the bytes it was given.
\<close>

locale codec =
  fixes rd :: "'a reader" and wr :: "'a writer" and enc :: "'a \<Rightarrow> bytes" and ok :: "'a \<Rightarrow> bool"
  assumes write_fits: "ok v \<Longrightarrow> length (enc v) \<le> left_bytes \<Longrightarrow>
      wr v (out, left_bytes) = Some (out @ enc v, left_bytes - length (enc v))"
    and write_full: "ok v \<Longrightarrow> left_bytes < length (enc v) \<Longrightarrow> wr v (out, left_bytes) = None"
    and read_back: "ok v \<Longrightarrow> rd (enc v @ rest) = Some (v, rest)"
    and read_suffix: "rd p = Some (v, rest) \<Longrightarrow> \<exists>used. p = used @ rest"
begin

lemma write_eq: "ok v \<Longrightarrow> wr v (out, n) = (if length (enc v) \<le> n then Some (out @ enc v, n - length (enc v)) else None)"
  using write_fits write_full by simp

lemma write_all_eq:
  "\<forall>v\<in>set vs. ok v \<Longrightarrow> write_all wr vs (out, n)
     = (if length (concat (map enc vs)) \<le> n
        then Some (out @ concat (map enc vs), n - length (concat (map enc vs))) else None)"
  by (induction vs arbitrary: out n) (auto simp: write_eq)

lemma read_n_back:
  "\<forall>v\<in>set vs. ok v \<Longrightarrow> read_n rd (length vs) (concat (map enc vs) @ rest) = Some (vs, rest)"
  by (induction vs) (auto simp: read_back)

lemma read_n_suffix: "read_n rd n p = Some (vs, rest) \<Longrightarrow> \<exists>used. p = used @ rest"
proof (induction n arbitrary: p vs)
  case (Suc n)
  then obtain v p1 vs1 where "rd p = Some (v, p1)" "read_n rd n p1 = Some (vs1, rest)"
    by (auto split: Option.bind_splits)
  then show ?case using read_suffix [of p v p1] Suc.IH [of p1 vs1] by auto
qed simp

lemma read_written:
  assumes "ok v" and "wr v ([], n) = Some (out, m)"
  shows "rd (out @ rest) = Some (v, rest) \<and> m + length out = n"
  using assms write_eq [OF assms(1), of "[]" n] read_back [OF assms(1)] by (auto split: if_splits)

end

subsection \<open>The macros are codecs\<close>

lemma join8: "(ucast (ucast x :: byte) :: 'w::len word) = take_bit 8 x"
  by (rule bit_word_eqI) (auto simp: bit_simps)

lemma join16: "(ucast (ucast x :: byte) :: 'w::len word) OR push_bit 8 (ucast (ucast (drop_bit 8 x) :: byte)) = take_bit 16 x"
  by (rule bit_word_eqI) (auto simp: bit_simps)

lemma join32:
  "(ucast (ucast x :: byte) :: 'w::len word) OR push_bit 8 (ucast (ucast (drop_bit 8 x) :: byte))
     OR push_bit 16 (ucast (ucast (drop_bit 16 x) :: byte)) OR push_bit 24 (ucast (ucast (drop_bit 24 x) :: byte))
   = take_bit 32 x"
proof (rule bit_word_eqI)
  fix n
  assume "n < LENGTH('w)"
  moreover have "n < 8 \<or> (8 \<le> n \<and> n < 16) \<or> (16 \<le> n \<and> n < 24) \<or> (24 \<le> n \<and> n < 32) \<or> 32 \<le> n" by arith
  ultimately show "bit ((ucast (ucast x :: byte) :: 'w word) OR push_bit 8 (ucast (ucast (drop_bit 8 x) :: byte))
     OR push_bit 16 (ucast (ucast (drop_bit 16 x) :: byte)) OR push_bit 24 (ucast (ucast (drop_bit 24 x) :: byte))) n
   = bit (take_bit 32 x) n"
    by (elim disjE) (auto simp: bit_simps)
qed

lemma take_bit_small: "unat (x :: 'w::len word) < 2 ^ n \<Longrightarrow> take_bit n x = x"
  by (simp add: word_unat_eq_iff unsigned_take_bit_eq take_bit_nat_eq_self)

lemma take_bit_full [simp]:
  "take_bit 8 (v8 :: 8 word) = v8" "take_bit 16 (v16 :: 16 word) = v16" "take_bit 32 (v32 :: 32 word) = v32"
  by (rule bit_word_eqI; simp add: bit_simps)+

definition enc8 :: "'w::len word \<Rightarrow> bytes" where
  "enc8 v = [ucast v]"

definition enc16 :: "'w::len word \<Rightarrow> bytes" where
  "enc16 v = [ucast (drop_bit 8 v), ucast v]"

definition enc32 :: "'w::len word \<Rightarrow> bytes" where
  "enc32 v = [ucast (drop_bit 24 v), ucast (drop_bit 16 v), ucast (drop_bit 8 v), ucast v]"

definition enc64 :: "64 word \<Rightarrow> bytes" where
  "enc64 v = [ucast (drop_bit 56 v), ucast (drop_bit 48 v), ucast (drop_bit 40 v), ucast (drop_bit 32 v),
              ucast (drop_bit 24 v), ucast (drop_bit 16 v), ucast (drop_bit 8 v), ucast v]"

lemma read_front:
  "READ_INT8 (enc8 v @ rest) = Some (take_bit 8 v, rest)"
  "READ_INT16 (enc16 v @ rest) = Some (take_bit 16 v, rest)"
  "READ_INT32 (enc32 v @ rest) = Some (take_bit 32 v, rest)"
  "READ_INT64 (enc64 w @ rest) = Some (w, rest)"
proof -
  show "READ_INT8 (enc8 v @ rest) = Some (take_bit 8 v, rest)"
    using join8 [of v] by (simp add: READ_INT8_def enc8_def)
  show "READ_INT16 (enc16 v @ rest) = Some (take_bit 16 v, rest)"
    using join16 [of v] by (simp add: READ_INT16_def enc16_def)
  show "READ_INT32 (enc32 v @ rest) = Some (take_bit 32 v, rest)"
    using join32 [of v] by (simp add: READ_INT32_def enc32_def numeral_3_eq_3 numeral_2_eq_2)
  show "READ_INT64 (enc64 w @ rest) = Some (w, rest)"
    using word_bytes_64 [of w] by (simp add: READ_INT64_def enc64_def)
qed

lemma read_ints_suffix:
  "READ_INT8 p = Some (v, rest) \<Longrightarrow> \<exists>used. p = used @ rest"
  "READ_INT16 p = Some (v, rest) \<Longrightarrow> \<exists>used. p = used @ rest"
  "READ_INT32 p = Some (v, rest) \<Longrightarrow> \<exists>used. p = used @ rest"
  "READ_INT64 p = Some (w, rest) \<Longrightarrow> \<exists>used. p = used @ rest"
  by (auto simp: READ_INT8_def READ_INT16_def READ_INT32_def READ_INT64_def split: if_splits
      intro: append_take_drop_id [symmetric])

lemma write_ints:
  "WRITE_INT8 v (out, n) = (if 1 \<le> n then Some (out @ enc8 v, n - 1) else None)"
  "WRITE_INT16 v (out, n) = (if 2 \<le> n then Some (out @ enc16 v, n - 2) else None)"
  "WRITE_INT32 v (out, n) = (if 4 \<le> n then Some (out @ enc32 v, n - 4) else None)"
  "WRITE_INT64 w (out, n) = (if 8 \<le> n then Some (out @ enc64 w, n - 8) else None)"
  by (auto simp: WRITE_INT8_def WRITE_INT16_def WRITE_INT32_def WRITE_INT64_def
      enc8_def enc16_def enc32_def enc64_def)

lemma length_enc [simp]: "length (enc8 v) = 1" "length (enc16 v) = 2" "length (enc32 v) = 4" "length (enc64 w) = 8"
  by (simp_all add: enc8_def enc16_def enc32_def enc64_def)

interpretation int8: codec READ_INT8 WRITE_INT8 enc8 "\<lambda>v :: 8 word. True"
  by unfold_locales (auto simp: write_ints read_front intro: read_ints_suffix)

interpretation int16: codec READ_INT16 WRITE_INT16 enc16 "\<lambda>v :: 16 word. True"
  by unfold_locales (auto simp: write_ints read_front intro: read_ints_suffix)

interpretation int32: codec READ_INT32 WRITE_INT32 enc32 "\<lambda>v :: 32 word. True"
  by unfold_locales (auto simp: write_ints read_front intro: read_ints_suffix)

interpretation int64: codec READ_INT64 WRITE_INT64 enc64 "\<lambda>v. True"
  by unfold_locales (auto simp: write_ints read_front intro: read_ints_suffix)

definition enc16v :: "16 word \<Rightarrow> bytes" where
  "enc16v v = (if v < 255 then enc8 v else 255 # enc16 v)"

definition enc32v :: "32 word \<Rightarrow> bytes" where
  "enc32v v = (if v < 254 then enc8 v else if v \<le> 0xffff then 254 # enc16 v else 255 # enc32 v)"

definition enc64v :: "64 word \<Rightarrow> bytes" where
  "enc64v v = (if v < 253 then enc8 v else if v \<le> 0xffff then 253 # enc16 v
               else if v \<le> 0xffffffff then 254 # enc32 v else 255 # enc64 v)"

definition enc_length :: "64 word \<Rightarrow> bytes" where
  "enc_length v = (if v < 254 then enc8 v else if v \<le> 0xffff then 254 # enc16 v else 255 # enc32 v)"

lemma read_tag: "READ_INT8 (b # rest) = Some (ucast b, rest)"
  by (simp add: READ_INT8_def)

lemma write_tag: "WRITE_INT8 v (out, n) = (if 1 \<le> n then Some (out @ [ucast v], n - 1) else None)"
  by (auto simp: WRITE_INT8_def)

lemma take_bit_8_small [simp]:
  "(v16 :: 16 word) < 255 \<Longrightarrow> take_bit 8 v16 = v16"
  "(v32 :: 32 word) < 254 \<Longrightarrow> take_bit 8 v32 = v32"
  "(v64 :: 64 word) < 254 \<Longrightarrow> take_bit 8 v64 = v64"
  by (rule take_bit_small, simp add: word_less_nat_alt)+

lemma take_bit_16_small [simp]:
  "(v32 :: 32 word) \<le> 0xffff \<Longrightarrow> take_bit 16 v32 = v32"
  "(v64 :: 64 word) \<le> 0xffff \<Longrightarrow> take_bit 16 v64 = v64"
  by (rule take_bit_small, simp add: word_le_nat_alt)+

lemma take_bit_32_small [simp]: "(v64 :: 64 word) \<le> 0xffffffff \<Longrightarrow> take_bit 32 v64 = v64"
  by (rule take_bit_small, simp add: word_le_nat_alt)

lemma less_253_254: "(v :: 64 word) < 253 \<Longrightarrow> v < 254"
  by (simp add: word_less_nat_alt)

lemma var_suffix:
  assumes "READ_INT8 p = Some (t, p1)" and "p1 = rest \<or> (\<exists>used. p1 = used @ rest)"
  shows "\<exists>used. p = used @ rest"
  using read_ints_suffix(1) [OF assms(1)] assms(2) by auto

interpretation int16v: codec READ_INT16V WRITE_INT16V enc16v "\<lambda>v. True"
proof (unfold_locales, goal_cases)
  case (4 p v rest)
  then obtain t p1 where p1: "READ_INT8 p = Some (t :: 16 word, p1)" by (auto simp: READ_INT16V_def split: Option.bind_splits)
  with 4 have "p1 = rest \<or> (\<exists>used. p1 = used @ rest)"
    by (auto simp: READ_INT16V_def split: if_splits intro: read_ints_suffix)
  with p1 show ?case by (rule var_suffix)
qed (auto simp: READ_INT16V_def WRITE_INT16V_def enc16v_def write_ints(2-) write_tag read_front(2-4) read_tag join8 enc8_def split: if_splits)

interpretation int32v: codec READ_INT32V WRITE_INT32V enc32v "\<lambda>v. True"
proof (unfold_locales, goal_cases)
  case (4 p v rest)
  then obtain t p1 where p1: "READ_INT8 p = Some (t :: 32 word, p1)" by (auto simp: READ_INT32V_def split: Option.bind_splits)
  with 4 have "p1 = rest \<or> (\<exists>used. p1 = used @ rest)"
    by (auto simp: READ_INT32V_def split: if_splits intro: read_ints_suffix)
  with p1 show ?case by (rule var_suffix)
qed (auto simp: READ_INT32V_def WRITE_INT32V_def enc32v_def write_ints(2-) write_tag read_front(2-4) read_tag join8 enc8_def split: if_splits)

interpretation int64v: codec READ_INT64V WRITE_INT64V enc64v "\<lambda>v. True"
proof (unfold_locales, goal_cases)
  case (4 p v rest)
  then obtain t p1 where p1: "READ_INT8 p = Some (t :: 64 word, p1)" by (auto simp: READ_INT64V_def split: Option.bind_splits)
  with 4 have "p1 = rest \<or> (\<exists>used. p1 = used @ rest)"
    by (auto simp: READ_INT64V_def split: if_splits intro: read_ints_suffix)
  with p1 show ?case by (rule var_suffix)
qed (auto simp: READ_INT64V_def WRITE_INT64V_def enc64v_def write_ints(2-) write_tag read_front(2-4) read_tag join8 enc8_def less_253_254 split: if_splits)

interpretation len: codec READ_LENGTH WRITE_LENGTH enc_length "\<lambda>v. v \<le> 0xffffffff"
proof (unfold_locales, goal_cases)
  case (4 p v rest)
  then obtain t p1 where p1: "READ_INT8 p = Some (t :: 64 word, p1)" by (auto simp: READ_LENGTH_def split: Option.bind_splits)
  with 4 have "p1 = rest \<or> (\<exists>used. p1 = used @ rest)"
    by (auto simp: READ_LENGTH_def split: if_splits intro: read_ints_suffix)
  with p1 show ?case by (rule var_suffix)
qed (auto simp: READ_LENGTH_def WRITE_LENGTH_def enc_length_def write_ints(2-) write_tag read_front(2-4) read_tag join8 enc8_def split: if_splits)

lemma length_word_le: "n < 2 ^ 32 \<Longrightarrow> (of_nat n :: 64 word) \<le> 0xffffffff"
  by (simp add: word_le_nat_alt unat_of_nat)

lemma unat_length_word: "n < 2 ^ 32 \<Longrightarrow> unat (of_nat n :: 64 word) = n"
  by (simp add: unat_of_nat)

definition enc_string :: "bytes \<Rightarrow> bytes" where
  "enc_string v = enc_length (of_nat (length v)) @ v"

interpretation str: codec READ_STRING WRITE_STRING enc_string "\<lambda>v. length v < 2 ^ 32"
proof (unfold_locales, goal_cases)
  case (1 v n out)
  then show ?case
    using len.write_fits [OF length_word_le [OF 1(1)], of n out] by (simp add: WRITE_STRING_def enc_string_def)
next
  case (2 v n out)
  then show ?case
    using len.write_eq [OF length_word_le [OF 2(1)], of out n] by (auto simp: WRITE_STRING_def enc_string_def)
next
  case (3 v rest)
  then show ?case
    using len.read_back [OF length_word_le [OF 3], of "v @ rest"]
    by (simp add: READ_STRING_def enc_string_def unat_length_word)
next
  case (4 p v rest)
  then obtain n p1 where p1: "READ_LENGTH p = Some (n, p1)" "rest = drop (unat n) p1"
    by (auto simp: READ_STRING_def split: Option.bind_splits if_splits)
  then have "p1 = take (unat n) p1 @ rest" by simp
  then show ?case using len.read_suffix [OF p1(1)] by (metis append.assoc)
qed

context codec
begin

definition enc_list :: "'a list \<Rightarrow> bytes" where
  "enc_list vs = enc_length (of_nat (length vs)) @ concat (map enc vs)"

lemma list_codec:
  "codec (READ_LIST rd) (WRITE_LIST wr) enc_list (\<lambda>vs. length vs < 2 ^ 32 \<and> (\<forall>v\<in>set vs. ok v))"
proof (unfold_locales, goal_cases)
  case (1 vs n out)
  then show ?case
    using len.write_fits [OF length_word_le, of "length vs" n out] write_all_eq [of vs]
    by (simp add: WRITE_LIST_def enc_list_def)
next
  case (2 vs n out)
  then show ?case
    using len.write_eq [OF length_word_le, of "length vs" out n] write_all_eq [of vs]
    by (auto simp: WRITE_LIST_def enc_list_def split: if_splits)
next
  case (3 vs rest)
  then show ?case
    using len.read_back [OF length_word_le, of "length vs" "concat (map enc vs) @ rest"] read_n_back [of vs rest]
    by (simp add: READ_LIST_def enc_list_def unat_length_word)
next
  case (4 p vs rest)
  then obtain n p1 where p1: "READ_LENGTH p = Some (n, p1)" "read_n rd (unat n) p1 = Some (vs, rest)"
    by (auto simp: READ_LIST_def split: Option.bind_splits)
  then show ?case using len.read_suffix [OF p1(1)] read_n_suffix [OF p1(2)] by auto
qed

lemma enum_codec:
  assumes "\<And>e. enum_type (enum_value e) = e"
  shows "codec (READ_ENUM enum_type) (WRITE_ENUM enum_value) (\<lambda>e. enc32v (enum_value e)) (\<lambda>_. True)"
  using assms int32v.write_fits int32v.write_full int32v.read_back int32v.read_suffix
  by unfold_locales (auto simp: READ_ENUM_def WRITE_ENUM_def split: Option.bind_splits)

end

interpretation strs: codec "READ_LIST READ_STRING" "WRITE_LIST WRITE_STRING" "codec.enc_list enc_string"
  "\<lambda>vs. length vs < 2 ^ 32 \<and> (\<forall>v\<in>set vs. length v < 2 ^ 32)"
  by (rule str.list_codec)

subsection \<open>Properties\<close>

text \<open>
  The variable width integers are self-delimiting and short. Whatever the value, writing it into
  enough room and reading it back, with any bytes behind it, returns the value and those bytes; small
  values take one byte and the encodings are 1 or 3, 1, 3 or 5, and 1, 3, 5 or 9 bytes long.
\<close>
theorem var_ints_roundtrip:
  "WRITE_INT16V a (out, 3 + n) = Some (out @ enc16v a, 3 + n - length (enc16v a))
   \<and> READ_INT16V (enc16v a @ rest) = Some (a, rest) \<and> length (enc16v a) = (if a < 255 then 1 else 3)
   \<and> WRITE_INT32V b (out, 5 + n) = Some (out @ enc32v b, 5 + n - length (enc32v b))
   \<and> READ_INT32V (enc32v b @ rest) = Some (b, rest)
   \<and> length (enc32v b) = (if b < 254 then 1 else if b \<le> 0xffff then 3 else 5)
   \<and> WRITE_INT64V c (out, 9 + n) = Some (out @ enc64v c, 9 + n - length (enc64v c))
   \<and> READ_INT64V (enc64v c @ rest) = Some (c, rest)
   \<and> length (enc64v c) = (if c < 253 then 1 else if c \<le> 0xffff then 3 else if c \<le> 0xffffffff then 5 else 9)"
proof -
  have l: "length (enc16v a) = (if a < 255 then 1 else 3)"
    "length (enc32v b) = (if b < 254 then 1 else if b \<le> 0xffff then 3 else 5)"
    "length (enc64v c) = (if c < 253 then 1 else if c \<le> 0xffff then 3 else if c \<le> 0xffffffff then 5 else 9)"
    by (simp_all add: enc16v_def enc32v_def enc64v_def)
  then have "length (enc16v a) \<le> 3 + n" "length (enc32v b) \<le> 5 + n" "length (enc64v c) \<le> 9 + n" by auto
  then show ?thesis
    using l int16v.write_fits int16v.read_back int32v.write_fits int32v.read_back int64v.write_fits int64v.read_back
    by auto
qed

text \<open>
  C17: lists of strings round trip, and never overrun. With fewer than \<open>2^32\<close> strings of fewer than
  \<open>2^32\<close> bytes, \<open>WRITE_LIST\<close> succeeds exactly if the encoding fits the room that is left, then advances
  the cursor by exactly the encoding, and \<open>READ_LIST\<close> takes the list back whatever follows.
\<close>
theorem string_list_roundtrip:
  assumes "length vs < 2 ^ 32" and "\<And>v. v \<in> set vs \<Longrightarrow> length v < 2 ^ 32"
  defines "enc \<equiv> enc_length (of_nat (length vs)) @ concat (map enc_string vs)"
  shows "WRITE_LIST WRITE_STRING vs (out, left_bytes)
      = (if length enc \<le> left_bytes then Some (out @ enc, left_bytes - length enc) else None)
    \<and> READ_LIST READ_STRING (enc @ rest) = Some (vs, rest)"
  using strs.write_eq [of vs out left_bytes] strs.read_back [of vs rest] assms
  by (simp add: str.enc_list_def)

theorem string_list_roundtrip_witness:
  "WRITE_LIST WRITE_STRING [[1], [], [2, 3]] ([], 9)
      = (if length (enc_length (of_nat (length [[1], [], [2, 3 :: byte]])) @ concat (map enc_string [[1], [], [2, 3]])) \<le> 9
         then Some ([] @ enc_length (of_nat (length [[1], [], [2, 3 :: byte]])) @ concat (map enc_string [[1], [], [2, 3]]),
           9 - length (enc_length (of_nat (length [[1], [], [2, 3 :: byte]])) @ concat (map enc_string [[1], [], [2, 3]])))
         else None)
    \<and> READ_LIST READ_STRING ((enc_length (of_nat (length [[1], [], [2, 3 :: byte]]))
         @ concat (map enc_string [[1], [], [2, 3]])) @ [7]) = Some ([[1], [], [2, 3]], [7])"
  by (rule string_list_roundtrip) auto

end
