(* ===== verification/Wire_Memory.thy ===== *)
theory Wire_Memory
  imports Wire_Codec
begin

text \<open>
  The reading macros of \<open>zbluenet/exchange/macro.h\<close> once more, now on memory: a block of bytes, the
  pointer \<open>p\<close> as a position in it and \<open>left_bytes\<close>, a \<open>size_t\<close> that wraps. A load outside of the block is
  \<open>None\<close>, the macro's \<open>return -1\<close> is \<open>Inl ()\<close>. \<open>Wire_Codec\<close> has the same macros as functions of the bytes
  that are left; here is shown that they are these functions and touch nothing else - which needs every one
  of their bounds checks. \<open>READ_STRUCT\<close> and \<open>READ_ENUM_LIST\<close> are modelled here only: the one can move the cursor
  anywhere, the other reads a variable it has not set.
\<close>

type_synonym stream = "int \<times> nat"
type_synonym 'a mem_reader = "bytes \<Rightarrow> stream \<Rightarrow> (unit + 'a \<times> stream) option"

subsection \<open>Loads\<close>

definition load :: "bytes \<Rightarrow> int \<Rightarrow> nat \<Rightarrow> bytes option" where
  "load block p n = (if 0 \<le> p then mem_read block (nat p) n else None)"

definition advance :: "nat \<Rightarrow> stream \<Rightarrow> stream" where
  "advance n s = (let (p, left_bytes) = s in (p + int n, sz_sub left_bytes n))"

definition mr_return :: "'a \<Rightarrow> 'a mem_reader" where
  "mr_return v block s = Some (Inr (v, s))"

definition mr_bind :: "'a mem_reader \<Rightarrow> ('a \<Rightarrow> 'b mem_reader) \<Rightarrow> 'b mem_reader" where
  "mr_bind m f block s =
     (case m block s of None \<Rightarrow> None | Some (Inl u) \<Rightarrow> Some (Inl u) | Some (Inr (v, s1)) \<Rightarrow> f v block s1)"

subsection \<open>The macros\<close>

definition READ_INT8_at :: "'w::len word mem_reader" where
  "READ_INT8_at block s =
     (let (p, left_bytes) = s in
      if left_bytes < 1 then Some (Inl ())
      else do { bs \<leftarrow> load block p 1; Some (Inr (ucast (bs ! 0), advance 1 s)) })"

definition READ_INT16_at :: "'w::len word mem_reader" where
  "READ_INT16_at block s =
     (let (p, left_bytes) = s in
      if left_bytes < 2 then Some (Inl ())
      else do { bs \<leftarrow> load block p 2;
                Some (Inr (ucast (bs ! 1) OR push_bit 8 (ucast (bs ! 0)), advance 2 s)) })"

definition READ_INT32_at :: "'w::len word mem_reader" where
  "READ_INT32_at block s =
     (let (p, left_bytes) = s in
      if left_bytes < 4 then Some (Inl ())
      else do { bs \<leftarrow> load block p 4;
                Some (Inr (ucast (bs ! 3) OR push_bit 8 (ucast (bs ! 2)) OR push_bit 16 (ucast (bs ! 1))
                             OR push_bit 24 (ucast (bs ! 0)), advance 4 s)) })"

definition READ_INT64_at :: "64 word mem_reader" where
  "READ_INT64_at block s =
     (let (p, left_bytes) = s in
      if left_bytes < 8 then Some (Inl ())
      else do { bs \<leftarrow> load block p 8;
                Some (Inr (ucast (bs ! 7) OR push_bit 8 (ucast (bs ! 6)) OR push_bit 16 (ucast (bs ! 5))
                             OR push_bit 24 (ucast (bs ! 4)) OR push_bit 32 (ucast (bs ! 3)) OR push_bit 40 (ucast (bs ! 2))
                             OR push_bit 48 (ucast (bs ! 1)) OR push_bit 56 (ucast (bs ! 0)), advance 8 s)) })"

definition READ_INT16V_at :: "16 word mem_reader" where
  "READ_INT16V_at = mr_bind READ_INT8_at (\<lambda>var. if var < 255 then mr_return var else READ_INT16_at)"

definition READ_INT32V_at :: "32 word mem_reader" where
  "READ_INT32V_at = mr_bind READ_INT8_at
     (\<lambda>var. if var < 254 then mr_return var else if var = 254 then READ_INT16_at else READ_INT32_at)"

definition READ_INT64V_at :: "64 word mem_reader" where
  "READ_INT64V_at = mr_bind READ_INT8_at
     (\<lambda>var. if var < 253 then mr_return var else if var = 253 then READ_INT16_at
            else if var = 254 then READ_INT32_at else READ_INT64_at)"

definition READ_LENGTH_at :: "64 word mem_reader" where
  "READ_LENGTH_at = mr_bind READ_INT8_at
     (\<lambda>len. if len < 254 then mr_return len else if len = 254 then READ_INT16_at else READ_INT32_at)"

definition string_body :: "nat \<Rightarrow> bytes mem_reader" where
  "string_body len block s =
     (let (p, left_bytes) = s in
      if left_bytes < len then Some (Inl ())
      else do { bs \<leftarrow> load block p len; Some (Inr (bs, advance len s)) })"

definition READ_STRING_at :: "bytes mem_reader" where
  "READ_STRING_at = mr_bind READ_LENGTH_at (\<lambda>len. string_body (unat len))"

definition READ_ENUM_at :: "(32 word \<Rightarrow> 'e) \<Rightarrow> 'e mem_reader" where
  "READ_ENUM_at enum_type = mr_bind READ_INT32V_at (\<lambda>v. mr_return (enum_type v))"

primrec read_n_at :: "'a mem_reader \<Rightarrow> nat \<Rightarrow> 'a list mem_reader" where
  "read_n_at read_func 0 = mr_return []"
| "read_n_at read_func (Suc n) = mr_bind read_func (\<lambda>v. mr_bind (read_n_at read_func n) (\<lambda>vs. mr_return (v # vs)))"

definition READ_LIST_at :: "'a mem_reader \<Rightarrow> 'a list mem_reader" where
  "READ_LIST_at read_func = mr_bind READ_LENGTH_at (\<lambda>len. read_n_at read_func (unat len))"

text \<open>
  In \<open>READ_ENUM_LIST\<close> the element is called \<open>v\<close>, as is the variable that \<open>READ_ENUM\<close> declares inside: the number
  read is assigned to the inner one, and the element is pushed without ever having been set, which is undefined.
\<close>

definition READ_ENUM_LIST_at :: "'e list mem_reader" where
  "READ_ENUM_LIST_at = mr_bind READ_LENGTH_at
     (\<lambda>len. if unat len = 0 then mr_return [] else mr_bind READ_INT32V_at (\<lambda>v block s. None))"

text \<open>
  A struct brings its own \<open>decode\<close>, a virtual function of \<open>BaseStruct\<close>: given the memory, \<open>p\<close> and \<open>left_bytes\<close> it returns the
  value and an \<open>int\<close>, or reads outside of the block. Any number but -1 moves the cursor, which is then where that
  number says.
\<close>

definition READ_STRUCT_at :: "(bytes \<Rightarrow> stream \<Rightarrow> ('s \<times> int) option) \<Rightarrow> 's mem_reader" where
  "READ_STRUCT_at decode block s =
     do { (var, struct_size) \<leftarrow> decode block s;
          if struct_size = -1 then Some (Inl ())
          else Some (Inr (var, (fst s + struct_size, nat ((int (snd s) - struct_size) mod int sz_max)))) }"

subsection \<open>What stays inside\<close>

text \<open>
  \<open>placed p n\<close> turns the result of a function on the \<open>n\<close> bytes behind position \<open>p\<close> into that of a macro: the value, and the cursor
  moved over the bytes that were used. The locale says of a macro that, wherever its cursor and its \<open>left_bytes\<close> are
  within the block, it is such a function.
\<close>

definition placed :: "nat \<Rightarrow> nat \<Rightarrow> ('a \<times> bytes) option \<Rightarrow> unit + 'a \<times> stream" where
  "placed p n res = (case res of None \<Rightarrow> Inl () | Some (v, rest) \<Rightarrow> Inr (v, (int (p + (n - length rest)), length rest)))"

locale memory_reader =
  fixes mrd :: "'a mem_reader" and rd :: "'a reader"
  assumes reads: "p + n \<le> length block \<Longrightarrow> n < sz_max \<Longrightarrow>
      mrd block (int p, n) = Some (placed p n (rd (take n (drop p block))))"
    and suffix: "rd bs = Some (v, rest) \<Longrightarrow> \<exists>used. bs = used @ rest"

lemma rest_inside:
  assumes "take n (drop p block) = used @ rest" and "p + n \<le> length block"
  shows "length rest \<le> n" "rest = take (length rest) (drop (p + (n - length rest)) block)"
    "p + (n - length rest) + length rest = p + n"
proof -
  have "length (used @ rest) = n" using assms by (metis length_take length_drop min_absorb2 le_diff_conv2 add_leD1 add.commute)
  then have n: "length used + length rest = n" by simp
  then show "length rest \<le> n" "p + (n - length rest) + length rest = p + n" by simp_all
  have "rest = drop (length used) (take n (drop p block))" using assms(1) by simp
  also have "\<dots> = take (n - length used) (drop (length used) (drop p block))" by (rule drop_take)
  also have "\<dots> = take (length rest) (drop (p + (n - length rest)) block)"
  proof -
    have "n - length used = length rest" "n - length rest = length used" using n by simp_all
    then show ?thesis by (simp add: add.commute)
  qed
  finally show "rest = take (length rest) (drop (p + (n - length rest)) block)" .
qed

lemma bind_reads:
  assumes m: "memory_reader m r" and f: "\<And>v. memory_reader (f v) (g v)"
  shows "memory_reader (mr_bind m f) (\<lambda>bs. do { (v, bs1) \<leftarrow> r bs; g v bs1 })"
proof (unfold_locales, goal_cases)
  case (1 p n block)
  let ?bs = "take n (drop p block)"
  show ?case
  proof (cases "r ?bs")
    case None
    then show ?thesis using memory_reader.reads [OF m 1] by (simp add: mr_bind_def placed_def)
  next
    case (Some x)
    then obtain v rest where r: "r ?bs = Some (v, rest)" by (cases x) auto
    obtain used where "?bs = used @ rest" using memory_reader.suffix [OF m r] by blast
    note inside = rest_inside [OF this 1(1)]
    let ?p = "p + (n - length rest)"
    have "mr_bind m f block (int p, n) = f v block (int ?p, length rest)"
      using memory_reader.reads [OF m 1] by (simp add: mr_bind_def placed_def r)
    also have "\<dots> = Some (placed ?p (length rest) (g v rest))"
      using memory_reader.reads [OF f, of ?p "length rest" block v] inside 1 by simp
    also have "placed ?p (length rest) (g v rest) = placed p n (g v rest)"
    proof (cases "g v rest")
      case (Some y)
      obtain w rest' where y: "y = (w, rest')" by (cases y)
      then have "length rest' \<le> length rest" using memory_reader.suffix [OF f, of v rest w rest'] Some by auto
      then show ?thesis using Some y inside(1) by (simp add: placed_def)
    qed (simp add: placed_def)
    finally show ?thesis using r by simp
  qed
next
  case (2 bs w rest)
  then obtain v bs1 where "r bs = Some (v, bs1)" "g v bs1 = Some (w, rest)" by (auto split: Option.bind_splits)
  then show ?case using memory_reader.suffix [OF m] memory_reader.suffix [OF f] by (metis append.assoc)
qed

lemma return_reads: "memory_reader (mr_return v) (\<lambda>bs. Some (v, bs))"
proof (unfold_locales, goal_cases)
  case (1 p n block)
  then have "min (length block - p) n = n" by simp
  then show ?case by (simp add: mr_return_def placed_def)
qed simp

lemma fixed_reads:
  assumes "\<And>block p left_bytes. m block (p, left_bytes) = (if left_bytes < k then Some (Inl ())
      else do { bs \<leftarrow> load block p k; Some (Inr (h bs, advance k (p, left_bytes))) })"
    and "\<And>bs. r bs = (if length bs < k then None else Some (h (take k bs), drop k bs))"
  shows "memory_reader m r"
proof (unfold_locales, goal_cases)
  case (1 p n block)
  then have "length (take n (drop p block)) = n" by simp
  then show ?case using 1 by (auto simp: assms load_def mem_read_def advance_def placed_def sz_sub_le min_absorb1)
next
  case (2 bs v rest)
  then have "rest = drop k bs" by (auto simp: assms(2) split: if_splits)
  then show ?case by (metis append_take_drop_id)
qed

interpretation int8_at: memory_reader READ_INT8_at READ_INT8
  by (rule fixed_reads [where k = 1 and h = "\<lambda>bs. ucast (bs ! 0)"]) (auto simp: READ_INT8_at_def READ_INT8_def)

interpretation int16_at: memory_reader READ_INT16_at READ_INT16
  by (rule fixed_reads [where k = 2 and h = "\<lambda>bs. ucast (bs ! 1) OR push_bit 8 (ucast (bs ! 0))"])
    (auto simp: READ_INT16_at_def READ_INT16_def)

interpretation int32_at: memory_reader READ_INT32_at READ_INT32
  by (rule fixed_reads [where k = 4 and h = "\<lambda>bs. ucast (bs ! 3) OR push_bit 8 (ucast (bs ! 2)) OR push_bit 16 (ucast (bs ! 1))
      OR push_bit 24 (ucast (bs ! 0))"]) (auto simp: READ_INT32_at_def READ_INT32_def)

interpretation int64_at: memory_reader READ_INT64_at READ_INT64
  by (rule fixed_reads [where k = 8 and h = "\<lambda>bs. ucast (bs ! 7) OR push_bit 8 (ucast (bs ! 6)) OR push_bit 16 (ucast (bs ! 5))
      OR push_bit 24 (ucast (bs ! 4)) OR push_bit 32 (ucast (bs ! 3)) OR push_bit 40 (ucast (bs ! 2))
      OR push_bit 48 (ucast (bs ! 1)) OR push_bit 56 (ucast (bs ! 0))"]) (auto simp: READ_INT64_at_def READ_INT64_def)

lemma if_reads: "memory_reader m r \<Longrightarrow> memory_reader m' r' \<Longrightarrow> memory_reader (if b then m else m') (\<lambda>bs. if b then r bs else r' bs)"
  by (cases b) (simp_all add: memory_reader_def)

lemmas reads_intros = bind_reads return_reads if_reads int8_at.memory_reader_axioms int16_at.memory_reader_axioms
  int32_at.memory_reader_axioms int64_at.memory_reader_axioms

interpretation int16v_at: memory_reader READ_INT16V_at READ_INT16V
  unfolding READ_INT16V_at_def READ_INT16V_def [abs_def] by (intro reads_intros)

interpretation int32v_at: memory_reader READ_INT32V_at READ_INT32V
  unfolding READ_INT32V_at_def READ_INT32V_def [abs_def] by (intro reads_intros)

interpretation int64v_at: memory_reader READ_INT64V_at READ_INT64V
  unfolding READ_INT64V_at_def READ_INT64V_def [abs_def] by (intro reads_intros)

interpretation length_at: memory_reader READ_LENGTH_at READ_LENGTH
  unfolding READ_LENGTH_at_def READ_LENGTH_def [abs_def] by (intro reads_intros)

interpretation string_at: memory_reader READ_STRING_at READ_STRING
  unfolding READ_STRING_at_def READ_STRING_def [abs_def]
proof (intro bind_reads length_at.memory_reader_axioms)
  fix len :: "64 word"
  show "memory_reader (string_body (unat len))
      (\<lambda>bs. if length bs < unat len then None else Some (take (unat len) bs, drop (unat len) bs))"
    by (rule fixed_reads [where k = "unat len" and h = "\<lambda>bs. bs"]) (auto simp: string_body_def)
qed

lemma enum_reads: "memory_reader (READ_ENUM_at enum_type) (READ_ENUM enum_type)"
  unfolding READ_ENUM_at_def READ_ENUM_def [abs_def] by (intro reads_intros int32v_at.memory_reader_axioms)

context memory_reader
begin

lemma read_n_reads: "memory_reader (read_n_at mrd n) (read_n rd n)"
proof (induction n)
  case (Suc n)
  show ?case
    unfolding read_n_at.simps read_n.simps(2) [abs_def]
    by (intro bind_reads return_reads memory_reader_axioms Suc.IH)
qed (simp add: return_reads [of "[]", unfolded mr_return_def] mr_return_def [abs_def] read_n.simps(1) [abs_def])

lemma list_reads: "memory_reader (READ_LIST_at mrd) (READ_LIST rd)"
  unfolding READ_LIST_at_def READ_LIST_def [abs_def] by (intro bind_reads length_at.memory_reader_axioms read_n_reads)

text \<open>No load outside, and the cursor and \<open>left_bytes\<close> move together, forward and not past the end.\<close>

lemma stays_inside:
  assumes "p + n \<le> length block" and "n < sz_max"
  shows "\<exists>res. mrd block (int p, n) = Some res
    \<and> (case res of Inl u \<Rightarrow> True | Inr (v, p', n') \<Rightarrow> int p \<le> p' \<and> p' + int n' = int (p + n))"
proof (cases "rd (take n (drop p block))")
  case None
  then show ?thesis using reads [OF assms] by (simp add: placed_def)
next
  case (Some x)
  then obtain v rest where r: "rd (take n (drop p block)) = Some (v, rest)" by (cases x) auto
  then obtain used where "take n (drop p block) = used @ rest" using suffix by blast
  from rest_inside [OF this assms(1)] show ?thesis using reads [OF assms] by (simp add: placed_def r)
qed

end

interpretation strings_at: memory_reader "READ_LIST_at READ_STRING_at" "READ_LIST READ_STRING"
  by (rule string_at.list_reads)

subsection \<open>What does not\<close>

text \<open>
  A struct whose \<open>decode\<close> keeps to the contract - it touches only the bytes it is given and returns -1 or the number of them
  it used - stays inside as well; one that returns another number does not: after -2 the cursor is before where it was
  and \<open>left_bytes\<close> reaches past the end.
\<close>

lemma struct_stays_inside:
  assumes "decode block (int p, n) = Some (v, struct_size)" and "struct_size = -1 \<or> 0 \<le> struct_size \<and> struct_size \<le> int n" and "n < sz_max"
  shows "READ_STRUCT_at decode block (int p, n)
    = Some (if struct_size = -1 then Inl () else Inr (v, (int (p + nat struct_size), n - nat struct_size)))"
proof (cases "struct_size = -1")
  case False
  then have "0 \<le> int n - struct_size" "int n - struct_size < int sz_max" using assms(2,3) by auto
  then show ?thesis using assms False by (auto simp: READ_STRUCT_at_def nat_diff_distrib)
qed (simp add: READ_STRUCT_at_def assms(1))

lemma struct_leaves:
  assumes "n + 2 < sz_max"
  shows "READ_STRUCT_at (\<lambda>_ _. Some (v, -2)) block (int p, n) = Some (Inr (v, (int p - 2, n + 2)))"
  using assms by (simp add: READ_STRUCT_at_def nat_add_distrib zmod_trivial_iff)

lemma enum_list_gives_no_element: "READ_ENUM_LIST_at block s = Some (Inr (vs, s')) \<Longrightarrow> vs = []"
  by (auto simp: READ_ENUM_LIST_at_def mr_bind_def mr_return_def split: option.splits sum.splits if_splits)

subsection \<open>Properties\<close>

text \<open>
  C18: the readers stay within their input. When the cursor and \<open>left_bytes\<close> lie within a block of memory, then on whatever bytes
  it holds, hostile ones included, the readers of integers, strings and lists of strings never load a byte outside of it,
  nor one of it that is not theirs: they give exactly what they would give on the \<open>left_bytes\<close> bytes alone, and leave
  the cursor and \<open>left_bytes\<close> within the same range, moved forward. The length a string or a list claims does not matter.
\<close>
theorem readers_stay_inside:
  assumes "p + n \<le> length block" and "n < sz_max"
  shows "READ_INT16V_at block (int p, n) = Some (placed p n (READ_INT16V (take n (drop p block))))
    \<and> READ_INT32V_at block (int p, n) = Some (placed p n (READ_INT32V (take n (drop p block))))
    \<and> READ_INT64V_at block (int p, n) = Some (placed p n (READ_INT64V (take n (drop p block))))
    \<and> READ_STRING_at block (int p, n) = Some (placed p n (READ_STRING (take n (drop p block))))
    \<and> READ_LIST_at READ_STRING_at block (int p, n) = Some (placed p n (READ_LIST READ_STRING (take n (drop p block))))
    \<and> (\<forall>vs p' n'. READ_LIST_at READ_STRING_at block (int p, n) = Some (Inr (vs, (p', n'))) \<longrightarrow> int p \<le> p' \<and> p' + int n' = int (p + n))"
proof -
  have "int p \<le> p' \<and> p' + int n' = int (p + n)"
    if "READ_LIST_at READ_STRING_at block (int p, n) = Some (Inr (vs, (p', n')))" for vs p' n'
    using strings_at.stays_inside [OF assms] that by auto
  then show ?thesis
    using int16v_at.reads [OF assms] int32v_at.reads [OF assms] int64v_at.reads [OF assms] string_at.reads [OF assms]
      strings_at.reads [OF assms] by blast
qed

theorem readers_stay_inside_witness:
  "READ_STRING_at [77, 3, 1, 2, 9, 5, 88] (1, 5) = Some (Inr ([1, 2, 9], (5, 1)))
   \<and> READ_STRING_at [77, 3, 1, 2, 9, 5, 88] (1, 3) = Some (Inl ())
   \<and> READ_LIST_at READ_STRING_at [2, 1, 7, 250, 9] (0, 5) = Some (Inl ())"
proof -
  let ?b = "[77, 3, 1, 2, 9, 5, 88] :: bytes" and ?c = "[2, 1, 7, 250, 9] :: bytes"
  have 1: "placed 1 5 (READ_STRING (take 5 (drop 1 ?b))) = Inr ([1, 2, 9], (5, 1))"
    and 2: "placed 1 3 (READ_STRING (take 3 (drop 1 ?b))) = Inl ()"
    and 3: "placed 0 5 (READ_LIST READ_STRING (take 5 (drop 0 ?c))) = Inl ()"
    by code_simp+
  have "READ_STRING_at ?b (int 1, 5) = Some (Inr ([1, 2, 9], (5, 1)))"
    using readers_stay_inside [of 1 5 ?b] 1 by (simp add: sz_max_def)
  moreover have "READ_STRING_at ?b (int 1, 3) = Some (Inl ())"
    using readers_stay_inside [of 1 3 ?b] 2 by (simp add: sz_max_def)
  moreover have "READ_LIST_at READ_STRING_at ?c (int 0, 5) = Some (Inl ())"
    using readers_stay_inside [of 0 5 ?c] 3 by (simp add: sz_max_def)
  ultimately show ?thesis by simp
qed

end
