(* ===== verification/Net_Ids.thy ===== *)
theory Net_Ids
  imports Zb_Prelude
begin

text \<open>
  Identifiers of the network layer (\<open>net/net_id.h\<close>, \<open>net_id.cc\<close>, \<open>net/socket_id_allocator.h\<close>,
  \<open>protocol/net_command.h\<close>, \<open>net_command.cc\<close>) and the descriptor set of the select back end
  (\<open>net/fd_set.h\<close>, \<open>fd_set.cc\<close>, the branch for systems other than Windows).

  A socket id carries a 32 bit counter in its upper half and the descriptor in its lower half; the
  counter is a word, so that its wrap-around and the reset to 0 are those of the code.
\<close>

subsection \<open>\<open>NetId\<close>\<close>

record net_id =
  reactor_id :: int
  socket_id :: int

definition NetId :: net_id where
  "NetId = \<lparr>reactor_id = -1, socket_id = -1\<rparr>"

definition net_id_reset :: "net_id \<Rightarrow> net_id" where
  "net_id_reset n = n\<lparr>socket_id := -1, reactor_id := -1\<rparr>"

definition net_id_assign :: "net_id \<Rightarrow> net_id \<Rightarrow> net_id" where
  "net_id_assign this other = this\<lparr>reactor_id := reactor_id other, socket_id := socket_id other\<rparr>"

definition net_id_eq :: "net_id \<Rightarrow> net_id \<Rightarrow> bool" where
  "net_id_eq this other \<longleftrightarrow> reactor_id this = reactor_id other \<and> socket_id this = socket_id other"

definition isInvalid :: "net_id \<Rightarrow> bool" where
  "isInvalid n \<longleftrightarrow> reactor_id n = -1 \<or> socket_id n = -1"

definition net_id_hash :: "net_id \<Rightarrow> 64 word" where
  "net_id_hash n = word_of_int (socket_id n)"

subsection \<open>Commands\<close>

datatype command_type = NEW | MESSAGE | ENABLE_BROADCAST | DISABLE_BROADCAST | BROADCAST | CLOSE

record 'm net_command =
  cmd_type :: command_type
  cmd_id :: net_id
  cmd_message_id :: int
  cmd_message :: "'m option"

definition NetCommand :: "command_type \<Rightarrow> 'm net_command" where
  "NetCommand typ = \<lparr>cmd_type = typ, cmd_id = NetId, cmd_message_id = 0, cmd_message = None\<rparr>"

subsection \<open>\<open>SocketIdAllocator\<close>\<close>

definition socket_nextId :: "32 word \<Rightarrow> 32 word \<Rightarrow> 64 word \<times> 32 word" where
  "socket_nextId fd v =
     (let v1 = v + 1; v2 = (if v1 <s 0 then 0 else v1)
      in (push_bit 32 (scast v2) + scast fd, v2))"

text \<open>The ids given to a sequence of descriptors.\<close>

primrec socket_ids :: "32 word list \<Rightarrow> 32 word \<Rightarrow> 64 word list \<times> 32 word" where
  "socket_ids [] v = ([], v)"
| "socket_ids (fd # fds) v =
     (let (i, v1) = socket_nextId fd v; (is, v2) = socket_ids fds v1 in (i # is, v2))"

subsection \<open>\<open>FDSet\<close>\<close>

text \<open>
  The set is a block of \<open>fd_size\<close> bytes used as a bit map. \<open>add\<close> is guarded by \<open>max_sock_fd_\<close>;
  \<open>del\<close> and \<open>has\<close> address the bit of any descriptor, and outside of the block the model stops.
\<close>

record fdset =
  fs_bits :: "bool list"
  fs_max_sock_fd :: int

definition fds_create :: "int \<Rightarrow> fdset" where
  "fds_create max_fd_count =
     (let nSocketNum = (if max_fd_count < 30000 then 30000 else max_fd_count);
          fd_size = cdiv nSocketNum 8 + 1
      in \<lparr>fs_bits = replicate (nat (8 * fd_size)) False, fs_max_sock_fd = nSocketNum\<rparr>)"

definition bit_set :: "int \<Rightarrow> bool \<Rightarrow> fdset \<Rightarrow> fdset option" where
  "bit_set fd v s =
     (if fd < 0 \<or> int (length (fs_bits s)) \<le> fd then None
      else Some (s\<lparr>fs_bits := (fs_bits s)[nat fd := v]\<rparr>))"

definition fds_add :: "int \<Rightarrow> fdset \<Rightarrow> fdset option" where
  "fds_add fd s = (if fd < fs_max_sock_fd s then bit_set fd True s else Some s)"

definition fds_del :: "int \<Rightarrow> fdset \<Rightarrow> fdset option" where
  "fds_del fd s = bit_set fd False s"

definition fds_zero :: "fdset \<Rightarrow> fdset" where
  "fds_zero s = s\<lparr>fs_bits := replicate (length (fs_bits s)) False\<rparr>"

definition fds_has :: "int \<Rightarrow> fdset \<Rightarrow> bool option" where
  "fds_has fd s =
     (if fd < 0 \<or> int (length (fs_bits s)) \<le> fd then None else Some (fs_bits s ! nat fd))"

definition fds_copy :: "fdset \<Rightarrow> fdset \<Rightarrow> fdset option" where
  "fds_copy s other =
     do { bits \<leftarrow> (if length (fs_bits other) \<le> length (fs_bits s)
                   then Some (fs_bits other @ drop (length (fs_bits other)) (fs_bits s)) else None);
          Some (s\<lparr>fs_bits := bits\<rparr>) }"

definition fds_ok :: "fdset \<Rightarrow> bool" where
  "fds_ok s \<longleftrightarrow> fs_max_sock_fd s \<le> int (length (fs_bits s))"

definition members :: "fdset \<Rightarrow> int set" where
  "members s = {fd. 0 \<le> fd \<and> nat fd < length (fs_bits s) \<and> fs_bits s ! nat fd}"

subsection \<open>Lemmas\<close>

lemma fds_create_ok: "fds_ok (fds_create n) \<and> members (fds_create n) = {}
    \<and> fs_max_sock_fd (fds_create n) = max 30000 n"
proof -
  let ?n = "if n < 30000 then 30000 else n"
  have "cdiv ?n 8 = ?n div 8" by (rule cdiv_nonneg) auto
  moreover have "?n \<le> 8 * (?n div 8 + 1)" by presburger
  ultimately show ?thesis
    by (auto simp: fds_create_def fds_ok_def members_def Let_def)
qed

lemma members_update:
  "nat fd < length (fs_bits s) \<Longrightarrow> 0 \<le> fd \<Longrightarrow>
   members (s\<lparr>fs_bits := (fs_bits s)[nat fd := v]\<rparr>) = (if v then insert fd (members s) else members s - {fd})"
  by (auto simp: members_def nth_list_update split: if_splits)

lemma fds_add_ok:
  assumes "fds_ok s" and "0 \<le> fd"
  shows "\<exists>s'. fds_add fd s = Some s' \<and> fds_ok s' \<and> fs_max_sock_fd s' = fs_max_sock_fd s
    \<and> members s' = (if fd < fs_max_sock_fd s then insert fd (members s) else members s)"
  using assms members_update [of fd s True] by (auto simp: fds_add_def bit_set_def fds_ok_def)

lemma fds_del_ok:
  assumes "fds_ok s" and "0 \<le> fd" and "fd < fs_max_sock_fd s"
  shows "\<exists>s'. fds_del fd s = Some s' \<and> fds_ok s' \<and> fs_max_sock_fd s' = fs_max_sock_fd s
    \<and> members s' = members s - {fd}"
  using assms members_update [of fd s False] by (auto simp: fds_del_def bit_set_def fds_ok_def)

lemma fds_has_ok: "fds_ok s \<Longrightarrow> 0 \<le> fd \<Longrightarrow> fd < fs_max_sock_fd s \<Longrightarrow> fds_has fd s = Some (fd \<in> members s)"
  by (auto simp: fds_has_def fds_ok_def members_def)

lemma fds_zero_ok: "fds_ok s \<Longrightarrow> fds_ok (fds_zero s) \<and> members (fds_zero s) = {}
    \<and> fs_max_sock_fd (fds_zero s) = fs_max_sock_fd s"
  by (auto simp: fds_zero_def fds_ok_def members_def)

lemma fds_copy_ok:
  assumes "fds_ok s" and "length (fs_bits other) = length (fs_bits s)"
  shows "\<exists>s'. fds_copy s other = Some s' \<and> fds_ok s' \<and> members s' = members other
    \<and> fs_max_sock_fd s' = fs_max_sock_fd s"
  using assms by (auto simp: fds_copy_def fds_ok_def members_def)

subsection \<open>Properties\<close>

text \<open>
  \<open>FDSet\<close> is a set of descriptors. After any \<open>create\<close>, adding a non-negative descriptor keeps the
  set well formed and inserts it when it is below the maximum (at least 30000) and is ignored above; deleting
  one below the maximum removes it; \<open>has\<close> answers membership and \<open>zero\<close> empties the set; none of these leaves
  the block.
\<close>
theorem fdset_is_a_set:
  assumes "fds_ok s" and "0 \<le> fd" and "fd < fs_max_sock_fd s"
  shows "\<exists>added deleted. fds_add fd s = Some added \<and> members added = insert fd (members s)
    \<and> fds_del fd s = Some deleted \<and> members deleted = members s - {fd}
    \<and> fds_has fd s = Some (fd \<in> members s) \<and> fds_has fd added = Some True \<and> fds_has fd deleted = Some False
    \<and> members (fds_zero s) = {} \<and> fds_ok added \<and> fds_ok deleted \<and> fds_ok (fds_zero s)
    \<and> fds_ok (fds_create n) \<and> members (fds_create n) = {} \<and> fds_add (fs_max_sock_fd s + k) s =
        (if 0 \<le> k then Some s else fds_add (fs_max_sock_fd s + k) s)"
proof -
  obtain a where a: "fds_add fd s = Some a" "fds_ok a" "fs_max_sock_fd a = fs_max_sock_fd s"
    "members a = insert fd (members s)" using fds_add_ok [OF assms(1,2)] assms(3) by auto
  obtain d where d: "fds_del fd s = Some d" "fds_ok d" "fs_max_sock_fd d = fs_max_sock_fd s"
    "members d = members s - {fd}" using fds_del_ok [OF assms] by auto
  show ?thesis
    using a d fds_has_ok [OF assms] fds_has_ok [OF a(2) assms(2)] fds_has_ok [OF d(2) assms(2)] assms(3)
      fds_zero_ok [OF assms(1)] fds_create_ok [of n]
    by (intro exI [of _ a] exI [of _ d]) (auto simp: fds_add_def)
qed

theorem fdset_is_a_set_witness:
  "\<exists>added deleted. fds_add 17 (fds_create 5) = Some added \<and> members added = insert 17 (members (fds_create 5))
    \<and> fds_del 17 (fds_create 5) = Some deleted \<and> members deleted = members (fds_create 5) - {17}
    \<and> fds_has 17 (fds_create 5) = Some (17 \<in> members (fds_create 5)) \<and> fds_has 17 added = Some True
    \<and> fds_has 17 deleted = Some False
    \<and> members (fds_zero (fds_create 5)) = {} \<and> fds_ok added \<and> fds_ok deleted \<and> fds_ok (fds_zero (fds_create 5))
    \<and> fds_ok (fds_create 7) \<and> members (fds_create 7) = {} \<and> fds_add (fs_max_sock_fd (fds_create 5) + 3) (fds_create 5) =
        (if (0 :: int) \<le> 3 then Some (fds_create 5) else fds_add (fs_max_sock_fd (fds_create 5) + 3) (fds_create 5))"
  by (rule fdset_is_a_set) (simp_all add: fds_create_ok)

lemma sint_small_32: "unat (w :: 32 word) < 2 ^ 31 \<Longrightarrow> sint w = int (unat w)"
proof -
  assume "unat w < 2 ^ 31"
  then have "int (unat w) < int (2 ^ 31)" by (simp only: of_nat_less_iff)
  then have "uint w < 2 ^ 31" by (simp only: uint_nat of_nat_power of_nat_numeral)
  moreover have "0 \<le> uint w" by simp
  ultimately have "signed_take_bit 31 (uint w) = uint w" by (intro signed_take_bit_int_eq_self) linarith+
  then show ?thesis by (simp add: sint_uint uint_nat [symmetric])
qed

lemma unat_scast_32_64: "unat (w :: 32 word) < 2 ^ 31 \<Longrightarrow> unat (scast w :: 64 word) = unat w"
proof -
  assume a: "unat w < 2 ^ 31"
  have "(scast w :: 64 word) = word_of_int (sint w)" by (rule scast_eq)
  also have "\<dots> = word_of_nat (unat w)" by (simp only: sint_small_32 [OF a] of_int_of_nat_eq)
  finally have "(scast w :: 64 word) = word_of_nat (unat w)" .
  then have "unat (scast w :: 64 word) = unat w mod 2 ^ 64" by (simp only: unat_of_nat) simp
  then show ?thesis using a by simp
qed

lemma sless_zero_32: "(w :: 32 word) <s 0 \<longleftrightarrow> 2 ^ 31 \<le> unat w"
proof (cases "2 ^ 31 \<le> unat w")
  case True
  have "int (2 ^ 31) \<le> int (unat w)" using True by (simp only: of_nat_le_iff)
  then have "2 ^ 31 \<le> uint w" by (simp only: uint_nat of_nat_power of_nat_numeral)
  then have "sint w \<le> uint w - 2 ^ 32"
    using signed_take_bit_int_less_eq [of 31 "uint w"] by (simp add: sint_uint)
  moreover have "uint w < 2 ^ 32" using uint_lt2p [of w] by simp
  ultimately show ?thesis using True by (simp add: word_sless_alt)
next
  case False
  then show ?thesis using sint_small_32 [of w] by (simp add: word_sless_alt)
qed

lemma socket_nextId_value:
  assumes v: "unat v < 2 ^ 31" and fd: "unat fd < 2 ^ 31"
  defines "n \<equiv> (unat v + 1) mod 2 ^ 31"
  shows "unat (snd (socket_nextId fd v)) = n" "unat (fst (socket_nextId fd v)) = n * 2 ^ 32 + unat fd"
proof -
  have u1: "unat (v + 1) = unat v + 1" using v by (simp add: unat_word_ariths)
  let ?v2 = "if v + 1 <s 0 then 0 else v + 1"
  have "unat v + 1 = 2 ^ 31 \<or> unat v + 1 < 2 ^ 31" using v by auto
  then have n: "unat ?v2 = n" using u1 by (auto simp: sless_zero_32 n_def)
  have nlt: "n < 2 ^ 31" by (simp add: n_def)
  have s: "unat (scast ?v2 :: 64 word) = n" "unat (scast fd :: 64 word) = unat fd"
    using unat_scast_32_64 [of ?v2] unat_scast_32_64 [of fd] n nlt fd by auto
  have "unat (push_bit 32 (scast ?v2 :: 64 word)) = n * 2 ^ 32"
    using nlt by (simp only: unsigned_push_bit_eq s(1)) (simp add: push_bit_eq_mult take_bit_nat_eq_self)
  then have "unat (push_bit 32 (scast ?v2) + scast fd :: 64 word) = n * 2 ^ 32 + unat fd"
    using s(2) nlt fd by (subst unat_add_lem [THEN iffD1]) simp_all
  then show "unat (snd (socket_nextId fd v)) = n" "unat (fst (socket_nextId fd v)) = n * 2 ^ 32 + unat fd"
    using n by (simp_all add: socket_nextId_def Let_def)
qed

text \<open>The counter and the descriptor read back off a list of ids.\<close>

lemma socket_ids_values:
  assumes "unat v < 2 ^ 31" and "\<forall>fd\<in>set fds. unat fd < 2 ^ 31"
  shows "length (fst (socket_ids fds v)) = length fds
    \<and> (\<forall>k < length fds. unat (fst (socket_ids fds v) ! k) = ((unat v + k + 1) mod 2 ^ 31) * 2 ^ 32 + unat (fds ! k))"
  using assms
proof (induction fds arbitrary: v)
  case (Cons fd fds)
  obtain i w where iw: "socket_nextId fd v = (i, w)" by (cases "socket_nextId fd v")
  then have w: "unat w = (unat v + 1) mod 2 ^ 31" "unat i = ((unat v + 1) mod 2 ^ 31) * 2 ^ 32 + unat fd"
    using socket_nextId_value [of v fd] Cons.prems by auto
  obtain js w2 where js: "socket_ids fds w = (js, w2)" by (cases "socket_ids fds w")
  have "unat w < 2 ^ 31" using w(1) by simp
  with Cons.IH [of w] Cons.prems js have IH: "length js = length fds"
    "\<And>k. k < length fds \<Longrightarrow> unat (js ! k) = ((unat w + k + 1) mod 2 ^ 31) * 2 ^ 32 + unat (fds ! k)" by auto
  have "(unat w + k + 1) mod 2 ^ 31 = (unat v + Suc k + 1) mod 2 ^ 31" for k
  proof -
    have "(unat w + k + 1) mod 2 ^ 31 = ((unat v + 1) mod 2 ^ 31 + (k + 1)) mod 2 ^ 31" by (simp add: w(1))
    also have "\<dots> = (unat v + 1 + (k + 1)) mod 2 ^ 31" by (rule mod_add_left_eq)
    finally show ?thesis by simp
  qed
  then show ?case using IH w(2) iw js by (auto simp: nth_Cons less_Suc_eq_0_disj split: nat.split)
qed simp

text \<open>
  Socket ids are unique over the life of a counter. Any run of at most \<open>2^31\<close> allocations for
  descriptors in the range of a non-negative \<open>int\<close>, from any non-negative counter and across its wrap to 0, gives
  pairwise distinct ids, each non-negative as an \<open>int64_t\<close>, with the descriptor in the lower 32 bits.
\<close>
theorem socket_ids_unique:
  assumes "unat v < 2 ^ 31" and "\<forall>fd\<in>set fds. unat fd < 2 ^ 31" and "length fds \<le> 2 ^ 31"
  shows "distinct (fst (socket_ids fds v))
    \<and> (\<forall>k < length fds. unat (fst (socket_ids fds v) ! k) mod 2 ^ 32 = unat (fds ! k)
                          \<and> unat (fst (socket_ids fds v) ! k) < 2 ^ 63)"
proof -
  let ?is = "fst (socket_ids fds v)"
  note vals = socket_ids_values [OF assms(1,2)]
  have fd: "unat (fds ! k) < 2 ^ 32" if "k < length fds" for k
  proof -
    have "unat (fds ! k) < 2 ^ 31" using assms(2) that by simp
    then show ?thesis by simp
  qed
  have parts: "unat (?is ! k) div 2 ^ 32 = (unat v + k + 1) mod 2 ^ 31" "unat (?is ! k) mod 2 ^ 32 = unat (fds ! k)"
    if "k < length fds" for k
    using vals fd [OF that] that by simp_all
  have "?is ! i \<noteq> ?is ! j" if ij: "i < j" "j < length fds" for i j
  proof
    assume "?is ! i = ?is ! j"
    then have "(unat v + i + 1) mod 2 ^ 31 = (unat v + j + 1) mod 2 ^ 31"
      using parts(1) [of i] parts(1) [of j] ij by simp
    then have "2 ^ 31 dvd (unat v + j + 1) - (unat v + i + 1)"
      using ij by (intro mod_eq_dvd_iff_nat [THEN iffD1]) auto
    then have "2 ^ 31 dvd j - i" using ij by (simp add: algebra_simps)
    then have "2 ^ 31 \<le> j - i" using ij by (intro dvd_imp_le) auto
    then show False using ij assms(3) by linarith
  qed
  then have "distinct ?is"
    unfolding distinct_conv_nth using vals by (metis linorder_neqE_nat)
  moreover have "unat (?is ! k) < 2 ^ 63" if "k < length fds" for k
  proof -
    have "(unat v + k + 1) mod 2 ^ 31 < 2 ^ 31" by simp
    then show ?thesis using vals fd [OF that] that by simp
  qed
  ultimately show ?thesis using parts(2) by blast
qed

theorem socket_ids_unique_witness:
  "distinct (fst (socket_ids [7, 9, 7] 0x7ffffffe))
    \<and> unat (fst (socket_ids [7, 9, 7] 0x7ffffffe) ! 2) mod 2 ^ 32 = 7"
proof -
  have "unat (0x7ffffffe :: 32 word) < 2 ^ 31" "\<forall>fd\<in>set [7, 9, 7 :: 32 word]. unat fd < 2 ^ 31"
    "length [7, 9, 7 :: 32 word] \<le> 2 ^ 31" by simp_all
  note u = socket_ids_unique [OF this]
  have "2 < length [7, 9, 7 :: 32 word]" by simp
  then have "unat (fst (socket_ids [7, 9, 7] 0x7ffffffe) ! 2) mod 2 ^ 32 = unat ([7, 9, 7 :: 32 word] ! 2)"
    using u by blast
  then show ?thesis using u by simp
qed

end
