(* ===== verification/Net_Protocol.thy ===== *)
theory Net_Protocol
  imports Dynamic_Buffer Net_Ids
begin

text \<open>
  Framing (\<open>protocol/net_protocol.h\<close>, \<open>net_protocol.cc\<close>) and the receive loop and message registry of the
  game server (\<open>GameServer::onRecvMessage\<close>, \<open>registerMessageCreateFunc\<close>, \<open>createMessageMap\<close> in
  \<open>server/game_server.cc\<close>).

  A frame is a big-endian 16 bit message id, a big-endian 16 bit length and that many bytes. The message
  classes are generated by another tool, so they are parameters: \<open>create\<close> makes an empty message for an id
  (\<open>None\<close> for the null pointer), \<open>decode\<close> fills it from bytes and returns its code, \<open>encode\<close> gives the
  bytes it stores into a space of a given size (\<open>None\<close> for a negative code).
\<close>

datatype 'm ret_code = ERR | WAITING_MORE_DATA | MESSAGE_READY int 'm

definition recvMessage ::
  "int \<Rightarrow> (int \<Rightarrow> 'm option) \<Rightarrow> ('m \<Rightarrow> bytes \<Rightarrow> 'm \<times> int) \<Rightarrow> dynamic_buffer \<Rightarrow>
     ('m ret_code \<times> dynamic_buffer) option" where
  "recvMessage max_packet_length create decode buffer =
     do { id_peek \<leftarrow> peekInt16 0 False buffer;
          case id_peek of None \<Rightarrow> Some (WAITING_MORE_DATA, buffer)
          | Some message_id \<Rightarrow> do {
              length_peek \<leftarrow> peekInt16 2 False buffer;
              case length_peek of None \<Rightarrow> Some (WAITING_MORE_DATA, buffer)
              | Some message_length \<Rightarrow>
                  if max_packet_length < int (unat message_length) + 4 then Some (ERR, buffer)
                  else if readableBytes buffer < unat message_length + 4 then Some (WAITING_MORE_DATA, buffer)
                  else case create (int (unat message_id)) of None \<Rightarrow> Some (ERR, buffer)
                  | Some message \<Rightarrow> do {
                      body \<leftarrow> mem_read (db_buffer buffer) (sz_add (readBegin buffer) 4) (unat message_length);
                      let (message, code) = decode message body;
                      if code < 0 then Some (ERR, buffer)
                      else Some (MESSAGE_READY (int (unat message_id)) message,
                                 db_read (unat message_length + 4) buffer) } } }"

definition writeMessage ::
  "('m \<Rightarrow> nat \<Rightarrow> bytes option) \<Rightarrow> int \<Rightarrow> 'm \<Rightarrow> dynamic_buffer \<Rightarrow> (bool \<times> dynamic_buffer) option" where
  "writeMessage encode message_id message buffer =
     do { b1 \<leftarrow> writeInt16 (word_of_int message_id) False (db_clear buffer);
          case encode message (sz_sub (writableBytes b1) 2) of None \<Rightarrow> Some (False, b1)
          | Some body \<Rightarrow> do {
              block \<leftarrow> mem_write (db_buffer b1) (sz_add (writeBegin b1) 2) body;
              b2 \<leftarrow> writeInt16 (word_of_nat (length body)) False (b1\<lparr>db_buffer := block\<rparr>);
              Some (True, db_write (length body) b2) } }"

subsection \<open>The receive loop of the game server\<close>

text \<open>The registry of message constructors, keyed by message id.\<close>

definition registerMessageCreateFunc ::
  "int \<Rightarrow> 'f \<Rightarrow> (int \<rightharpoonup> 'f) \<Rightarrow> bool \<times> (int \<rightharpoonup> 'f)" where
  "registerMessageCreateFunc mid create_func m =
     (if m mid \<noteq> None then (False, m) else (True, m(mid \<mapsto> create_func)))"

definition createMessageMap :: "(int \<rightharpoonup> (unit \<Rightarrow> 'm)) \<Rightarrow> int \<Rightarrow> 'm option" where
  "createMessageMap m mid = (case m mid of None \<Rightarrow> None | Some create_func \<Rightarrow> Some (create_func ()))"

text \<open>
  \<open>onRecvMessage\<close> takes every complete message out of the buffer. Its result is the commands handed to
  \<open>new_net_cmd\<close>, in order, and whether it asked the thread to close the socket.
\<close>

partial_function (option) onRecvMessage ::
  "int \<Rightarrow> (int \<Rightarrow> 'm option) \<Rightarrow> ('m \<Rightarrow> bytes \<Rightarrow> 'm \<times> int) \<Rightarrow> int \<Rightarrow> int \<Rightarrow> dynamic_buffer \<Rightarrow>
     ('m net_command list \<times> bool \<times> dynamic_buffer) option" where
  "onRecvMessage max_packet_length create decode thread_id sock_id buffer =
     (case recvMessage max_packet_length create decode buffer of None \<Rightarrow> None
      | Some (WAITING_MORE_DATA, buffer1) \<Rightarrow> Some ([], False, buffer1)
      | Some (ERR, buffer1) \<Rightarrow> Some ([], True, buffer1)
      | Some (MESSAGE_READY mid msg, buffer1) \<Rightarrow>
          Option.bind (onRecvMessage max_packet_length create decode thread_id sock_id buffer1)
            (\<lambda>(cmds, closed, buffer2).
              Some ((NetCommand MESSAGE)\<lparr>cmd_id := \<lparr>reactor_id = thread_id, socket_id = sock_id\<rparr>,
                      cmd_message_id := mid, cmd_message := Some msg\<rparr> # cmds, closed, buffer2)))"

subsection \<open>What the framing means on a byte stream\<close>

definition frame :: "16 word \<Rightarrow> bytes \<Rightarrow> bytes" where
  "frame mid body = word16_bytes False mid @ word16_bytes False (word_of_nat (length body)) @ body"

text \<open>
  The stream is cut into frames: the messages found, whether the stream is at fault after them, and the bytes
  that are left.
\<close>

definition frame_length :: "bytes \<Rightarrow> nat" where
  "frame_length p = unat (be_word16 (take 2 (drop 2 p)))"

definition frame_message :: "(int \<Rightarrow> 'm option) \<Rightarrow> ('m \<Rightarrow> bytes \<Rightarrow> 'm \<times> int) \<Rightarrow> bytes \<Rightarrow> (int \<times> 'm) option" where
  "frame_message create decode p =
     (let mid = int (unat (be_word16 (take 2 p))) in
      case create mid of None \<Rightarrow> None
      | Some m \<Rightarrow> (case decode m (take (frame_length p) (drop 4 p)) of
                     (m', code) \<Rightarrow> if code < 0 then None else Some (mid, m')))"

function parse_stream ::
  "int \<Rightarrow> (int \<Rightarrow> 'm option) \<Rightarrow> ('m \<Rightarrow> bytes \<Rightarrow> 'm \<times> int) \<Rightarrow> bytes \<Rightarrow> (int \<times> 'm) list \<times> bool \<times> bytes" where
  "parse_stream mx create decode p =
     (if length p < 4 then ([], False, p)
      else if mx < int (frame_length p) + 4 then ([], True, p)
      else if length p < frame_length p + 4 then ([], False, p)
      else case frame_message create decode p of None \<Rightarrow> ([], True, p)
      | Some msg \<Rightarrow> (case parse_stream mx create decode (drop (frame_length p + 4) p) of
                       (msgs, closed, rest) \<Rightarrow> (msg # msgs, closed, rest)))"
  by pat_completeness auto
termination
  by (relation "measure (\<lambda>(mx, create, decode, p). length p)") auto

declare parse_stream.simps [simp del]

definition command_of :: "int \<Rightarrow> int \<Rightarrow> int \<times> 'm \<Rightarrow> 'm net_command" where
  "command_of thread_id sock_id msg =
     (NetCommand MESSAGE)\<lparr>cmd_id := \<lparr>reactor_id = thread_id, socket_id = sock_id\<rparr>,
        cmd_message_id := fst msg, cmd_message := Some (snd msg)\<rparr>"

lemma recvMessage_eq:
  assumes ok: "buffer_ok b"
  defines "p \<equiv> content b"
  shows "recvMessage mx create decode b =
     Some (if length p < 4 then (WAITING_MORE_DATA, b)
           else if mx < int (frame_length p) + 4 then (ERR, b)
           else if length p < frame_length p + 4 then (WAITING_MORE_DATA, b)
           else case frame_message create decode p of None \<Rightarrow> (ERR, b)
           | Some (mid, m) \<Rightarrow> (MESSAGE_READY mid m, db_read (frame_length p + 4) b))"
proof -
  have lt: "length p < sz_max"
    using ok by (auto simp: p_def content_def buffer_ok_def dest: vec_max_le_sz_max)
  have mid: "peekInt16 0 False b = Some (if 2 \<le> length p then Some (be_word16 (take 2 p)) else None)"
    using peek_bytes_eq [OF ok, of 0 2] by (simp add: peekInt16_def p_def sz_max_def)
  have ln: "peekInt16 2 False b = Some (if 4 \<le> length p then Some (be_word16 (take 2 (drop 2 p))) else None)"
    using peek_bytes_eq [OF ok, of 2 2] by (simp add: peekInt16_def p_def sz_max_def)
  have body: "mem_read (db_buffer b) (sz_add (readBegin b) 4) (frame_length p)
      = Some (take (frame_length p) (drop 4 p))" if "frame_length p + 4 \<le> length p"
    using peek_bytes_eq [OF ok, of 4 "frame_length p"] that lt
    by (simp add: peek_bytes_def p_def length_content [OF ok] zb_size add.commute split: bind_splits if_splits)
  show ?thesis
  proof (cases "length p < 4")
    case True
    then show ?thesis using mid ln by (simp add: recvMessage_def)
  next
    case False
    then show ?thesis
      using mid ln body [unfolded frame_length_def] length_content [OF ok, folded p_def]
      by (auto simp: recvMessage_def frame_message_def frame_length_def Let_def add.commute
          split: option.splits prod.splits)
  qed
qed

lemma parse_stream_cases:
  "parse_stream mx create decode p =
     (if length p < 4 then ([], False, p)
      else if mx < int (frame_length p) + 4 then ([], True, p)
      else if length p < frame_length p + 4 then ([], False, p)
      else case frame_message create decode p of None \<Rightarrow> ([], True, p)
      | Some msg \<Rightarrow> (case parse_stream mx create decode (drop (frame_length p + 4) p) of
                       (msgs, closed, rest) \<Rightarrow> (msg # msgs, closed, rest)))"
  by (subst parse_stream.simps) simp

lemma onRecvMessage_refines:
  assumes "buffer_ok b" and "parse_stream mx create decode (content b) = (msgs, closed, rest)"
  shows "\<exists>b'. onRecvMessage mx create decode tid sid b = Some (map (command_of tid sid) msgs, closed, b')
    \<and> buffer_ok b' \<and> content b' = rest \<and> db_expand_size b' = db_expand_size b
    \<and> length (db_buffer b') = length (db_buffer b)"
  using assms
proof (induction "length (content b)" arbitrary: b msgs rule: less_induct)
  case less
  let ?p = "content b" and ?n = "frame_length (content b) + 4"
  note recv = recvMessage_eq [OF less.prems(1), of mx create decode]
  note parse = parse_stream_cases [of mx create decode ?p]
  show ?case
  proof (cases "length ?p < 4 \<or> mx < int (frame_length ?p) + 4 \<or> length ?p < ?n \<or> frame_message create decode ?p = None")
    case True
    then show ?thesis
      using less.prems recv parse by (subst onRecvMessage.simps) (auto split: if_splits)
  next
    case False
    then obtain i m where m: "frame_message create decode ?p = Some (i, m)" by auto
    have r: "recvMessage mx create decode b = Some (MESSAGE_READY i m, db_read ?n b)" using recv False m by auto
    obtain msgs1 where p1: "parse_stream mx create decode (drop ?n ?p) = (msgs1, closed, rest)" "msgs = (i, m) # msgs1"
      using parse False m less.prems(2) by (auto split: prod.splits)
    note b1 = db_read_ok [OF less.prems(1), of ?n]
    have "length (content (db_read ?n b)) < length ?p" using False b1(2) by auto
    from less.hyps [OF this b1(1)] p1(1) b1(2) obtain b' where
      "onRecvMessage mx create decode tid sid (db_read ?n b) = Some (map (command_of tid sid) msgs1, closed, b')"
      "buffer_ok b'" "content b' = rest" "db_expand_size b' = db_expand_size (db_read ?n b)"
      "length (db_buffer b') = length (db_buffer (db_read ?n b))" by force
    then show ?thesis
      using r p1(2) b1 by (subst onRecvMessage.simps) (simp add: command_of_def)
  qed
qed

subsection \<open>Cutting the stream into chunks\<close>

lemma frame_length_append: "4 \<le> length p \<Longrightarrow> frame_length (p @ q) = frame_length p"
  by (simp add: frame_length_def)

lemma frame_message_append:
  assumes "4 \<le> length p" and "frame_length p + 4 \<le> length p"
  shows "frame_message create decode (p @ q) = frame_message create decode p"
proof -
  have "take 2 (p @ q) = take 2 p" "take (frame_length p) (drop 4 (p @ q)) = take (frame_length p) (drop 4 p)"
    using assms by simp_all
  then show ?thesis unfolding frame_message_def frame_length_append [OF assms(1)] by presburger
qed

lemma parse_stream_append:
  "parse_stream mx create decode p = (msgs, closed, rest) \<Longrightarrow>
   parse_stream mx create decode (p @ q) =
     (if closed then (msgs, True, rest @ q)
      else case parse_stream mx create decode (rest @ q) of (msgs', closed', rest') \<Rightarrow> (msgs @ msgs', closed', rest'))"
proof (induction mx create decode p arbitrary: msgs rule: parse_stream.induct)
  case (1 mx create decode p)
  note parse = parse_stream_cases [of mx create decode p]
  note parse_q = parse_stream_cases [of mx create decode "p @ q"]
  show ?case
  proof (cases "length p < 4 \<or> (\<not> mx < int (frame_length p) + 4 \<and> length p < frame_length p + 4)")
    case True
    then have "msgs = [] \<and> \<not> closed \<and> rest = p"
      using parse [unfolded "1.prems"] by (auto split: if_splits)
    then show ?thesis by simp
  next
    case False
    then have len: "4 \<le> length p" by auto
    note fl = frame_length_append [OF len, of q]
    show ?thesis
    proof (cases "mx < int (frame_length p) + 4")
      case True
      then show ?thesis using parse parse_q "1.prems" len fl by auto
    next
      case ok: False
      with False have n: "frame_length p + 4 \<le> length p" by auto
      note fm = frame_message_append [OF len n, of create decode q]
      show ?thesis
      proof (cases "frame_message create decode p")
        case None
        then show ?thesis using parse parse_q "1.prems" len fl fm n ok by auto
      next
        case (Some m)
        obtain msgs1 where p1: "parse_stream mx create decode (drop (frame_length p + 4) p) = (msgs1, closed, rest)"
          "msgs = m # msgs1"
          using parse ok n len Some "1.prems" by (auto split: prod.splits)
        have "parse_stream mx create decode (p @ q) =
            (case parse_stream mx create decode (drop (frame_length p + 4) p @ q) of
               (ms, c, r) \<Rightarrow> (m # ms, c, r))"
          using parse_q ok n len fl fm Some by simp
        then show ?thesis
          using "1.IH" [OF _ ok _ Some p1(1)] len n p1(2) by (auto split: prod.splits)
      qed
    qed
  qed
qed

text \<open>The buffer of a connection: every arriving chunk is appended and the receive loop runs on it.\<close>

primrec receive_chunks ::
  "int \<Rightarrow> (int \<Rightarrow> 'm option) \<Rightarrow> ('m \<Rightarrow> bytes \<Rightarrow> 'm \<times> int) \<Rightarrow> int \<Rightarrow> int \<Rightarrow> bytes list \<Rightarrow> dynamic_buffer \<Rightarrow>
     ('m net_command list \<times> bool \<times> dynamic_buffer) option" where
  "receive_chunks mx create decode tid sid [] b = Some ([], False, b)"
| "receive_chunks mx create decode tid sid (c # cs) b =
     do { b1 \<leftarrow> writeBytes c b;
          (cmds, closed, b2) \<leftarrow> onRecvMessage mx create decode tid sid b1;
          if closed then Some (cmds, True, b2)
          else do { (cmds', closed', b3) \<leftarrow> receive_chunks mx create decode tid sid cs b2;
                    Some (cmds @ cmds', closed', b3) } }"

definition chunk_space :: "nat \<Rightarrow> bytes list \<Rightarrow> nat" where
  "chunk_space e cs = sum_list (map (\<lambda>c. length c + e) cs)"

lemma receive_chunks_parse:
  assumes "buffer_ok b" and "length (db_buffer b) + chunk_space (db_expand_size b) cs < vec_max"
    and "parse_stream mx create decode (content b) = ([], False, content b)"
  shows "\<exists>b' closed msgs rest. parse_stream mx create decode (content b @ concat cs) = (msgs, closed, rest)
    \<and> receive_chunks mx create decode tid sid cs b = Some (map (command_of tid sid) msgs, closed, b')
    \<and> buffer_ok b' \<and> (\<not> closed \<longrightarrow> content b' = rest)"
  using assms
proof (induction cs arbitrary: b)
  case Nil
  then show ?case by (intro exI [of _ b] exI [of _ False]) simp
next
  case (Cons c cs)
  have room: "room (length c) b" using Cons.prems(2) by (simp add: room_def chunk_space_def)
  obtain b1 where b1: "writeBytes c b = Some b1" "buffer_ok b1" "content b1 = content b @ c"
    "db_expand_size b1 = db_expand_size b" "length (db_buffer b1) \<le> length (db_buffer b) + length c + db_expand_size b"
    using append_ok [OF Cons.prems(1) room] by metis
  obtain ms cl r where p: "parse_stream mx create decode (content b1) = (ms, cl, r)" by (metis prod.exhaust)
  obtain b2 where b2: "onRecvMessage mx create decode tid sid b1 = Some (map (command_of tid sid) ms, cl, b2)"
    "buffer_ok b2" "content b2 = r" "db_expand_size b2 = db_expand_size b1" "length (db_buffer b2) = length (db_buffer b1)"
    using onRecvMessage_refines [OF b1(2) p] by blast
  have app: "parse_stream mx create decode (content b @ concat (c # cs)) =
      (if cl then (ms, True, r @ concat cs)
       else case parse_stream mx create decode (r @ concat cs) of (ms', c', r') \<Rightarrow> (ms @ ms', c', r'))"
    using parse_stream_append [OF p, of "concat cs"] b1(3) by simp
  show ?case
  proof (cases cl)
    case True
    then show ?thesis using app b1 b2 by (intro exI [of _ b2] exI [of _ True]) simp
  next
    case False
    have stable: "parse_stream mx create decode (content b2) = ([], False, content b2)"
      using parse_stream_append [OF p, of "[]"] False p b2(3) by (auto split: prod.splits)
    have space: "length (db_buffer b2) + chunk_space (db_expand_size b2) cs < vec_max"
      using Cons.prems(2) b1 b2 by (simp add: chunk_space_def)
    obtain b3 c3 ms3 r3 where "parse_stream mx create decode (content b2 @ concat cs) = (ms3, c3, r3)"
      "receive_chunks mx create decode tid sid cs b2 = Some (map (command_of tid sid) ms3, c3, b3)"
      "buffer_ok b3" "\<not> c3 \<longrightarrow> content b3 = r3"
      using Cons.IH [OF b2(2) space stable] by blast
    then show ?thesis using app b1 b2 False by simp
  qed
qed

subsection \<open>Writing a frame\<close>

lemma store_here:
  assumes "db_write_index b + length bs \<le> length (db_buffer b)" and "length (db_buffer b) < vec_max"
  shows "store_and_write bs b = Some (b\<lparr>db_buffer := take (db_write_index b) (db_buffer b) @ bs
      @ drop (db_write_index b + length bs) (db_buffer b), db_write_index := db_write_index b + length bs\<rparr>)"
proof -
  have lt: "length (db_buffer b) < sz_max" using assms(2) by (rule vec_max_le_sz_max)
  have w: "writableBytes b = length (db_buffer b) - db_write_index b"
    unfolding writableBytes_def using assms lt by (intro sz_sub_le) simp_all
  then have fit: "length bs \<le> writableBytes b" using assms by simp
  have wr: "writableBytes (b\<lparr>db_buffer := take (db_write_index b) (db_buffer b) @ bs
      @ drop (db_write_index b + length bs) (db_buffer b)\<rparr>) = writableBytes b"
    unfolding writableBytes_def using assms by simp
  have "sz_add (db_write_index b) (length bs) = db_write_index b + length bs"
    using assms lt by (intro sz_add_small) simp
  then show ?thesis
    using fit wr mem_write_Some [OF assms(1)]
    by (simp add: store_and_write_def reserveWritableBytes_def writeBegin_def db_write_def min_absorb1)
qed

lemma writeMessage_ok:
  assumes ok: "buffer_ok b" and fits: "length body + 4 \<le> capacity b"
    and enc: "encode m (capacity b - 4) = Some body"
  shows "\<exists>b'. writeMessage encode mid m b = Some (True, b') \<and> buffer_ok b'
    \<and> content b' = frame (word_of_int mid) body \<and> capacity b' = capacity b \<and> db_expand_size b' = db_expand_size b"
proof -
  let ?i = "word16_bytes False (word_of_int mid)" and ?l = "word16_bytes False (word_of_nat (length body))"
  let ?buf = "db_buffer b"
  have lt: "length ?buf < vec_max" and cap: "length body + 4 \<le> length ?buf"
    using ok fits by (auto simp: buffer_ok_def capacity_def)
  let ?b1 = "b\<lparr>db_buffer := ?i @ drop 2 ?buf, db_read_index := 0, db_write_index := 2\<rparr>"
  have b1: "writeInt16 (word_of_int mid) False (db_clear b) = Some ?b1"
    using store_here [of "db_clear b" ?i] lt cap
    by (cases b) (simp add: writeInt16_def db_clear_def numeral_2_eq_2)
  have space: "sz_sub (writableBytes ?b1) 2 = capacity b - 4"
  proof -
    have "writableBytes ?b1 = length ?buf - 2"
      unfolding writableBytes_def using cap vec_max_le_sz_max [OF lt] by (simp add: sz_sub_le)
    then show ?thesis using cap vec_max_le_sz_max [OF lt] by (simp add: sz_sub_le capacity_def)
  qed
  let ?blk = "?i @ take 2 (drop 2 ?buf) @ body @ drop (4 + length body) ?buf"
  have blk: "mem_write (?i @ drop 2 ?buf) (sz_add 2 2) body = Some ?blk"
  proof -
    have "sz_add 2 2 = 4" by (simp add: sz_add_def sz_max_def)
    then show ?thesis
      using cap mem_write_Some [of 4 body "?i @ drop 2 ?buf"] by (simp add: numeral_eq_Suc)
  qed
  let ?b2 = "b\<lparr>db_buffer := ?i @ ?l @ body @ drop (4 + length body) ?buf, db_read_index := 0, db_write_index := 4\<rparr>"
  have b2: "writeInt16 (word_of_nat (length body)) False (?b1\<lparr>db_buffer := ?blk\<rparr>) = Some ?b2"
    using store_here [of "?b1\<lparr>db_buffer := ?blk\<rparr>" ?l] lt cap by (simp add: writeInt16_def)
  have "writableBytes ?b2 = length ?buf - 4"
    unfolding writableBytes_def using cap vec_max_le_sz_max [OF lt] by (simp add: sz_sub_le)
  then have wr: "db_write (length body) ?b2 = ?b2\<lparr>db_write_index := 4 + length body\<rparr>"
    using cap vec_max_le_sz_max [OF lt] by (simp add: db_write_def sz_add_small)
  have "writeMessage encode mid m b = Some (True, ?b2\<lparr>db_write_index := 4 + length body\<rparr>)"
    using b1 space enc blk b2 wr by (simp add: writeMessage_def writeBegin_def)
  moreover have "buffer_ok (?b2\<lparr>db_write_index := 4 + length body\<rparr>)"
    using ok cap by (auto simp: buffer_ok_def)
  moreover have "content (?b2\<lparr>db_write_index := 4 + length body\<rparr>) = frame (word_of_int mid) body"
    by (simp add: content_def frame_def)
  ultimately show ?thesis using cap by (auto simp: capacity_def)
qed

lemma parse_frame:
  assumes "length body < 65536" and "int (length body) + 4 \<le> mx"
    and "create (int (unat mid)) = Some m0" and "decode m0 body = (m, code)" and "0 \<le> code"
  shows "parse_stream mx create decode (frame mid body @ rest) =
    (case parse_stream mx create decode rest of (msgs, closed, r) \<Rightarrow> ((int (unat mid), m) # msgs, closed, r))"
proof -
  let ?p = "frame mid body @ rest"
  have n: "frame_length ?p = length body"
    using assms(1) by (simp add: frame_length_def frame_def unat_of_nat)
  have "frame_message create decode ?p = Some (int (unat mid), m)"
    unfolding frame_message_def n using assms(3-5) by (simp add: frame_def)
  moreover have "drop (length body + 4) ?p = rest" "length ?p = length body + 4 + length rest"
    by (simp_all add: frame_def)
  ultimately show ?thesis
    using assms(2) by (subst parse_stream_cases) (simp add: n)
qed

subsection \<open>Properties\<close>

text \<open>
  C9: the receive loop parses the stream. On any well-formed buffer \<open>onRecvMessage\<close> returns (the loop ends), hands
  out exactly the messages of the frames at the front of the readable bytes, in order and tagged with the thread and the
  socket, asks for the socket to be closed exactly when the stream is at fault (too long a frame, an
  unknown id, a decoding error), and leaves exactly the bytes behind the last message.
\<close>
theorem recv_loop_parses:
  assumes "buffer_ok b"
  shows "\<exists>b'. onRecvMessage mx create decode tid sid b =
      (case parse_stream mx create decode (content b) of (msgs, closed, rest) \<Rightarrow>
         Some (map (command_of tid sid) msgs, closed, b'))
    \<and> buffer_ok b' \<and> content b' = snd (snd (parse_stream mx create decode (content b)))"
proof -
  obtain msgs closed rest where p: "parse_stream mx create decode (content b) = (msgs, closed, rest)"
    by (metis prod.exhaust)
  from onRecvMessage_refines [OF assms p] show ?thesis using p by auto
qed

text \<open>A message class of one byte, for the examples.\<close>

definition byte_create :: "int \<Rightarrow> byte option" where
  "byte_create mid = (if mid = 7 then Some 0 else None)"

definition byte_decode :: "byte \<Rightarrow> bytes \<Rightarrow> byte \<times> int" where
  "byte_decode m bs = (case bs of [v] \<Rightarrow> (v, 1) | _ \<Rightarrow> (m, -1))"

definition byte_encode :: "byte \<Rightarrow> nat \<Rightarrow> bytes option" where
  "byte_encode m n = (if 1 \<le> n then Some [m] else None)"

definition small_buffer :: dynamic_buffer where
  "small_buffer = \<lparr>db_buffer = replicate 16 0, db_expand_size = 8, db_read_index = 0, db_write_index = 0\<rparr>"

lemma small_buffer_ok: "buffer_ok small_buffer" "content small_buffer = []" "capacity small_buffer = 16"
  by (simp_all add: small_buffer_def buffer_ok_def vec_max_def content_def capacity_def)

theorem recv_loop_parses_witness:
  "\<exists>b'. onRecvMessage 40960 byte_create byte_decode 1 2 small_buffer =
      (case parse_stream 40960 byte_create byte_decode (content small_buffer) of (msgs, closed, rest) \<Rightarrow>
         Some (map (command_of 1 2) msgs, closed, b'))
    \<and> buffer_ok b' \<and> content b' = snd (snd (parse_stream 40960 byte_create byte_decode (content small_buffer)))"
  by (rule recv_loop_parses [OF small_buffer_ok(1)])

text \<open>
  C8: segmentation does not matter. Whatever way the bytes of a stream are cut into arriving chunks, appending every
  chunk to the connection's buffer and running the receive loop after each delivers the messages of the whole stream,
  in order, and closes the connection exactly when the whole stream is at fault.
\<close>
theorem segmentation_independent:
  assumes "buffer_ok b" and "content b = []" and "length (db_buffer b) + chunk_space (db_expand_size b) cs < vec_max"
  shows "\<exists>b'. receive_chunks mx create decode tid sid cs b =
     (case parse_stream mx create decode (concat cs) of (msgs, closed, rest) \<Rightarrow>
        Some (map (command_of tid sid) msgs, closed, b'))"
proof -
  have "parse_stream mx create decode (content b) = ([], False, content b)"
    by (subst parse_stream_cases) (simp add: assms(2))
  from receive_chunks_parse [OF assms(1,3) this, of tid sid] obtain b' closed msgs rest where
    "parse_stream mx create decode (concat cs) = (msgs, closed, rest)"
    "receive_chunks mx create decode tid sid cs b = Some (map (command_of tid sid) msgs, closed, b')"
    unfolding assms(2) by auto
  then show ?thesis by simp
qed

theorem segmentation_independent_witness:
  "\<exists>b'. receive_chunks 40960 byte_create byte_decode 1 2 [[0], [7, 0, 1, 9, 0], [7]] small_buffer =
     (case parse_stream 40960 byte_create byte_decode (concat [[0], [7, 0, 1, 9, 0], [7]]) of (msgs, closed, rest) \<Rightarrow>
        Some (map (command_of 1 2) msgs, closed, b'))"
  by (rule segmentation_independent [OF small_buffer_ok(1,2)])
    (simp add: small_buffer_def chunk_space_def vec_max_def)

text \<open>The messages a sender writes, each into its cleared send buffer, and the bytes that go out.\<close>

primrec send_all :: "('m \<Rightarrow> nat \<Rightarrow> bytes option) \<Rightarrow> (int \<times> 'm) list \<Rightarrow> dynamic_buffer \<Rightarrow> (bytes \<times> dynamic_buffer) option" where
  "send_all encode [] b = Some ([], b)"
| "send_all encode (msg # msgs) b =
     do { (ok, b1) \<leftarrow> writeMessage encode (fst msg) (snd msg) b;
          if ok then do { (out, b2) \<leftarrow> send_all encode msgs b1; Some (content b1 @ out, b2) } else None }"

lemma send_all_parse:
  assumes "buffer_ok b" and "capacity b = cap" and "int cap \<le> mx" and "cap < 65536"
    and "\<And>i m. (i, m) \<in> set msgs \<Longrightarrow> 0 \<le> i \<and> i < 65536 \<and> create i \<noteq> None"
    and "\<And>i m. (i, m) \<in> set msgs \<Longrightarrow> \<exists>body. encode m (cap - 4) = Some body \<and> length body + 4 \<le> cap
           \<and> (\<exists>code \<ge> 0. decode (the (create i)) body = (m, code))"
  shows "\<exists>out b'. send_all encode msgs b = Some (out, b') \<and> parse_stream mx create decode out = (msgs, False, [])"
  using assms(1,2,5,6)
proof (induction msgs arbitrary: b)
  case Nil
  then show ?case by (subst parse_stream_cases) simp
next
  case (Cons msg msgs)
  obtain i m where msg: "msg = (i, m)" by (cases msg)
  obtain body code where body: "encode m (cap - 4) = Some body" "length body + 4 \<le> cap" "0 \<le> code"
    "decode (the (create i)) body = (m, code)" using Cons.prems(4) [of i m] msg by auto
  have i: "0 \<le> i" "i < 65536" "create i \<noteq> None" using Cons.prems(3) [of i m] msg by auto
  obtain b1 where b1: "writeMessage encode i m b = Some (True, b1)" "buffer_ok b1"
    "content b1 = frame (word_of_int i) body" "capacity b1 = cap"
    using writeMessage_ok [OF Cons.prems(1), of body encode m i] body Cons.prems(2) by auto
  obtain out b2 where out: "send_all encode msgs b1 = Some (out, b2)"
    "parse_stream mx create decode out = (msgs, False, [])"
    using Cons.IH [OF b1(2,4)] Cons.prems(3,4) by (metis list.set_intros(2))
  have u: "int (unat (word_of_int i :: 16 word)) = i" using i by (simp add: unsigned_of_int take_bit_int_eq_self)
  have "parse_stream mx create decode (content b1 @ out) = (msg # msgs, False, [])"
    unfolding b1(3) using parse_frame [of body mx create "word_of_int i" "the (create i)" decode m code out]
      body i assms(3,4) u out(2) msg by simp
  then show ?case using b1(1) out msg by simp
qed

text \<open>
  C1: messages arrive as they were sent. If the send buffer is no larger than the receiver's maximum packet, every
  message has a registered id of 16 bits and the class decodes what it encodes, then the frames written one
  after the other, cut into chunks in any way on the wire, come out of the receiver as exactly the messages sent,
  in order, and the connection stays open.
\<close>
theorem messages_arrive_as_sent:
  assumes "buffer_ok sender" and "int (capacity sender) \<le> mx" and "capacity sender < 65536"
    and "\<And>i m. (i, m) \<in> set msgs \<Longrightarrow> 0 \<le> i \<and> i < 65536 \<and> create i \<noteq> None"
    and "\<And>i m. (i, m) \<in> set msgs \<Longrightarrow>
      \<exists>body. encode m (capacity sender - 4) = Some body \<and> length body + 4 \<le> capacity sender
        \<and> (\<exists>code \<ge> 0. decode (the (create i)) body = (m, code))"
    and "buffer_ok receiver" and "content receiver = []"
  shows "\<exists>out sender'. send_all encode msgs sender = Some (out, sender')
    \<and> (\<forall>cs. concat cs = out \<longrightarrow> length (db_buffer receiver) + chunk_space (db_expand_size receiver) cs < vec_max \<longrightarrow>
         (\<exists>b'. receive_chunks mx create decode tid sid cs receiver = Some (map (command_of tid sid) msgs, False, b')))"
proof -
  have "\<exists>out sender'. send_all encode msgs sender = Some (out, sender')
      \<and> parse_stream mx create decode out = (msgs, False, [])"
    by (rule send_all_parse [where cap = "capacity sender"]) (use assms(1-5) in simp_all)
  then obtain out sender' where out: "send_all encode msgs sender = Some (out, sender')"
    "parse_stream mx create decode out = (msgs, False, [])" by blast
  have "\<exists>b'. receive_chunks mx create decode tid sid cs receiver = Some (map (command_of tid sid) msgs, False, b')"
    if "concat cs = out" "length (db_buffer receiver) + chunk_space (db_expand_size receiver) cs < vec_max" for cs
  proof -
    have "parse_stream mx create decode (content receiver) = ([], False, content receiver)"
      by (subst parse_stream_cases) (simp add: assms(7))
    from receive_chunks_parse [OF assms(6) that(2) this, of tid sid] show ?thesis
      unfolding assms(7) using that(1) out(2) by auto
  qed
  then show ?thesis using out(1) by blast
qed

theorem messages_arrive_as_sent_witness:
  "\<exists>b'. receive_chunks 40960 byte_create byte_decode 1 2 [[0, 7], [0, 1, 42, 0, 7, 0], [1, 5]] small_buffer
     = Some (map (command_of 1 2) [(7, 42), (7, 5)], False, b')"
proof -
  let ?cs = "[[0, 7], [0, 1, 42, 0, 7, 0], [1, 5]] :: bytes list"
  have "\<exists>out sender'. send_all byte_encode [(7, 42), (7, 5)] small_buffer = Some (out, sender')
    \<and> (\<forall>cs. concat cs = out \<longrightarrow> length (db_buffer small_buffer) + chunk_space (db_expand_size small_buffer) cs < vec_max \<longrightarrow>
         (\<exists>b'. receive_chunks 40960 byte_create byte_decode 1 2 cs small_buffer
                = Some (map (command_of 1 2) [(7, 42), (7, 5)], False, b')))"
    by (rule messages_arrive_as_sent)
      (auto simp: small_buffer_ok byte_encode_def byte_decode_def byte_create_def)
  then obtain out sender' where out: "send_all byte_encode [(7, 42), (7, 5)] small_buffer = Some (out, sender')"
    and all: "\<And>cs. concat cs = out \<Longrightarrow> length (db_buffer small_buffer) + chunk_space (db_expand_size small_buffer) cs < vec_max \<Longrightarrow>
         (\<exists>b'. receive_chunks 40960 byte_create byte_decode 1 2 cs small_buffer
                = Some (map (command_of 1 2) [(7, 42), (7, 5)], False, b'))" by blast
  have enc: "byte_encode m (capacity b - 4) = Some [m]" if "capacity b = 16" for b m
    using that by (simp add: byte_encode_def)
  obtain b1 where b1: "writeMessage byte_encode 7 42 small_buffer = Some (True, b1)" "buffer_ok b1"
    "content b1 = frame 7 [42]" "capacity b1 = 16"
    using writeMessage_ok [of small_buffer "[42]" byte_encode 42 7] enc small_buffer_ok by auto
  obtain b2 where "writeMessage byte_encode 7 5 b1 = Some (True, b2)" "content b2 = frame 7 [5]"
    using writeMessage_ok [of b1 "[5]" byte_encode 5 7] enc b1(2,4) by auto
  then have "out = frame 7 [42] @ frame 7 [5]" using out b1(1,3) by simp
  then have "concat ?cs = out" by (simp add: frame_def word16_bytes_def)
  moreover have "length (db_buffer small_buffer) + chunk_space (db_expand_size small_buffer) ?cs < vec_max"
    by (simp add: small_buffer_def chunk_space_def vec_max_def)
  ultimately show ?thesis by (rule all)
qed

text \<open>
  Message ids are truncated to 16 bits on the wire, without a check: two ids that differ by a multiple of \<open>2^16\<close>
  write the same frame into the same buffer, so the receiver cannot tell them apart.
\<close>
theorem message_ids_alias:
  "writeMessage encode (message_id + 65536 * k) message b = writeMessage encode message_id message b"
proof -
  have "(word_of_int (message_id + 65536 * k) :: 16 word) = word_of_int message_id"
    by (subst word_of_int_eq_iff) (simp add: take_bit_eq_mod)
  then show ?thesis by (simp only: writeMessage_def)
qed

text \<open>
  A registered constructor stays. Registering an id twice is refused and changes nothing, registering a new
  id makes exactly that id known, and an id that was never registered creates no message, which the receive loop answers
  by closing the connection.
\<close>
theorem registry_behaviour:
  "(fst (registerMessageCreateFunc mid f m) \<longleftrightarrow> m mid = None)
   \<and> (m mid \<noteq> None \<longrightarrow> snd (registerMessageCreateFunc mid f m) = m)
   \<and> (m mid = None \<longrightarrow> createMessageMap (snd (registerMessageCreateFunc mid f m)) mid = Some (f ()))
   \<and> (i \<noteq> mid \<longrightarrow> createMessageMap (snd (registerMessageCreateFunc mid f m)) i = createMessageMap m i)"
  by (auto simp: registerMessageCreateFunc_def createMessageMap_def)

theorem registry_behaviour_witness:
  "createMessageMap (snd (registerMessageCreateFunc 3 (\<lambda>_. 5 :: nat) Map.empty)) 3 = Some 5
   \<and> createMessageMap (snd (registerMessageCreateFunc 3 (\<lambda>_. 5 :: nat) Map.empty)) 4 = createMessageMap (Map.empty :: int \<rightharpoonup> (unit \<Rightarrow> nat)) 4"
  using registry_behaviour [of 3 "\<lambda>_. 5 :: nat" Map.empty 4] by simp

end
