(* ===== verification/Io_Device.thy ===== *)
theory Io_Device
  imports Zb_Prelude
begin

text \<open>
  Devices and the event multiplexer (\<open>net/io_device.h\<close>, \<open>.cc\<close>, \<open>net/epoller.h\<close>, \<open>.cc\<close>, the default
  operations of \<open>net/io_service.cc\<close>).

  A device is its address, its id, its descriptor, which callbacks are set, and whether it is attached to the
  service of the model. The kernel's side of epoll is its table of registrations (\<open>ek_interest\<close>), the
  limit on their number, and the answers \<open>epoll_wait\<close> will give. \<open>Epoller::doEvent\<close> is a function of the
  callbacks it finds on the devices; its failures, calling a callback that is not set, using a device
  that is gone, and a callback that itself fails, are the values of \<open>dispatch_error\<close>.
\<close>

subsection \<open>Devices\<close>

record io_device =
  dev_ptr :: int
  dev_id :: int
  dev_fd :: int
  dev_read_cb :: bool
  dev_write_cb :: bool
  dev_error_cb :: bool
  dev_attached :: bool

definition IODevice :: "int \<Rightarrow> io_device" where
  "IODevice p = \<lparr>dev_ptr = p, dev_id = 0, dev_fd = -1, dev_read_cb = False, dev_write_cb = False,
     dev_error_cb = False, dev_attached = False\<rparr>"

text \<open>The members are set and read one by one; of a callback the model keeps whether it is set.\<close>

definition dev_setId :: "int \<Rightarrow> io_device \<Rightarrow> io_device" where
  "dev_setId i d = d\<lparr>dev_id := i\<rparr>"

definition dev_getId :: "io_device \<Rightarrow> int" where
  "dev_getId d = dev_id d"

definition dev_setFD :: "int \<Rightarrow> io_device \<Rightarrow> io_device" where
  "dev_setFD fd d = d\<lparr>dev_fd := fd\<rparr>"

definition dev_getFD :: "io_device \<Rightarrow> int" where
  "dev_getFD d = dev_fd d"

definition dev_setReadCallback :: "bool \<Rightarrow> io_device \<Rightarrow> io_device" where
  "dev_setReadCallback on d = d\<lparr>dev_read_cb := on\<rparr>"

definition dev_setWriteCallback :: "bool \<Rightarrow> io_device \<Rightarrow> io_device" where
  "dev_setWriteCallback on d = d\<lparr>dev_write_cb := on\<rparr>"

definition dev_setErrorCallback :: "bool \<Rightarrow> io_device \<Rightarrow> io_device" where
  "dev_setErrorCallback on d = d\<lparr>dev_error_cb := on\<rparr>"

text \<open>Attaching to a service and detaching from it, given what the service's \<open>addIODevice\<close> and \<open>removeIODevice\<close> do.\<close>

definition detachIOService ::
  "(io_device \<Rightarrow> 's \<Rightarrow> bool \<times> 's) \<Rightarrow> io_device \<Rightarrow> 's \<Rightarrow> io_device \<times> 's" where
  "detachIOService remove d s =
     (if \<not> dev_attached d then (d, s)
      else (d\<lparr>dev_attached := False\<rparr>, snd (remove d s)))"

definition attachIOService ::
  "(io_device \<Rightarrow> 's \<Rightarrow> bool \<times> 's) \<Rightarrow> (io_device \<Rightarrow> 's \<Rightarrow> bool \<times> 's) \<Rightarrow> io_device \<Rightarrow> 's \<Rightarrow>
     bool \<times> io_device \<times> 's" where
  "attachIOService add remove d s =
     (let (d1, s1) = (if dev_attached d then detachIOService remove d s else (d, s));
          (ok, s2) = add d1 s1
      in if ok then (True, d1\<lparr>dev_attached := True\<rparr>, s2) else (False, d1, s2))"

text \<open>The defaults of \<open>IOService\<close>.\<close>

definition ios_addIODevice :: "io_device \<Rightarrow> 's \<Rightarrow> bool \<times> 's" where
  "ios_addIODevice d s = (True, s)"

definition ios_removeIODevice :: "io_device \<Rightarrow> 's \<Rightarrow> bool \<times> 's" where
  "ios_removeIODevice d s = (True, s)"

subsection \<open>The multiplexer\<close>

datatype epoll_flag = EPOLLIN | EPOLLPRI | EPOLLOUT | EPOLLERR | EPOLLHUP | EPOLLRDHUP

type_synonym epoll_events = "epoll_flag set"

datatype wait_answer = Events "(int \<times> epoll_events) list" | WaitFailed int

definition EINTR :: int where "EINTR = 4"

record epoller =
  ep_fd :: int
  ep_events_size :: nat
  ep_removed :: "int set"
  ek_interest :: "int \<rightharpoonup> int \<times> epoll_events"
  ek_max_watches :: nat

definition Epoller :: "nat \<Rightarrow> epoller" where
  "Epoller limit = \<lparr>ep_fd = -1, ep_events_size = 32, ep_removed = {}, ek_interest = Map.empty, ek_max_watches = limit\<rparr>"

text \<open>Closing the epoll descriptor drops all registrations.\<close>

definition ep_destroy :: "epoller \<Rightarrow> epoller" where
  "ep_destroy e = (if ep_fd e \<noteq> -1 then e\<lparr>ep_fd := -1, ek_interest := Map.empty\<rparr> else e)"

text \<open>\<open>fd\<close> is what \<open>epoll_create\<close> answers (-1 for a failure), \<open>cloexec\<close> whether the \<open>fcntl\<close> succeeds.\<close>

definition ep_create :: "int \<Rightarrow> bool \<Rightarrow> epoller \<Rightarrow> int \<times> epoller" where
  "ep_create fd cloexec e =
     (let e1 = (if 0 < ep_fd e then ep_destroy e else e); e2 = e1\<lparr>ep_fd := fd\<rparr>
      in if fd = -1 then (-1, e2) else if \<not> cloexec then (-1, e2) else (0, e2))"

definition wanted_events :: "io_device \<Rightarrow> epoll_events" where
  "wanted_events d =
     (if dev_read_cb d then {EPOLLIN, EPOLLPRI} else {}) \<union> (if dev_write_cb d then {EPOLLOUT} else {})"

text \<open>\<open>epoll_ctl\<close> with its documented failures: a bad descriptor, one that is (not) registered, no more room.\<close>

definition ctl_add :: "int \<Rightarrow> int \<times> epoll_events \<Rightarrow> epoller \<Rightarrow> bool \<times> epoller" where
  "ctl_add fd ev e =
     (if ep_fd e = -1 \<or> fd < 0 \<or> ek_interest e fd \<noteq> None \<or> ek_max_watches e \<le> card (dom (ek_interest e)) then (False, e)
      else (True, e\<lparr>ek_interest := (ek_interest e)(fd \<mapsto> ev)\<rparr>))"

definition ctl_del :: "int \<Rightarrow> epoller \<Rightarrow> bool \<times> epoller" where
  "ctl_del fd e =
     (if ep_fd e = -1 \<or> ek_interest e fd = None then (False, e)
      else (True, e\<lparr>ek_interest := (ek_interest e)(fd := None)\<rparr>))"

definition ctl_mod :: "int \<Rightarrow> int \<times> epoll_events \<Rightarrow> epoller \<Rightarrow> bool \<times> epoller" where
  "ctl_mod fd ev e =
     (if ep_fd e = -1 \<or> ek_interest e fd = None then (False, e)
      else (True, e\<lparr>ek_interest := (ek_interest e)(fd \<mapsto> ev)\<rparr>))"

definition ep_add :: "io_device \<Rightarrow> epoller \<Rightarrow> bool \<times> epoller" where
  "ep_add d e = ctl_add (dev_fd d) (dev_ptr d, wanted_events d) e"

definition ep_del :: "io_device \<Rightarrow> epoller \<Rightarrow> bool \<times> epoller" where
  "ep_del d e =
     (let (ok, e1) = ctl_del (dev_fd d) e
      in if \<not> ok then (False, e1) else (True, e1\<lparr>ep_removed := insert (dev_ptr d) (ep_removed e1)\<rparr>))"

definition ep_update :: "io_device \<Rightarrow> epoller \<Rightarrow> bool \<times> epoller" where
  "ep_update d e = ctl_mod (dev_fd d) (dev_ptr d, wanted_events d) e"

definition checkIODeviceExist :: "int \<Rightarrow> epoller \<Rightarrow> bool" where
  "checkIODeviceExist p e \<longleftrightarrow> p \<notin> ep_removed e"

text \<open>
  The state the callbacks work on is a parameter \<open>'s\<close>: where the multiplexer is in it, which device is at an
  address, and what its callbacks do.
\<close>

record 's dispatch =
  ds_epoller :: "'s \<Rightarrow> epoller"
  ds_set_epoller :: "epoller \<Rightarrow> 's \<Rightarrow> 's"
  ds_device :: "'s \<Rightarrow> int \<Rightarrow> io_device option"
  ds_write :: "io_device \<Rightarrow> 's \<Rightarrow> 's option"
  ds_read :: "io_device \<Rightarrow> 's \<Rightarrow> 's option"
  ds_error :: "io_device \<Rightarrow> 's \<Rightarrow> 's option"

datatype dispatch_error = Dangling | NullCallback | CallbackFailed

primrec bind_sum :: "'e + 'a \<Rightarrow> ('a \<Rightarrow> 'e + 'b) \<Rightarrow> 'e + 'b" where
  "bind_sum (Inl e) f = Inl e"
| "bind_sum (Inr x) f = f x"

text \<open>One of the three guarded calls of the loop: whether the rest of the iteration is skipped, and the new state.\<close>

definition guarded_call ::
  "'s dispatch \<Rightarrow> bool \<Rightarrow> (io_device \<Rightarrow> bool) \<Rightarrow> (io_device \<Rightarrow> 's \<Rightarrow> 's option) \<Rightarrow> int \<Rightarrow> bool \<times> 's \<Rightarrow>
     dispatch_error + bool \<times> 's" where
  "guarded_call ds wanted has_cb call p st =
     (case st of (skip, s) \<Rightarrow>
        if skip \<or> \<not> wanted then Inr (skip, s)
        else if \<not> checkIODeviceExist p (ds_epoller ds s) then Inr (True, s)
        else case ds_device ds s p of None \<Rightarrow> Inl Dangling
        | Some d \<Rightarrow> if \<not> has_cb d then Inl NullCallback
                    else (case call d s of None \<Rightarrow> Inl CallbackFailed | Some s1 \<Rightarrow> Inr (False, s1)))"

definition dispatch_event :: "'s dispatch \<Rightarrow> int \<times> epoll_events \<Rightarrow> 's \<Rightarrow> dispatch_error + 's" where
  "dispatch_event ds ev s =
     (case ev of (p, flags) \<Rightarrow>
        bind_sum (guarded_call ds (EPOLLOUT \<in> flags) dev_write_cb (ds_write ds) p (False, s)) (\<lambda>st1.
        bind_sum (guarded_call ds (EPOLLIN \<in> flags \<or> EPOLLPRI \<in> flags \<or> EPOLLRDHUP \<in> flags) dev_read_cb (ds_read ds) p st1) (\<lambda>st2.
        bind_sum (guarded_call ds (EPOLLERR \<in> flags \<or> EPOLLHUP \<in> flags) dev_error_cb (ds_error ds) p st2) (\<lambda>st3.
        Inr (snd st3)))))"

primrec dispatch_events :: "'s dispatch \<Rightarrow> (int \<times> epoll_events) list \<Rightarrow> 's \<Rightarrow> dispatch_error + 's" where
  "dispatch_events ds [] s = Inr s"
| "dispatch_events ds (ev # evs) s = bind_sum (dispatch_event ds ev s) (dispatch_events ds evs)"

definition doEvent :: "'s dispatch \<Rightarrow> wait_answer \<Rightarrow> 's \<Rightarrow> dispatch_error + int \<times> 's" where
  "doEvent ds answer s =
     (case answer of
        WaitFailed e \<Rightarrow> Inr (if e = EINTR then 0 else -1, s)
      | Events evs \<Rightarrow>
          bind_sum (dispatch_events ds evs s) (\<lambda>s1.
          let e = ds_epoller ds s1;
              e1 = e\<lparr>ep_removed := {},
                     ep_events_size := (if ep_events_size e \<le> length evs then ep_events_size e * 2 else ep_events_size e)\<rparr>
          in Inr (0, ds_set_epoller ds e1 s1)))"

text \<open>
  What the kernel may report: at most as many events as there is room for, each for a registration and with no flag
  beyond the ones asked for, \<open>EPOLLERR\<close> and \<open>EPOLLHUP\<close>.
\<close>

definition permitted :: "epoller \<Rightarrow> (int \<times> epoll_events) list \<Rightarrow> bool" where
  "permitted e evs \<longleftrightarrow> length evs \<le> ep_events_size e \<and>
     list_all (\<lambda>(p, flags). \<exists>fd wanted. ek_interest e fd = Some (p, wanted) \<and> flags \<subseteq> wanted \<union> {EPOLLERR, EPOLLHUP}) evs"

subsection \<open>When the loop of \<open>doEvent\<close> goes wrong\<close>

text \<open>The device has a callback for every one of the reported flags.\<close>

definition answers :: "io_device \<Rightarrow> epoll_events \<Rightarrow> bool" where
  "answers d flags \<longleftrightarrow> (EPOLLOUT \<in> flags \<longrightarrow> dev_write_cb d)
     \<and> (EPOLLIN \<in> flags \<or> EPOLLPRI \<in> flags \<or> EPOLLRDHUP \<in> flags \<longrightarrow> dev_read_cb d)
     \<and> (EPOLLERR \<in> flags \<or> EPOLLHUP \<in> flags \<longrightarrow> dev_error_cb d)"

text \<open>
  What the loop needs of the state behind it: an invariant under which every device of the batch is either marked as
  removed or is live with the callbacks it is reported for, and which every callback keeps (closing any socket marks it).
\<close>

locale event_source =
  fixes ds :: "'s dispatch" and inv :: "'s \<Rightarrow> bool" and batch :: "(int \<times> epoll_events) set"
  assumes inv_write: "inv s \<Longrightarrow> (p, fl) \<in> batch \<Longrightarrow> EPOLLOUT \<in> fl \<Longrightarrow> ds_device ds s p = Some d \<Longrightarrow>
      ds_write ds d s = Some s1 \<Longrightarrow> inv s1"
    and inv_read: "inv s \<Longrightarrow> ds_device ds s p = Some d \<Longrightarrow> ds_read ds d s = Some s1 \<Longrightarrow> inv s1"
    and inv_error: "inv s \<Longrightarrow> ds_device ds s p = Some d \<Longrightarrow> dev_error_cb d \<Longrightarrow> ds_error ds d s = Some s1 \<Longrightarrow> inv s1"
    and inv_live: "inv s \<Longrightarrow> (p, fl) \<in> batch \<Longrightarrow> checkIODeviceExist p (ds_epoller ds s) \<Longrightarrow>
      \<exists>d. ds_device ds s p = Some d \<and> answers d fl"
begin

text \<open>The outcome of a stage of the loop: a callback failed on its own account, or the invariant holds.\<close>

definition good :: "dispatch_error + bool \<times> 's \<Rightarrow> bool" where
  "good x \<longleftrightarrow> (case x of Inl e \<Rightarrow> e = CallbackFailed | Inr st \<Rightarrow> inv (snd st))"

lemma guarded_call_good:
  assumes "inv (snd st)"
    and live: "wanted \<Longrightarrow> checkIODeviceExist p (ds_epoller ds (snd st)) \<Longrightarrow> \<exists>d. ds_device ds (snd st) p = Some d \<and> has_cb d"
    and keep: "\<And>d s1. wanted \<Longrightarrow> ds_device ds (snd st) p = Some d \<Longrightarrow> has_cb d \<Longrightarrow> call d (snd st) = Some s1 \<Longrightarrow> inv s1"
  shows "good (guarded_call ds wanted has_cb call p st)"
proof (cases "fst st \<or> \<not> wanted \<or> \<not> checkIODeviceExist p (ds_epoller ds (snd st))")
  case True
  then show ?thesis using assms(1) by (cases st) (auto simp: guarded_call_def good_def)
next
  case False
  then obtain d where "ds_device ds (snd st) p = Some d" "has_cb d" using live by blast
  then show ?thesis
    using False keep [of d] by (cases st) (auto simp: guarded_call_def good_def split: option.splits)
qed

lemma bind_good:
  assumes "good x" and "\<And>st. inv (snd st) \<Longrightarrow> case f st of Inl e \<Rightarrow> e = CallbackFailed | Inr y \<Rightarrow> P y"
  shows "case bind_sum x f of Inl e \<Rightarrow> e = CallbackFailed | Inr y \<Rightarrow> P y"
  using assms by (cases x) (auto simp: good_def)

lemma dispatch_event_ok:
  assumes "inv s" and "(p, fl) \<in> batch"
  shows "case dispatch_event ds (p, fl) s of Inl e \<Rightarrow> e = CallbackFailed | Inr s1 \<Rightarrow> inv s1"
proof -
  have stage: "good (guarded_call ds w (h :: io_device \<Rightarrow> bool) c p st)"
    if "inv (snd st)" and "\<And>d. w \<Longrightarrow> answers d fl \<Longrightarrow> h d"
      and "\<And>d s s1. w \<Longrightarrow> inv s \<Longrightarrow> ds_device ds s p = Some d \<Longrightarrow> h d \<Longrightarrow> c d s = Some s1 \<Longrightarrow> inv s1" for w h c st
    using that inv_live [OF that(1) assms(2)] by (intro guarded_call_good) blast+
  show ?thesis
    unfolding dispatch_event_def prod.case
    by (rule bind_good, rule stage, simp add: assms(1), simp add: answers_def, erule (3) inv_write [OF _ assms(2)],
        rule bind_good, rule stage, assumption, simp add: answers_def, erule (1) inv_read, assumption,
        rule bind_good, rule stage, assumption, simp add: answers_def, erule (2) inv_error, assumption, simp)
qed

lemma dispatch_events_ok:
  "set evs \<subseteq> batch \<Longrightarrow> inv s \<Longrightarrow> case dispatch_events ds evs s of Inl e \<Rightarrow> e = CallbackFailed | Inr s1 \<Rightarrow> inv s1"
proof (induction evs arbitrary: s)
  case Nil
  then show ?case by simp
next
  case (Cons ev evs)
  obtain p fl where ev: "ev = (p, fl)" by (cases ev)
  have "case dispatch_event ds ev s of Inl e \<Rightarrow> e = CallbackFailed | Inr s1 \<Rightarrow> inv s1"
    unfolding ev by (rule dispatch_event_ok) (use Cons.prems ev in auto)
  then show ?case using Cons.IH Cons.prems(1) by (cases "dispatch_event ds ev s") auto
qed

end

text \<open>
  One \<open>doEvent\<close> after the other: an invariant that is an \<open>event_source\<close> for every batch the kernel may report, that holds for
  the batch when it arrives, and that survives its end, when the marks of the removed devices are dropped.
\<close>

locale event_loop =
  fixes ds :: "'s dispatch" and inv :: "(int \<times> epoll_events) set \<Rightarrow> 's \<Rightarrow> bool" and reported :: "'s \<Rightarrow> (int \<times> epoll_events) list \<Rightarrow> bool"
  assumes source: "event_source ds (inv batch) batch"
    and inv_arrive: "inv {} s \<Longrightarrow> reported s evs \<Longrightarrow> inv (set evs) s"
    and inv_end: "inv batch s \<Longrightarrow> ep_fd e = ep_fd (ds_epoller ds s) \<Longrightarrow> ek_interest e = ek_interest (ds_epoller ds s) \<Longrightarrow>
      inv {} (ds_set_epoller ds e s)"
    and epoller_set: "inv batch s \<Longrightarrow> ds_epoller ds (ds_set_epoller ds e s) = e"

sublocale event_loop < batches: event_source ds "inv batch" batch for batch
  by (rule source)

context event_loop
begin

definition answered :: "'s \<Rightarrow> wait_answer \<Rightarrow> bool" where
  "answered s a \<longleftrightarrow> (case a of WaitFailed e \<Rightarrow> True | Events evs \<Rightarrow> reported s evs)"

lemma doEvent_keeps:
  assumes "inv {} s" and "answered s a"
  shows "case doEvent ds a s of Inl e \<Rightarrow> e = CallbackFailed | Inr (ret, s1) \<Rightarrow> inv {} s1
    \<and> (\<forall>evs. a = Events evs \<longrightarrow> ret = 0 \<and> ep_removed (ds_epoller ds s1) = {})"
proof (cases a)
  case (WaitFailed e)
  then show ?thesis using assms(1) by (simp add: doEvent_def)
next
  case (Events evs)
  then have "inv (set evs) s" using assms by (auto simp: answered_def intro: inv_arrive)
  from batches.dispatch_events_ok [OF order_refl this] show ?thesis
    by (cases "dispatch_events ds evs s") (auto simp: Events doEvent_def Let_def epoller_set intro!: inv_end)
qed

end

end
