(* ===== verification/Tcp_Reactor.thy ===== *)
theory Tcp_Reactor
  imports Dynamic_Buffer Timer_Heap Net_Ids Io_Device
begin

text \<open>
  Connections and the reactor (\<open>net/tcp_connection.h\<close>, \<open>.cc\<close>, \<open>net/reactor.h\<close>, \<open>.cc\<close>, the socket calls of
  \<open>net/tcp_socket.cc\<close>, the callbacks of \<open>net/io_device.h\<close>).

  The kernel is a script: the answers it will give to \<open>send\<close>, \<open>recv\<close> and \<open>FIONREAD\<close>, in order, the bytes
  each socket's peer was sent (\<open>k_wire\<close>) and the bytes that peer sent and that wait to be read
  (\<open>k_incoming\<close>). Its documented contract is built in: it never takes more bytes than
  offered, never gives more than asked for, and a socket without further answers would block.

  A \<open>TcpSocket\<close> and a \<open>TcpConnection\<close> live in the maps of the reactor under their socket id. The
  callbacks a reactor is given (\<open>recv_message_cb_\<close>, \<open>peer_close_cb_\<close>, \<open>error_cb_\<close>) and the virtual
  \<open>closeSocket\<close> are the fields of a record of functions on the reactor; a callback that is not set is
  the identity. \<open>rx_world\<close> is whatever state these functions keep outside of the reactor.
\<close>

subsection \<open>The kernel\<close>

definition EAGAIN :: int where "EAGAIN = 11"
definition ENOBUFS :: int where "ENOBUFS = 105"

datatype send_answer = Sent nat | SendFailed int
datatype recv_answer = Available nat | PeerShutdown | RecvFailed int
datatype recv_result = Got bytes | RecvError int

record kernel =
  k_sends :: "send_answer list"
  k_recvs :: "recv_answer list"
  k_readable :: "int list"
  k_wire :: "int \<Rightarrow> bytes"
  k_incoming :: "int \<Rightarrow> bytes"

definition sock_send :: "int \<Rightarrow> bytes \<Rightarrow> kernel \<Rightarrow> send_answer \<times> kernel" where
  "sock_send sid bs k =
     (case k_sends k of [] \<Rightarrow> (SendFailed EAGAIN, k)
      | SendFailed e # r \<Rightarrow> (SendFailed e, k\<lparr>k_sends := r\<rparr>)
      | Sent n # r \<Rightarrow> (Sent (min n (length bs)),
                        k\<lparr>k_sends := r, k_wire := (k_wire k)(sid := k_wire k sid @ take n bs)\<rparr>))"

definition sock_recv :: "int \<Rightarrow> nat \<Rightarrow> kernel \<Rightarrow> recv_result \<times> kernel" where
  "sock_recv sid n k =
     (case k_recvs k of [] \<Rightarrow> (RecvError EAGAIN, k)
      | RecvFailed e # r \<Rightarrow> (RecvError e, k\<lparr>k_recvs := r\<rparr>)
      | PeerShutdown # r \<Rightarrow> (Got [], k\<lparr>k_recvs := r\<rparr>)
      | Available m # r \<Rightarrow>
          if min n m = 0 \<or> k_incoming k sid = [] then (RecvError EAGAIN, k\<lparr>k_recvs := r\<rparr>)
          else (Got (take (min n m) (k_incoming k sid)),
                k\<lparr>k_recvs := r, k_incoming := (k_incoming k)(sid := drop (min n m) (k_incoming k sid))\<rparr>))"

definition sock_readableBytes :: "kernel \<Rightarrow> int \<times> kernel" where
  "sock_readableBytes k =
     (case k_readable k of [] \<Rightarrow> (0, k) | n # r \<Rightarrow> (n, k\<lparr>k_readable := r\<rparr>))"

subsection \<open>State\<close>

datatype conn_status = NONE | CONNECTING | CONNECTED | PEER_CLOSED | PENDING_ERROR

text \<open>The send-complete callbacks the code passes: none, and the one of \<open>sendMessageThenClose\<close>.\<close>

datatype send_complete = NoCallback | SendCompleteClose

record tcp_connection =
  tc_status :: conn_status
  tc_error_code :: int
  tc_read_buffer :: dynamic_buffer
  tc_write_buffer :: dynamic_buffer
  tc_send_complete_cb :: send_complete

text \<open>A \<open>TcpSocket\<close> is a device and keeps nothing of its own.\<close>

type_synonym tcp_socket = io_device

datatype 'u timer_cb = OnSendMessageError | UserTimer 'u

record ('u, 'x) reactor =
  rx_quit :: bool
  rx_service_quit :: bool
  rx_id :: int
  rx_max_connection_num :: int
  rx_read_init :: nat
  rx_read_expand :: nat
  rx_read_max :: nat
  rx_write_init :: nat
  rx_write_expand :: nat
  rx_write_max :: nat
  rx_sockets :: "int \<rightharpoonup> tcp_socket"
  rx_connections :: "int \<rightharpoonup> tcp_connection"
  rx_socket_to_timer :: "int \<rightharpoonup> timer_id"
  rx_timer_to_socket :: "timer_id \<rightharpoonup> int"
  rx_timers :: "'u timer_cb timer_heap"
  rx_clock :: timestamp
  rx_kernel :: kernel
  rx_world :: 'x

record ('u, 'x) reactor_callbacks =
  cb_recv_message :: "int \<Rightarrow> ('u, 'x) reactor \<Rightarrow> ('u, 'x) reactor option"
  cb_peer_close :: "int \<Rightarrow> ('u, 'x) reactor \<Rightarrow> ('u, 'x) reactor"
  cb_error :: "int \<Rightarrow> int \<Rightarrow> ('u, 'x) reactor \<Rightarrow> ('u, 'x) reactor"
  cb_closeSocket :: "int \<Rightarrow> ('u, 'x) reactor \<Rightarrow> ('u, 'x) reactor"

definition Reactor :: "int \<Rightarrow> timestamp \<Rightarrow> kernel \<Rightarrow> 'x \<Rightarrow> ('u, 'x) reactor" where
  "Reactor max_connection_num now k w =
     \<lparr>rx_quit = False, rx_service_quit = False, rx_id = 0, rx_max_connection_num = max_connection_num,
      rx_read_init = 0, rx_read_expand = 0, rx_read_max = 0,
      rx_write_init = 0, rx_write_expand = 0, rx_write_max = 0,
      rx_sockets = Map.empty, rx_connections = Map.empty,
      rx_socket_to_timer = Map.empty, rx_timer_to_socket = Map.empty,
      rx_timers = TimerHeap, rx_clock = now, rx_kernel = k, rx_world = w\<rparr>"

subsection \<open>Connections\<close>

definition TcpConnection :: "nat \<Rightarrow> nat \<Rightarrow> nat \<Rightarrow> nat \<Rightarrow> tcp_connection option" where
  "TcpConnection read_init read_expand write_init write_expand =
     do { rb \<leftarrow> DynamicBuffer read_init read_expand;
          wb \<leftarrow> DynamicBuffer write_init write_expand;
          Some \<lparr>tc_status = NONE, tc_error_code = 0, tc_read_buffer = rb, tc_write_buffer = wb,
                tc_send_complete_cb = NoCallback\<rparr> }"

definition setError :: "int \<Rightarrow> tcp_connection \<Rightarrow> tcp_connection" where
  "setError error_code c = c\<lparr>tc_status := PENDING_ERROR, tc_error_code := error_code\<rparr>"

definition upd_conn :: "int \<Rightarrow> (tcp_connection \<Rightarrow> tcp_connection) \<Rightarrow> ('u, 'x) reactor \<Rightarrow> ('u, 'x) reactor" where
  "upd_conn sid f r = r\<lparr>rx_connections := (rx_connections r)(sid := map_option f (rx_connections r sid))\<rparr>"

definition setWriteCallback :: "int \<Rightarrow> bool \<Rightarrow> ('u, 'x) reactor \<Rightarrow> ('u, 'x) reactor" where
  "setWriteCallback sid on r =
     r\<lparr>rx_sockets := (rx_sockets r)(sid := map_option (\<lambda>s. s\<lparr>dev_write_cb := on\<rparr>) (rx_sockets r sid))\<rparr>"

subsection \<open>Configuration\<close>

definition setRecvBufferInitSize :: "nat \<Rightarrow> ('u, 'x) reactor \<Rightarrow> ('u, 'x) reactor" where
  "setRecvBufferInitSize n r = r\<lparr>rx_read_init := n\<rparr>"

definition setRecvBufferExpandSize :: "nat \<Rightarrow> ('u, 'x) reactor \<Rightarrow> ('u, 'x) reactor" where
  "setRecvBufferExpandSize n r = r\<lparr>rx_read_expand := n\<rparr>"

definition setRecvBufferMaxSize :: "nat \<Rightarrow> ('u, 'x) reactor \<Rightarrow> ('u, 'x) reactor" where
  "setRecvBufferMaxSize n r = r\<lparr>rx_read_max := n\<rparr>"

definition setSendBufferInitSize :: "nat \<Rightarrow> ('u, 'x) reactor \<Rightarrow> ('u, 'x) reactor" where
  "setSendBufferInitSize n r = r\<lparr>rx_write_init := n\<rparr>"

definition setSendBufferExpandSize :: "nat \<Rightarrow> ('u, 'x) reactor \<Rightarrow> ('u, 'x) reactor" where
  "setSendBufferExpandSize n r = r\<lparr>rx_write_expand := n\<rparr>"

definition setSendBufferMaxSize :: "nat \<Rightarrow> ('u, 'x) reactor \<Rightarrow> ('u, 'x) reactor" where
  "setSendBufferMaxSize n r = r\<lparr>rx_write_max := n\<rparr>"

definition reactor_init :: "int \<Rightarrow> ('u, 'x) reactor \<Rightarrow> ('u, 'x) reactor" where
  "reactor_init i r = r\<lparr>rx_id := i mod 2 ^ 16\<rparr>"

definition reactor_start :: "('u, 'x) reactor \<Rightarrow> ('u, 'x) reactor" where
  "reactor_start r = r\<lparr>rx_quit := False\<rparr>"

text \<open>
  \<open>quit\<close> is \<open>IOService::quit\<close> and sets \<open>IOService::quit_\<close>; the loops of the reactors read the member
  \<open>Reactor::quit_\<close> that hides it, and set that one when they fail.
\<close>

definition reactor_quit :: "('u, 'x) reactor \<Rightarrow> ('u, 'x) reactor" where
  "reactor_quit r = r\<lparr>rx_service_quit := True\<rparr>"

subsection \<open>Attaching and closing\<close>

definition reactor_closeSocket :: "int \<Rightarrow> ('u, 'x) reactor \<Rightarrow> ('u, 'x) reactor" where
  "reactor_closeSocket sid r =
     r\<lparr>rx_connections := (rx_connections r)(sid := None), rx_sockets := (rx_sockets r)(sid := None)\<rparr>"

definition checkExists :: "int \<Rightarrow> ('u, 'x) reactor \<Rightarrow> bool" where
  "checkExists sid r \<longleftrightarrow> rx_sockets r sid \<noteq> None"

definition reactor_attachSocket ::
  "tcp_socket \<Rightarrow> ('u, 'x) reactor \<Rightarrow> (bool \<times> ('u, 'x) reactor) option" where
  "reactor_attachSocket peer r =
     (if rx_sockets r (dev_id peer) \<noteq> None then Some (False, r)
      else do {
        connection \<leftarrow> TcpConnection (rx_read_init r) (rx_read_expand r) (rx_write_init r) (rx_write_expand r);
        Some (True, r\<lparr>rx_sockets := (rx_sockets r)(dev_id peer \<mapsto> peer\<lparr>dev_read_cb := True, dev_error_cb := True\<rparr>),
                      rx_connections := (if rx_connections r (dev_id peer) \<noteq> None then rx_connections r
                        else (rx_connections r)(dev_id peer \<mapsto> connection\<lparr>tc_status := CONNECTED\<rparr>))\<rparr>) })"

definition isConnected :: "int \<Rightarrow> ('u, 'x) reactor \<Rightarrow> bool" where
  "isConnected sid r =
     (case rx_connections r sid of None \<Rightarrow> False | Some c \<Rightarrow> tc_status c = CONNECTED)"

definition getConnectionNum :: "('u, 'x) reactor \<Rightarrow> nat" where
  "getConnectionNum r = card (dom (rx_connections r))"

subsection \<open>Timers of the reactor\<close>

definition startTimer :: "int \<Rightarrow> 'u timer_cb \<Rightarrow> int \<Rightarrow> ('u, 'x) reactor \<Rightarrow> timer_id \<times> ('u, 'x) reactor" where
  "startTimer timeout_ms cb call_times r =
     (let (i, h) = addTimer (rx_clock r) timeout_ms cb call_times (rx_timers r) in (i, r\<lparr>rx_timers := h\<rparr>))"

definition stopTimer :: "timer_id \<Rightarrow> ('u, 'x) reactor \<Rightarrow> ('u, 'x) reactor" where
  "stopTimer i r = r\<lparr>rx_timers := removeTimer i (rx_timers r)\<rparr>"

definition addSocketTimer :: "int \<Rightarrow> int \<Rightarrow> 'u timer_cb \<Rightarrow> ('u, 'x) reactor \<Rightarrow> ('u, 'x) reactor" where
  "addSocketTimer sid timeout_ms cb r =
     (let (i, r1) = startTimer timeout_ms cb 1 r
      in r1\<lparr>rx_socket_to_timer := (rx_socket_to_timer r1)(sid \<mapsto> i),
            rx_timer_to_socket := (rx_timer_to_socket r1)(i \<mapsto> sid)\<rparr>)"

definition removeSocketTimer :: "int \<Rightarrow> ('u, 'x) reactor \<Rightarrow> ('u, 'x) reactor" where
  "removeSocketTimer sid r =
     (case rx_socket_to_timer r sid of None \<Rightarrow> r
      | Some i \<Rightarrow> stopTimer i (r\<lparr>rx_socket_to_timer := (rx_socket_to_timer r)(sid := None),
                                 rx_timer_to_socket := (rx_timer_to_socket r)(i := None)\<rparr>))"

definition onSendMessageError ::
  "('u, 'x) reactor_callbacks \<Rightarrow> timer_id \<Rightarrow> ('u, 'x) reactor \<Rightarrow> ('u, 'x) reactor" where
  "onSendMessageError cbs i r =
     (case rx_timer_to_socket r i of None \<Rightarrow> r
      | Some sid \<Rightarrow>
          let r1 = r\<lparr>rx_timer_to_socket := (rx_timer_to_socket r)(i := None),
                     rx_socket_to_timer := (rx_socket_to_timer r)(sid := None)\<rparr>
          in case rx_sockets r1 sid of None \<Rightarrow> r1
             | Some s \<Rightarrow> (case rx_connections r1 sid of None \<Rightarrow> r1
                          | Some c \<Rightarrow> cb_error cbs (dev_id s) (tc_error_code c) r1))"

text \<open>
  \<open>IOService::checkTimeout\<close> on a reactor: a timer's callback runs on the whole reactor. What the timers of other
  parts do is the parameter \<open>user\<close>.
\<close>

definition run_timer_cb ::
  "('u, 'x) reactor_callbacks \<Rightarrow> ('u \<Rightarrow> timer_id \<Rightarrow> ('u, 'x) reactor \<Rightarrow> ('u, 'x) reactor) \<Rightarrow> 'u timer_cb \<Rightarrow> timer_id \<Rightarrow>
     ('u, 'x) reactor \<Rightarrow> ('u, 'x) reactor" where
  "run_timer_cb cbs user cb i r =
     (case cb of OnSendMessageError \<Rightarrow> onSendMessageError cbs i r | UserTimer u \<Rightarrow> user u i r)"

definition reactor_checkTimeout ::
  "('u, 'x) reactor_callbacks \<Rightarrow> ('u \<Rightarrow> timer_id \<Rightarrow> ('u, 'x) reactor \<Rightarrow> ('u, 'x) reactor) \<Rightarrow> ('u, 'x) reactor \<Rightarrow>
     ('u, 'x) reactor option" where
  "reactor_checkTimeout cbs user r =
     do { (h, r1) \<leftarrow> checkTimeout (\<lambda>cb i (h, r). let r1 = run_timer_cb cbs user cb i (r\<lparr>rx_timers := h\<rparr>) in (rx_timers r1, r1))
                      (rx_clock r) (rx_timers r, r);
          Some (r1\<lparr>rx_timers := h\<rparr>) }"

subsection \<open>Reading\<close>

datatype read_end = Drained | PeerClosed | ReadError int

text \<open>
  The loop of \<open>onSocketRead\<close>: whether data arrived, why the loop ended, the buffer and the kernel after it.
\<close>

function read_loop ::
  "int \<Rightarrow> nat \<Rightarrow> bool \<Rightarrow> dynamic_buffer \<Rightarrow> kernel \<Rightarrow> (bool \<times> read_end \<times> dynamic_buffer \<times> kernel) option" where
  "read_loop sid mx data_arrive read_buffer k =
     (let (readable_bytes, k1) = sock_readableBytes k in
      if data_arrive \<and> readable_bytes = 0 then Some (data_arrive, Drained, read_buffer, k1)
      else
        let bytes_to_read = nat (max 1 readable_bytes) in
        if 0 < mx \<and> mx < sz_add bytes_to_read (readableBytes read_buffer)
        then Some (data_arrive, PeerClosed, read_buffer, k1)
        else case reserveWritableBytes bytes_to_read read_buffer of None \<Rightarrow> None
        | Some b1 \<Rightarrow>
            (case sock_recv sid bytes_to_read k1 of
               (RecvError e, k2) \<Rightarrow>
                 Some (data_arrive, if e = EAGAIN then Drained else ReadError e, b1, k2)
             | (Got bs, k2) \<Rightarrow>
                 if bs = [] then Some (data_arrive, PeerClosed, b1, k2)
                 else (case mem_write (db_buffer b1) (writeBegin b1) bs of None \<Rightarrow> None
                       | Some block \<Rightarrow> read_loop sid mx True (db_write (length bs) (b1\<lparr>db_buffer := block\<rparr>)) k2)))"
  by pat_completeness auto
termination
  by (relation "measure (\<lambda>(sid, mx, d, b, k). length (k_recvs k))")
    (auto simp: sock_recv_def sock_readableBytes_def split: list.splits recv_answer.splits if_splits)

declare read_loop.simps [simp del]

text \<open>What \<open>onSocketRead\<close> does after the loop: the callbacks, and its return value.\<close>

definition finish_read ::
  "('u, 'x) reactor_callbacks \<Rightarrow> int \<Rightarrow> bool \<Rightarrow> read_end \<Rightarrow> ('u, 'x) reactor \<Rightarrow> (int \<times> ('u, 'x) reactor) option" where
  "finish_read cbs sid data_arrive e r =
     (case e of
        ReadError errn \<Rightarrow> Some (-1, cb_error cbs sid errn (upd_conn sid (setError errn) r))
      | _ \<Rightarrow> do {
          r1 \<leftarrow> (if data_arrive then cb_recv_message cbs sid r else Some r);
          if e = PeerClosed then
            if data_arrive \<and> rx_connections r1 sid = None then Some (-1, r1)
            else Some (-1, cb_peer_close cbs sid (upd_conn sid (\<lambda>c. c\<lparr>tc_status := PEER_CLOSED\<rparr>) r1))
          else Some (0, r1) })"

definition onSocketRead ::
  "('u, 'x) reactor_callbacks \<Rightarrow> int \<Rightarrow> ('u, 'x) reactor \<Rightarrow> (int \<times> ('u, 'x) reactor) option" where
  "onSocketRead cbs sid r =
     (case rx_connections r sid of None \<Rightarrow> Some (-1, r)
      | Some connection \<Rightarrow>
          do { (data_arrive, e, b, k) \<leftarrow> read_loop sid (rx_read_max r) False (tc_read_buffer connection) (rx_kernel r);
               finish_read cbs sid data_arrive e ((upd_conn sid (\<lambda>c. c\<lparr>tc_read_buffer := b\<rparr>) r)\<lparr>rx_kernel := k\<rparr>) })"

subsection \<open>Writing\<close>

definition run_send_complete ::
  "('u, 'x) reactor_callbacks \<Rightarrow> send_complete \<Rightarrow> int \<Rightarrow> ('u, 'x) reactor \<Rightarrow> ('u, 'x) reactor" where
  "run_send_complete cbs cb sid r =
     (case cb of NoCallback \<Rightarrow> r | SendCompleteClose \<Rightarrow> cb_closeSocket cbs sid r)"

definition onSocketWrite ::
  "('u, 'x) reactor_callbacks \<Rightarrow> int \<Rightarrow> ('u, 'x) reactor \<Rightarrow> ('u, 'x) reactor option" where
  "onSocketWrite cbs sid r =
     (case rx_connections r sid of None \<Rightarrow> Some r
      | Some connection \<Rightarrow>
          do { let wb = tc_write_buffer connection;
               bs \<leftarrow> mem_read (db_buffer wb) (readBegin wb) (readableBytes wb);
               let (answer, k) = sock_send sid bs (rx_kernel r);
               let r1 = r\<lparr>rx_kernel := k\<rparr>;
               case answer of
                 SendFailed e \<Rightarrow>
                   if e \<noteq> EAGAIN then Some (cb_error cbs sid e (upd_conn sid (setError e) r1)) else Some r1
               | Sent write_size \<Rightarrow>
                   let wb1 = db_read write_size wb;
                       r2 = upd_conn sid (\<lambda>c. c\<lparr>tc_write_buffer := wb1\<rparr>) r1
                   in if readableBytes wb1 = 0
                      then Some (run_send_complete cbs (tc_send_complete_cb connection) sid
                             (upd_conn sid (\<lambda>c. c\<lparr>tc_send_complete_cb := NoCallback\<rparr>) (setWriteCallback sid False r2)))
                      else Some r2 })"

definition queue_rest ::
  "('u, 'x) reactor_callbacks \<Rightarrow> int \<Rightarrow> dynamic_buffer \<Rightarrow> bytes \<Rightarrow> nat \<Rightarrow> send_complete \<Rightarrow> ('u, 'x) reactor \<Rightarrow>
     (bool \<times> ('u, 'x) reactor) option" where
  "queue_rest cbs sid write_buffer buffer remain_size cb r =
     (if 0 < remain_size then
        if 0 < rx_write_max r \<and> rx_write_max r < sz_add remain_size (readableBytes write_buffer)
        then Some (False, addSocketTimer sid 0 OnSendMessageError (upd_conn sid (setError ENOBUFS) r))
        else do {
          wb \<leftarrow> reserveWritableBytes remain_size write_buffer;
          block \<leftarrow> mem_write (db_buffer wb) (writeBegin wb) (take remain_size buffer);
          let wb1 = db_write remain_size (wb\<lparr>db_buffer := block\<rparr>);
          Some (True, setWriteCallback sid True
            (upd_conn sid (\<lambda>c. c\<lparr>tc_write_buffer := wb1, tc_send_complete_cb := cb\<rparr>) r)) }
      else Some (True, run_send_complete cbs cb sid r))"

definition send_on_connection ::
  "('u, 'x) reactor_callbacks \<Rightarrow> int \<Rightarrow> tcp_connection \<Rightarrow> bytes \<Rightarrow> send_complete \<Rightarrow> ('u, 'x) reactor \<Rightarrow>
     (bool \<times> ('u, 'x) reactor) option" where
  "send_on_connection cbs sid connection buffer cb r =
     (if tc_status connection \<noteq> CONNECTED then Some (False, r)
      else
        let wb = tc_write_buffer connection in
        if readableBytes wb \<noteq> 0 then queue_rest cbs sid wb buffer (length buffer) cb r
        else case sock_send sid buffer (rx_kernel r) of
          (SendFailed e, k) \<Rightarrow>
            if e \<noteq> EAGAIN
            then Some (False, addSocketTimer sid 0 OnSendMessageError (upd_conn sid (setError e) (r\<lparr>rx_kernel := k\<rparr>)))
            else queue_rest cbs sid wb buffer (length buffer) cb (r\<lparr>rx_kernel := k\<rparr>)
        | (Sent write_size, k) \<Rightarrow>
            queue_rest cbs sid wb buffer (length buffer - write_size) cb (r\<lparr>rx_kernel := k\<rparr>))"

definition reactor_sendMessage ::
  "('u, 'x) reactor_callbacks \<Rightarrow> int \<Rightarrow> bytes \<Rightarrow> send_complete \<Rightarrow> ('u, 'x) reactor \<Rightarrow> (bool \<times> ('u, 'x) reactor) option" where
  "reactor_sendMessage cbs sid buffer cb r =
     (case rx_connections r sid of None \<Rightarrow> Some (False, r)
      | Some connection \<Rightarrow> send_on_connection cbs sid connection buffer cb r)"

definition sendMessageThenClose ::
  "('u, 'x) reactor_callbacks \<Rightarrow> int \<Rightarrow> bytes \<Rightarrow> ('u, 'x) reactor \<Rightarrow> (bool \<times> ('u, 'x) reactor) option" where
  "sendMessageThenClose cbs sid buffer r = reactor_sendMessage cbs sid buffer SendCompleteClose r"

text \<open>The broadcast visits the connections in the order of the hash map, given by the list of their ids.\<close>

primrec reactor_broadcast ::
  "('u, 'x) reactor_callbacks \<Rightarrow> int list \<Rightarrow> bytes \<Rightarrow> ('u, 'x) reactor \<Rightarrow> ('u, 'x) reactor option" where
  "reactor_broadcast cbs [] buffer r = Some r"
| "reactor_broadcast cbs (sid # sids) buffer r =
     do { (_, r1) \<leftarrow> reactor_sendMessage cbs sid buffer NoCallback r; reactor_broadcast cbs sids buffer r1 }"

definition onSocketError ::
  "('u, 'x) reactor_callbacks \<Rightarrow> int \<Rightarrow> int \<Rightarrow> int \<Rightarrow> ('u, 'x) reactor \<Rightarrow> ('u, 'x) reactor" where
  "onSocketError cbs sid so_error errn r =
     (case rx_connections r sid of None \<Rightarrow> r
      | Some _ \<Rightarrow> let socket_error = (if so_error = 0 then errn else so_error)
                  in cb_error cbs sid socket_error (upd_conn sid (setError socket_error) r))"

subsection \<open>Reading keeps every byte\<close>

lemma sock_readable_same:
  "sock_readableBytes k = (n, k1) \<Longrightarrow> k_recvs k1 = k_recvs k \<and> k_incoming k1 = k_incoming k \<and> k_wire k1 = k_wire k
     \<and> k_sends k1 = k_sends k"
  by (auto simp: sock_readableBytes_def split: list.splits)

lemma sock_recv_got:
  assumes "sock_recv sid n k = (Got bs, k2)"
  shows "length bs \<le> n" "k_incoming k sid = bs @ k_incoming k2 sid" "length (k_recvs k2) < length (k_recvs k)"
    "j \<noteq> sid \<Longrightarrow> k_incoming k2 j = k_incoming k j" "k_wire k2 = k_wire k"
  using assms by (auto simp: sock_recv_def split: list.splits recv_answer.splits if_splits)

lemma sock_recv_error:
  assumes "sock_recv sid n k = (RecvError e, k2)"
  shows "k_incoming k2 = k_incoming k" "k_wire k2 = k_wire k"
  using assms by (auto simp: sock_recv_def split: list.splits recv_answer.splits if_splits)

lemma store_received:
  assumes ok: "buffer_ok b" and n: "length bs \<le> n" and room: "room n b"
  shows "\<exists>b1 block. reserveWritableBytes n b = Some b1 \<and> mem_write (db_buffer b1) (writeBegin b1) bs = Some block
    \<and> buffer_ok (db_write (length bs) (b1\<lparr>db_buffer := block\<rparr>))
    \<and> content (db_write (length bs) (b1\<lparr>db_buffer := block\<rparr>)) = content b @ bs
    \<and> db_expand_size (db_write (length bs) (b1\<lparr>db_buffer := block\<rparr>)) = db_expand_size b
    \<and> length (db_buffer (db_write (length bs) (b1\<lparr>db_buffer := block\<rparr>))) \<le> length (db_buffer b) + n + db_expand_size b"
proof -
  obtain b1 where b1: "reserveWritableBytes n b = Some b1" "buffer_ok b1" "content b1 = content b"
    "n \<le> writableBytes b1" "db_expand_size b1 = db_expand_size b"
    "length (db_buffer b1) \<le> length (db_buffer b) + n + db_expand_size b"
    by (rule reserve_ok [OF ok room])
  have fits: "length bs \<le> writableBytes b1" using n b1(4) by simp
  obtain block where bl: "mem_write (db_buffer b1) (writeBegin b1) bs = Some block" "length block = length (db_buffer b1)"
    "buffer_ok (b1\<lparr>db_buffer := block, db_write_index := db_write_index b1 + length bs\<rparr>)"
    "content (b1\<lparr>db_buffer := block, db_write_index := db_write_index b1 + length bs\<rparr>) = content b1 @ bs"
    using writing_ok [OF b1(2) fits] by (auto simp: Let_def)
  have w: "writableBytes (b1\<lparr>db_buffer := block\<rparr>) = writableBytes b1" using bl(2) by (simp add: writableBytes_def)
  have "sz_add (db_write_index b1) (length bs) = db_write_index b1 + length bs"
    using b1(2) fits by (intro sz_add_small) (auto simp: buf_simps buffer_ok_def dest: vec_max_le_sz_max)
  then have "db_write (length bs) (b1\<lparr>db_buffer := block\<rparr>)
      = b1\<lparr>db_buffer := block, db_write_index := db_write_index b1 + length bs\<rparr>"
    using fits w by (simp add: db_write_def min_absorb1)
  then show ?thesis using b1 bl by auto
qed

text \<open>\<open>FIONREAD\<close> answers with an \<open>int\<close>.\<close>

definition int_answers :: "kernel \<Rightarrow> bool" where
  "int_answers k \<longleftrightarrow> (\<forall>n\<in>set (k_readable k). n < 2 ^ 31)"

lemma sock_readable_int:
  "sock_readableBytes k = (n, k1) \<Longrightarrow> int_answers k \<Longrightarrow> n < 2 ^ 31 \<and> int_answers k1"
  by (auto simp: sock_readableBytes_def int_answers_def split: list.splits)

lemma sock_recv_readable: "sock_recv sid n k = (x, k2) \<Longrightarrow> k_readable k2 = k_readable k"
  by (auto simp: sock_recv_def split: list.splits recv_answer.splits if_splits)

lemma int_answers_recv: "sock_recv sid n k = (x, k2) \<Longrightarrow> int_answers k2 = int_answers k"
  unfolding int_answers_def by (simp add: sock_recv_readable)

definition read_room :: "nat \<Rightarrow> dynamic_buffer \<Rightarrow> kernel \<Rightarrow> bool" where
  "read_room mx b k \<longleftrightarrow> 0 < mx
     \<and> length (db_buffer b) + (length (k_recvs k) + 1) * (mx + db_expand_size b) < vec_max"

text \<open>
  What the kernel gives a reader that has \<open>have\<close> bytes and takes at most \<open>mx\<close>: it asks how many bytes can be read - the first time it
  does not mind the answer 0 - and receives that many, at least one, until the answer is that there are none, a
  receive says so, the limit would be passed, the peer has shut down or the socket fails. The result is the bytes
  received, why it ended, and the kernel after it; there is no buffer and no memory in it.
\<close>

function kernel_gives :: "int \<Rightarrow> nat \<Rightarrow> nat \<Rightarrow> bool \<Rightarrow> kernel \<Rightarrow> bytes \<times> read_end \<times> kernel" where
  "kernel_gives sid mx have_bytes again k =
     (let (readable, k1) = sock_readableBytes k; want = nat (max 1 readable) in
      if again \<and> readable = 0 then ([], Drained, k1)
      else if 0 < mx \<and> mx < have_bytes + want then ([], PeerClosed, k1)
      else case sock_recv sid want k1 of
        (RecvError e, k2) \<Rightarrow> ([], if e = EAGAIN then Drained else ReadError e, k2)
      | (Got bs, k2) \<Rightarrow>
          if bs = [] then ([], PeerClosed, k2)
          else let (more, e, k3) = kernel_gives sid mx (have_bytes + length bs) True k2 in (bs @ more, e, k3))"
  by pat_completeness auto
termination
  by (relation "measure (\<lambda>(sid, mx, n, d, k). length (k_recvs k))")
    (auto simp: sock_recv_def sock_readableBytes_def split: list.splits recv_answer.splits if_splits)

declare kernel_gives.simps [simp del]

lemma read_loop_ok:
  assumes "buffer_ok b" and "read_room mx b k" and "int_answers k"
  shows "\<exists>d' e b' k'. read_loop sid mx d b k = Some (d', e, b', k') \<and> buffer_ok b' \<and> (d \<longrightarrow> d')
    \<and> content b' @ k_incoming k' sid = content b @ k_incoming k sid
    \<and> length (content b) \<le> length (content b') \<and> (\<not> d \<longrightarrow> d' = (length (content b) < length (content b')))
    \<and> (length (content b) \<le> mx \<longrightarrow> length (content b') \<le> mx)
    \<and> k_wire k' = k_wire k \<and> (\<forall>j. j \<noteq> sid \<longrightarrow> k_incoming k' j = k_incoming k j)
    \<and> (\<exists>got. content b' = content b @ got \<and> kernel_gives sid mx (length (content b)) d k = (got, e, k'))"
  using assms
proof (induction sid mx d b k rule: read_loop.induct)
  case (1 sid mx d b k)
  obtain n k1 where n: "sock_readableBytes k = (n, k1)" by (cases "sock_readableBytes k")
  note k1 = sock_readable_same [OF n] sock_readable_int [OF n "1.prems"(3)]
  let ?m = "nat (max 1 n)"
  have mb: "?m < 2 ^ 31" using k1 by auto
  have rb: "readableBytes b = length (content b)" using length_content [OF "1.prems"(1)] by simp
  have lb: "length (content b) < vec_max" using "1.prems"(1) by (auto simp: content_def buffer_ok_def)
  have add: "sz_add ?m (readableBytes b) = ?m + length (content b)"
    unfolding rb using mb lb by (intro sz_add_small) (simp add: vec_max_def sz_max_def)
  show ?case
  proof (cases "d \<and> n = 0 \<or> mx < ?m + length (content b)")
    case True
    then have "kernel_gives sid mx (length (content b)) d k = ([], if d \<and> n = 0 then Drained else PeerClosed, k1)"
      using n "1.prems"(2) by (subst kernel_gives.simps) (auto simp: read_room_def Let_def add.commute)
    with True show ?thesis
      using n add "1.prems" k1 by (subst read_loop.simps) (auto simp: read_room_def Let_def)
  next
    case False
    have small: "?m + db_expand_size b + length (db_buffer b) < vec_max"
    proof -
      define cost where "cost = (length (k_recvs k) + 1) * (mx + db_expand_size b)"
      obtain m where m: "m = ?m" by simp
      have "1 * (mx + db_expand_size b) \<le> cost" unfolding cost_def by (rule mult_le_mono1) simp
      moreover have "m \<le> mx" using False m by simp
      moreover have "length (db_buffer b) + cost < vec_max" using "1.prems"(2) by (simp add: read_room_def cost_def)
      ultimately show ?thesis unfolding m [symmetric] by simp
    qed
    then have room: "room ?m b" by (simp add: room_def)
    obtain b1 where b1: "reserveWritableBytes ?m b = Some b1" "buffer_ok b1" "content b1 = content b"
      by (rule reserve_ok [OF "1.prems"(1) room])
    obtain x k2 where x: "sock_recv sid ?m k1 = (x, k2)" by (cases "sock_recv sid ?m k1")
    have step: "read_loop sid mx d b k = (case x of
        RecvError e \<Rightarrow> Some (d, if e = EAGAIN then Drained else ReadError e, b1, k2)
      | Got bs \<Rightarrow> if bs = [] then Some (d, PeerClosed, b1, k2)
          else (case mem_write (db_buffer b1) (writeBegin b1) bs of None \<Rightarrow> None
                | Some block \<Rightarrow> read_loop sid mx True (db_write (length bs) (b1\<lparr>db_buffer := block\<rparr>)) k2))"
      using False n add b1(1) x by (subst read_loop.simps) (auto simp: Let_def)
    have gives: "kernel_gives sid mx (length (content b)) d k = (case x of
        RecvError e \<Rightarrow> ([], if e = EAGAIN then Drained else ReadError e, k2)
      | Got bs \<Rightarrow> if bs = [] then ([], PeerClosed, k2)
          else let (more, e, k3) = kernel_gives sid mx (length (content b) + length bs) True k2 in (bs @ more, e, k3))"
      using False n x by (subst kernel_gives.simps) (auto simp: Let_def add.commute)
    show ?thesis
    proof (cases x)
      case (RecvError e)
      then show ?thesis using step gives b1 k1 sock_recv_error [of sid ?m k1 e k2] x by simp
    next
      case (Got bs)
      note got = sock_recv_got [OF x [unfolded Got]]
      show ?thesis
      proof (cases "bs = []")
        case True
        then show ?thesis using step gives Got b1 k1 got by auto
      next
        case nonempty: False
        obtain block where st: "mem_write (db_buffer b1) (writeBegin b1) bs = Some block"
          "buffer_ok (db_write (length bs) (b1\<lparr>db_buffer := block\<rparr>))"
          "content (db_write (length bs) (b1\<lparr>db_buffer := block\<rparr>)) = content b @ bs"
          "db_expand_size (db_write (length bs) (b1\<lparr>db_buffer := block\<rparr>)) = db_expand_size b"
          "length (db_buffer (db_write (length bs) (b1\<lparr>db_buffer := block\<rparr>))) \<le> length (db_buffer b) + ?m + db_expand_size b"
          using store_received [OF "1.prems"(1) got(1) room] b1(1) by auto
        let ?b2 = "db_write (length bs) (b1\<lparr>db_buffer := block\<rparr>)"
        have rr: "read_room mx ?b2 k2"
        proof -
          have "length (k_recvs k2) + 1 \<le> length (k_recvs k)" using got(3) k1 by simp
          then have "(length (k_recvs k2) + 1) * (mx + db_expand_size b) \<le> length (k_recvs k) * (mx + db_expand_size b)"
            by (rule mult_le_mono1)
          moreover have "?m \<le> mx" using False by simp
          ultimately show ?thesis using "1.prems"(2) st(4,5) unfolding read_room_def by simp
        qed
        have ia: "int_answers k2" using int_answers_recv [OF x] k1 by simp
        have guards: "\<not> (d \<and> n = 0)" "\<not> (0 < mx \<and> mx < sz_add ?m (readableBytes b))" using False add by auto
        have "\<exists>d' e b' k'. read_loop sid mx True ?b2 k2 = Some (d', e, b', k') \<and> buffer_ok b' \<and> (True \<longrightarrow> d')
            \<and> content b' @ k_incoming k' sid = content ?b2 @ k_incoming k2 sid
            \<and> length (content ?b2) \<le> length (content b')
            \<and> (\<not> True \<longrightarrow> d' = (length (content ?b2) < length (content b')))
            \<and> (length (content ?b2) \<le> mx \<longrightarrow> length (content b') \<le> mx)
            \<and> k_wire k' = k_wire k2 \<and> (\<forall>j. j \<noteq> sid \<longrightarrow> k_incoming k' j = k_incoming k2 j)
            \<and> (\<exists>got. content b' = content ?b2 @ got \<and> kernel_gives sid mx (length (content ?b2)) True k2 = (got, e, k'))"
          by (rule "1.IH", rule refl, rule n [symmetric], rule guards(1), rule refl, rule guards(2), rule b1(1), rule x [symmetric],
              rule Got, rule nonempty, rule st(1), rule st(2), rule rr, rule ia)
        then obtain d' e b' k' got where r: "read_loop sid mx True ?b2 k2 = Some (d', e, b', k')" "buffer_ok b'" "d'"
          "content b' @ k_incoming k' sid = content ?b2 @ k_incoming k2 sid"
          "length (content ?b2) \<le> length (content b')" "length (content ?b2) \<le> mx \<longrightarrow> length (content b') \<le> mx"
          "k_wire k' = k_wire k2" "\<forall>j. j \<noteq> sid \<longrightarrow> k_incoming k' j = k_incoming k2 j"
          "content b' = content ?b2 @ got" "kernel_gives sid mx (length (content ?b2)) True k2 = (got, e, k')"
          by blast
        have le: "length (content b) + length bs \<le> mx" using False got(1) by simp
        have gt: "length (content b) < length (content ?b2)" using nonempty st(3) by simp
        have eq: "read_loop sid mx d b k = Some (d', e, b', k')" using step Got nonempty st(1) r(1) by simp
        have kept: "content b' @ k_incoming k' sid = content b @ k_incoming k sid"
          using r(4) st(3) got(2) k1 by simp
        have others: "\<forall>j. j \<noteq> sid \<longrightarrow> k_incoming k' j = k_incoming k j" using r(8) got(4) k1 by simp
        have wire: "k_wire k' = k_wire k" using r(7) got(5) k1 by simp
        have "length (content ?b2) \<le> mx" using le st(3) by simp
        then have "length (content b') \<le> mx" using r(6) by blast
        moreover have "length (content b) < length (content b')" using gt r(5) by linarith
        moreover have "kernel_gives sid mx (length (content b)) d k = (bs @ got, e, k')" "content b' = content b @ bs @ got"
          using gives Got nonempty r(9,10) st(3) by simp_all
        ultimately show ?thesis using eq r(2,3) kept others wire
          by (intro exI [of _ d'] exI [of _ e] exI [of _ b'] exI [of _ k'] conjI impI) simp_all
      qed
    qed
  qed
qed

subsection \<open>What goes out\<close>

text \<open>What a peer has got and will get: the bytes on the wire and the bytes that wait in the write buffer.\<close>

definition pending :: "('u, 'x) reactor \<Rightarrow> int \<Rightarrow> bytes" where
  "pending r sid = (case rx_connections r sid of None \<Rightarrow> [] | Some c \<Rightarrow> content (tc_write_buffer c))"

definition out_stream :: "('u, 'x) reactor \<Rightarrow> int \<Rightarrow> bytes" where
  "out_stream r sid = k_wire (rx_kernel r) sid @ pending r sid"

definition no_hard_error :: "kernel \<Rightarrow> bool" where
  "no_hard_error k \<longleftrightarrow> (case k_sends k of SendFailed e # _ \<Rightarrow> e = EAGAIN | _ \<Rightarrow> True)"

definition accepted :: "kernel \<Rightarrow> nat \<Rightarrow> nat" where
  "accepted k len = (case k_sends k of Sent n # _ \<Rightarrow> min n len | _ \<Rightarrow> 0)"

lemma take_min_length [simp]: "take (min n (length bs)) bs = take n bs"
  by (cases "n \<le> length bs") simp_all

lemma sock_send_cases:
  assumes "no_hard_error k"
  obtains (blocked) k' where "sock_send sid bs k = (SendFailed EAGAIN, k')" "k_wire k' = k_wire k" "accepted k (length bs) = 0"
  | (sent) k' where "sock_send sid bs k = (Sent (accepted k (length bs)), k')"
      "k_wire k' = (k_wire k)(sid := k_wire k sid @ take (accepted k (length bs)) bs)" "accepted k (length bs) \<le> length bs"
  using assms
  by (auto simp: sock_send_def no_hard_error_def accepted_def split: list.splits send_answer.splits)

lemma upd_conn_same [simp]: "rx_connections r sid = Some c \<Longrightarrow> rx_connections (upd_conn sid f r) sid = Some (f c)"
  by (simp add: upd_conn_def)

lemma upd_conn_simps [simp]:
  "rx_kernel (upd_conn sid f r) = rx_kernel r" "rx_sockets (upd_conn sid f r) = rx_sockets r"
  "rx_kernel (setWriteCallback sid on r) = rx_kernel r" "rx_connections (setWriteCallback sid on r) = rx_connections r"
  by (simp_all add: upd_conn_def setWriteCallback_def)

lemma queue_rest_ok:
  assumes c: "rx_connections r sid = Some c" and ok: "buffer_ok wb" and room: "room n wb"
    and n: "0 < n" "n \<le> length buffer" and lim: "rx_write_max r = 0 \<or> n + length (content wb) \<le> rx_write_max r"
  shows "\<exists>r' wb'. queue_rest cbs sid wb buffer n cb r = Some (True, r') \<and> buffer_ok wb'
    \<and> content wb' = content wb @ take n buffer
    \<and> rx_connections r' sid = Some (c\<lparr>tc_write_buffer := wb', tc_send_complete_cb := cb\<rparr>) \<and> rx_kernel r' = rx_kernel r
    \<and> rx_sockets r' = rx_sockets (setWriteCallback sid True r)"
proof -
  obtain b1 block where st: "reserveWritableBytes n wb = Some b1"
    "mem_write (db_buffer b1) (writeBegin b1) (take n buffer) = Some block"
    "buffer_ok (db_write (length (take n buffer)) (b1\<lparr>db_buffer := block\<rparr>))"
    "content (db_write (length (take n buffer)) (b1\<lparr>db_buffer := block\<rparr>)) = content wb @ take n buffer"
    using store_received [OF ok _ room, of "take n buffer"] by auto
  have "length (content wb) < vec_max" using ok by (auto simp: content_def buffer_ok_def)
  moreover have "n < vec_max" using room by (simp add: room_def)
  ultimately have "sz_add n (readableBytes wb) = n + length (content wb)"
    using length_content [OF ok] by (simp add: sz_add_small vec_max_def sz_max_def)
  then show ?thesis
    using st n lim c
    by (simp add: queue_rest_def min_absorb2 Let_def) (auto simp: setWriteCallback_def)
qed

lemma send_stream:
  assumes c: "rx_connections r sid = Some c" and st: "tc_status c = CONNECTED" and ok: "buffer_ok (tc_write_buffer c)"
    and room: "room (length buffer) (tc_write_buffer c)" and ne: "buffer \<noteq> []"
    and lim: "rx_write_max r = 0 \<or> length buffer + length (pending r sid) \<le> rx_write_max r"
    and err: "pending r sid \<noteq> [] \<or> no_hard_error (rx_kernel r)"
  defines "n \<equiv> (if pending r sid \<noteq> [] then 0 else accepted (rx_kernel r) (length buffer))"
  shows "\<exists>r'. reactor_sendMessage cbs sid buffer NoCallback r = Some (True, r')
    \<and> out_stream r' sid = out_stream r sid @ take n buffer @ take (length buffer - n) buffer"
proof -
  let ?wb = "tc_write_buffer c"
  have pend: "pending r sid = content ?wb" "readableBytes ?wb = length (content ?wb)"
    using c length_content [OF ok] by (simp_all add: pending_def)
  show ?thesis
  proof (cases "content ?wb = []")
    case False
    then have n: "n = 0" using pend by (simp add: n_def)
    obtain r' wb' where q: "queue_rest cbs sid ?wb buffer (length buffer) NoCallback r = Some (True, r')"
      "content wb' = content ?wb @ take (length buffer) buffer"
      "rx_connections r' sid = Some (c\<lparr>tc_write_buffer := wb', tc_send_complete_cb := NoCallback\<rparr>)"
      "rx_kernel r' = rx_kernel r"
      using queue_rest_ok [OF c ok room, of buffer cbs NoCallback] ne lim pend by auto
    have "reactor_sendMessage cbs sid buffer NoCallback r = Some (True, r')"
      using c st False pend q(1) by (simp add: reactor_sendMessage_def send_on_connection_def Let_def)
    moreover have "out_stream r' sid = out_stream r sid @ buffer"
      using q c by (simp add: out_stream_def pending_def)
    ultimately show ?thesis using n by auto
  next
    case True
    then have n: "n = accepted (rx_kernel r) (length buffer)" using pend by (simp add: n_def)
    have noerr: "no_hard_error (rx_kernel r)" using err True pend by simp
    from noerr show ?thesis
    proof (cases rule: sock_send_cases [where sid = sid and bs = buffer])
      case (blocked k')
      let ?r = "r\<lparr>rx_kernel := k'\<rparr>"
      obtain r' wb' where q: "queue_rest cbs sid ?wb buffer (length buffer) NoCallback ?r = Some (True, r')"
        "content wb' = content ?wb @ take (length buffer) buffer"
        "rx_connections r' sid = Some (c\<lparr>tc_write_buffer := wb', tc_send_complete_cb := NoCallback\<rparr>)"
        "rx_kernel r' = k'"
        using queue_rest_ok [of ?r sid c, OF _ ok room, of buffer cbs NoCallback] c ne lim pend by auto
      have "reactor_sendMessage cbs sid buffer NoCallback r = Some (True, r')"
        using c st True pend q(1) blocked(1) by (simp add: reactor_sendMessage_def send_on_connection_def Let_def)
      moreover have "out_stream r' sid = out_stream r sid @ buffer"
        using q c blocked(2) by (simp add: out_stream_def pending_def)
      ultimately show ?thesis using n blocked(3) by auto
    next
      case (sent k')
      let ?r = "r\<lparr>rx_kernel := k'\<rparr>"
      show ?thesis
      proof (cases "n = length buffer")
        case full: True
        have "reactor_sendMessage cbs sid buffer NoCallback r = Some (True, ?r)"
          using c st True pend sent(1) full n
          by (simp add: reactor_sendMessage_def send_on_connection_def Let_def queue_rest_def run_send_complete_def)
        moreover have "out_stream ?r sid = out_stream r sid @ buffer"
          using c sent(2) full n True by (simp add: out_stream_def pending_def)
        ultimately show ?thesis using full by auto
      next
        case False
        then have lt: "0 < length buffer - n" using sent(3) n by simp
        have room': "room (length buffer - n) ?wb" using room by (simp add: room_def)
        have lim': "rx_write_max ?r = 0 \<or> (length buffer - n) + length (content ?wb) \<le> rx_write_max ?r"
          using lim pend by auto
        obtain r' wb' where q: "queue_rest cbs sid ?wb buffer (length buffer - n) NoCallback ?r = Some (True, r')"
          "content wb' = content ?wb @ take (length buffer - n) buffer"
          "rx_connections r' sid = Some (c\<lparr>tc_write_buffer := wb', tc_send_complete_cb := NoCallback\<rparr>)"
          "rx_kernel r' = k'"
          using queue_rest_ok [of ?r sid c, OF _ ok room' lt _ lim', of buffer cbs NoCallback] c by auto
        have "reactor_sendMessage cbs sid buffer NoCallback r = Some (True, r')"
          using c st True pend q(1) sent(1) n by (simp add: reactor_sendMessage_def send_on_connection_def Let_def)
        moreover have "out_stream r' sid = out_stream r sid @ take n buffer @ take (length buffer - n) buffer"
          using q c sent(2) n True by (simp add: out_stream_def pending_def)
        ultimately show ?thesis by auto
      qed
    qed
  qed
qed

definition no_callbacks :: "('u, 'x) reactor_callbacks" where
  "no_callbacks = \<lparr>cb_recv_message = \<lambda>_ r. Some r, cb_peer_close = \<lambda>_ r. r, cb_error = \<lambda>_ _ r. r,
     cb_closeSocket = \<lambda>_ r. r\<rparr>"

text \<open>A reactor with one connected socket, id 7, and a script of kernel answers, for the examples.\<close>

definition example_kernel :: "send_answer list \<Rightarrow> recv_answer list \<Rightarrow> bytes \<Rightarrow> kernel" where
  "example_kernel sends recvs inc =
     \<lparr>k_sends = sends, k_recvs = recvs, k_readable = [], k_wire = \<lambda>_. [], k_incoming = \<lambda>_. inc\<rparr>"

definition example_connection :: "bytes \<Rightarrow> tcp_connection" where
  "example_connection waiting =
     \<lparr>tc_status = CONNECTED, tc_error_code = 0,
      tc_read_buffer = \<lparr>db_buffer = replicate 8 0, db_expand_size = 8, db_read_index = 0, db_write_index = 0\<rparr>,
      tc_write_buffer = \<lparr>db_buffer = waiting @ replicate 8 0, db_expand_size = 8, db_read_index = 0,
                         db_write_index = length waiting\<rparr>,
      tc_send_complete_cb = NoCallback\<rparr>"

definition example_reactor :: "kernel \<Rightarrow> bytes \<Rightarrow> (unit, unit) reactor" where
  "example_reactor k waiting =
     (Reactor 100 (Timestamp 0 0) k ())
       \<lparr>rx_sockets := [7 \<mapsto> \<lparr>dev_ptr = 1000, dev_id = 7, dev_fd = 4, dev_read_cb = True, dev_write_cb = waiting \<noteq> [],
                              dev_error_cb = True, dev_attached = True\<rparr>],
        rx_connections := [7 \<mapsto> example_connection waiting], rx_read_max := 64, rx_write_max := 64\<rparr>"

lemma example_ok:
  assumes "length waiting < 100"
  shows "rx_connections (example_reactor k waiting) 7 = Some (example_connection waiting)"
    "tc_status (example_connection waiting) = CONNECTED" "tc_send_complete_cb (example_connection waiting) = NoCallback"
    "buffer_ok (tc_write_buffer (example_connection waiting))" "buffer_ok (tc_read_buffer (example_connection waiting))"
    "content (tc_write_buffer (example_connection waiting)) = waiting"
    "content (tc_read_buffer (example_connection waiting)) = []"
    "pending (example_reactor k waiting) 7 = waiting" "rx_kernel (example_reactor k waiting) = k"
    "rx_write_max (example_reactor k waiting) = 64" "rx_read_max (example_reactor k waiting) = 64"
    "n < 100 \<Longrightarrow> room n (tc_write_buffer (example_connection waiting))"
  using assms
  by (simp_all add: example_reactor_def example_connection_def buffer_ok_def vec_max_def content_def pending_def
      Reactor_def room_def)

text \<open>
  C20: what a send adds to the stream. On a connected socket, with room in the write buffer and no hard error,
  \<open>sendMessage\<close> succeeds; if \<open>n\<close> bytes of the message go out at once (none when something is already pending
  or the kernel would block), the peer's stream grows by those \<open>n\<close> bytes and then by the first \<open>length - n\<close> bytes
  of the message, so the stream grows by the message exactly when its last \<open>length - n\<close> bytes equal its
  first ones, as when nothing or everything was accepted.
\<close>
theorem sendMessage_stream:
  assumes c: "rx_connections r sid = Some c" and st: "tc_status c = CONNECTED" and ok: "buffer_ok (tc_write_buffer c)"
    and room: "room (length buffer) (tc_write_buffer c)" and ne: "buffer \<noteq> []"
    and lim: "rx_write_max r = 0 \<or> length buffer + length (pending r sid) \<le> rx_write_max r"
    and err: "pending r sid \<noteq> [] \<or> no_hard_error (rx_kernel r)"
  defines "n \<equiv> (if pending r sid \<noteq> [] then 0 else accepted (rx_kernel r) (length buffer))"
  shows "\<exists>r'. reactor_sendMessage cbs sid buffer NoCallback r = Some (True, r')
    \<and> out_stream r' sid = out_stream r sid @ take n buffer @ take (length buffer - n) buffer
    \<and> (out_stream r' sid = out_stream r sid @ buffer \<longleftrightarrow> drop n buffer = take (length buffer - n) buffer)"
proof -
  obtain r' where r': "reactor_sendMessage cbs sid buffer NoCallback r = Some (True, r')"
    "out_stream r' sid = out_stream r sid @ take n buffer @ take (length buffer - n) buffer"
    using send_stream [OF assms(1-7), of cbs] unfolding n_def by blast
  have "take n buffer @ take (length buffer - n) buffer = buffer \<longleftrightarrow> take (length buffer - n) buffer = drop n buffer"
    using append_take_drop_id [of n buffer] by (metis same_append_eq)
  then show ?thesis using r' by (intro exI [of _ r']) auto
qed

theorem sendMessage_stream_witness:
  "\<exists>r'. reactor_sendMessage no_callbacks 7 [1, 2, 3] NoCallback (example_reactor (example_kernel [Sent 3] [] []) [])
       = Some (True, r') \<and> out_stream r' 7 = [1, 2, 3]"
proof -
  let ?r = "example_reactor (example_kernel [Sent 3] [] []) []"
  have n: "accepted (rx_kernel ?r) (length [1, 2, 3 :: byte]) = 3"
    by (simp add: example_ok example_kernel_def accepted_def)
  have "out_stream ?r 7 = []" by (simp add: out_stream_def example_ok example_kernel_def)
  then show ?thesis
    using sendMessage_stream [of ?r 7 "example_connection []" "[1, 2, 3]" no_callbacks] n
    by (simp add: example_ok) (auto simp: no_hard_error_def example_kernel_def)
qed

text \<open>
  A short write replays the head of the message. The kernel takes 2 of the 4 bytes 1, 2, 3, 4 of a message to
  a connected socket: what is queued for later is 1, 2 instead of 3, 4, and the peer's stream is 1, 2, 1, 2.
\<close>
theorem short_write_corrupts:
  "\<exists>r'. reactor_sendMessage no_callbacks 7 [1, 2, 3, 4] NoCallback (example_reactor (example_kernel [Sent 2] [] []) [])
       = Some (True, r') \<and> out_stream r' 7 = [1, 2, 1, 2]"
proof -
  let ?r = "example_reactor (example_kernel [Sent 2] [] []) []"
  have n: "accepted (rx_kernel ?r) (length [1, 2, 3, 4 :: byte]) = 2"
    by (simp add: example_ok example_kernel_def accepted_def)
  have "out_stream ?r 7 = []" by (simp add: out_stream_def example_ok example_kernel_def)
  then show ?thesis
    using send_stream [of ?r 7 "example_connection []" "[1, 2, 3, 4]" no_callbacks] n
    by (simp add: example_ok) (auto simp: no_hard_error_def example_kernel_def)
qed

lemma pending_content:
  assumes "rx_connections r sid = Some c" and "buffer_ok (tc_write_buffer c)"
  shows "pending r sid = content (tc_write_buffer c)"
    "mem_read (db_buffer (tc_write_buffer c)) (readBegin (tc_write_buffer c)) (readableBytes (tc_write_buffer c))
       = Some (pending r sid)"
  using assms by (simp_all add: pending_def read_content)

text \<open>
  flushing the write buffer loses and repeats nothing. When the socket is writable and there is no hard error,
  \<open>onSocketWrite\<close> returns, moves the \<open>n\<close> bytes the kernel accepts from the front of the write buffer to the wire,
  leaves the peer's stream as it was, and stops asking for write events once the buffer is empty.
\<close>
theorem onSocketWrite_flushes:
  assumes c: "rx_connections r sid = Some c" and ok: "buffer_ok (tc_write_buffer c)"
    and err: "no_hard_error (rx_kernel r)" and cb: "tc_send_complete_cb c = NoCallback"
  defines "n \<equiv> accepted (rx_kernel r) (length (pending r sid))"
  shows "\<exists>r'. onSocketWrite cbs sid r = Some r' \<and> out_stream r' sid = out_stream r sid
    \<and> pending r' sid = drop n (pending r sid)
    \<and> k_wire (rx_kernel r') sid = k_wire (rx_kernel r) sid @ take n (pending r sid)
    \<and> (0 < n \<and> pending r' sid = [] \<longrightarrow> (\<forall>s. rx_sockets r' sid = Some s \<longrightarrow> \<not> dev_write_cb s))"
proof -
  note p = pending_content [OF c ok]
  let ?wb = "tc_write_buffer c"
  from err show ?thesis
  proof (cases rule: sock_send_cases [where sid = sid and bs = "pending r sid"])
    case (blocked k')
    then have n: "n = 0" by (simp add: n_def)
    have "onSocketWrite cbs sid r = Some (r\<lparr>rx_kernel := k'\<rparr>)"
      using c p blocked(1) by (simp add: onSocketWrite_def)
    moreover have "pending (r\<lparr>rx_kernel := k'\<rparr>) sid = pending r sid" by (simp add: pending_def)
    ultimately show ?thesis using n blocked(2) by (simp add: out_stream_def)
  next
    case (sent k')
    note rd = db_read_ok [OF ok, of n]
    have ans: "sock_send sid (pending r sid) (rx_kernel r) = (Sent n, k')" using sent(1) by (simp add: n_def)
    have empty: "readableBytes (db_read n ?wb) = 0 \<longleftrightarrow> drop n (pending r sid) = []"
    proof -
      have "readableBytes (db_read n ?wb) = length (drop n (pending r sid))"
        using length_content [OF rd(1)] rd(2) p(1) by metis
      then show ?thesis by (simp only: length_0_conv)
    qed
    define r2 where "r2 = upd_conn sid (\<lambda>c. c\<lparr>tc_write_buffer := db_read n ?wb\<rparr>) (r\<lparr>rx_kernel := k'\<rparr>)"
    define r3 where "r3 = upd_conn sid (\<lambda>c. c\<lparr>tc_send_complete_cb := NoCallback\<rparr>) (setWriteCallback sid False r2)"
    have w: "onSocketWrite cbs sid r = Some (if drop n (pending r sid) = [] then r3 else r2)"
      using c p(2) ans empty cb
      by (simp add: onSocketWrite_def r2_def r3_def Let_def run_send_complete_def)
    have p2: "pending r2 sid = drop n (pending r sid)" "rx_kernel r2 = k'"
      using c rd p(1) by (simp_all add: pending_def r2_def)
    have p3: "pending r3 sid = drop n (pending r sid)" "rx_kernel r3 = k'"
      using c rd p(1) by (simp_all add: pending_def r2_def r3_def)
    have off: "\<forall>s. rx_sockets r3 sid = Some s \<longrightarrow> \<not> dev_write_cb s"
      by (auto simp: r3_def setWriteCallback_def)
    have wire: "k_wire k' sid = k_wire (rx_kernel r) sid @ take n (pending r sid)" using sent(2) by (simp add: n_def)
    show ?thesis
      using w p2 p3 off wire
      by (intro exI [of _ "if drop n (pending r sid) = [] then r3 else r2"]) (simp add: out_stream_def)
  qed
qed

theorem onSocketWrite_flushes_witness:
  "\<exists>r'. onSocketWrite no_callbacks 7 (example_reactor (example_kernel [Sent 2] [] []) [5, 6, 8]) = Some r'
    \<and> pending r' 7 = [8] \<and> k_wire (rx_kernel r') 7 = [5, 6]"
proof -
  let ?r = "example_reactor (example_kernel [Sent 2] [] []) [5, 6, 8]"
  have n: "accepted (rx_kernel ?r) (length (pending ?r 7)) = 2"
    by (simp add: example_ok example_kernel_def accepted_def)
  show ?thesis
    using onSocketWrite_flushes [of ?r 7 "example_connection [5, 6, 8]" no_callbacks] n
    by (simp add: example_ok) (auto simp: no_hard_error_def example_kernel_def)
qed

text \<open>
  C19: reading loses nothing and is bounded. For a connection with a limit on its read buffer, the loop of
  \<open>onSocketRead\<close> ends without touching memory outside of the buffer; what it read is appended to the read buffer and
  gone from the socket, in order; the buffer never grows beyond the limit; nothing else is read or sent; and the rest of the
  handler (callbacks and return value) runs on exactly that state.
\<close>
theorem onSocketRead_conserves:
  assumes c: "rx_connections r sid = Some c" and ok: "buffer_ok (tc_read_buffer c)"
    and room: "read_room (rx_read_max r) (tc_read_buffer c) (rx_kernel r)" and int: "int_answers (rx_kernel r)"
    and below: "length (content (tc_read_buffer c)) \<le> rx_read_max r"
  shows "\<exists>d e b k. onSocketRead cbs sid r =
      finish_read cbs sid d e ((upd_conn sid (\<lambda>c. c\<lparr>tc_read_buffer := b\<rparr>) r)\<lparr>rx_kernel := k\<rparr>)
    \<and> buffer_ok b \<and> content b @ k_incoming k sid = content (tc_read_buffer c) @ k_incoming (rx_kernel r) sid
    \<and> d = (length (content (tc_read_buffer c)) < length (content b)) \<and> length (content b) \<le> rx_read_max r
    \<and> k_wire k = k_wire (rx_kernel r) \<and> (\<forall>j. j \<noteq> sid \<longrightarrow> k_incoming k j = k_incoming (rx_kernel r) j)"
proof -
  obtain d e b k where l: "read_loop sid (rx_read_max r) False (tc_read_buffer c) (rx_kernel r) = Some (d, e, b, k)"
    "buffer_ok b" "content b @ k_incoming k sid = content (tc_read_buffer c) @ k_incoming (rx_kernel r) sid"
    "d = (length (content (tc_read_buffer c)) < length (content b))" "length (content b) \<le> rx_read_max r"
    "k_wire k = k_wire (rx_kernel r)" "\<forall>j. j \<noteq> sid \<longrightarrow> k_incoming k j = k_incoming (rx_kernel r) j"
    using read_loop_ok [OF ok room int, of sid False] below by blast
  then have "onSocketRead cbs sid r =
      finish_read cbs sid d e ((upd_conn sid (\<lambda>c. c\<lparr>tc_read_buffer := b\<rparr>) r)\<lparr>rx_kernel := k\<rparr>)"
    using c by (simp add: onSocketRead_def)
  then show ?thesis using l by blast
qed

theorem onSocketRead_conserves_witness:
  "\<exists>d e b k. onSocketRead no_callbacks 7 (example_reactor (example_kernel [] [Available 2, Available 9] [1, 2, 3]) []) =
      finish_read no_callbacks 7 d e ((upd_conn 7 (\<lambda>c. c\<lparr>tc_read_buffer := b\<rparr>)
        (example_reactor (example_kernel [] [Available 2, Available 9] [1, 2, 3]) []))\<lparr>rx_kernel := k\<rparr>)
    \<and> buffer_ok b \<and> content b @ k_incoming k 7 = [1, 2, 3]"
proof -
  let ?r = "example_reactor (example_kernel [] [Available 2, Available 9] [1, 2, 3]) []"
  have room: "read_room 64 (tc_read_buffer (example_connection [])) (example_kernel [] [Available 2, Available 9] [1, 2, 3])"
    by (simp add: read_room_def example_connection_def example_kernel_def vec_max_def)
  have int: "int_answers (example_kernel [] [Available 2, Available 9] [1, 2, 3])"
    by (simp add: int_answers_def example_kernel_def)
  have inc: "k_incoming (example_kernel [] [Available 2, Available 9] [1, 2, 3]) 7 = [1, 2, 3]"
    by (simp add: example_kernel_def)
  obtain d e b k where "onSocketRead no_callbacks 7 ?r =
      finish_read no_callbacks 7 d e ((upd_conn 7 (\<lambda>c. c\<lparr>tc_read_buffer := b\<rparr>) ?r)\<lparr>rx_kernel := k\<rparr>)"
    "buffer_ok b" "content b @ k_incoming k 7 = [1, 2, 3]"
    using onSocketRead_conserves [of ?r 7 "example_connection []" no_callbacks] room int inc
    by (auto simp: example_ok)
  then show ?thesis by blast
qed

subsection \<open>The state stays well formed\<close>

definition conn_ok :: "tcp_connection \<Rightarrow> bool" where
  "conn_ok c \<longleftrightarrow> buffer_ok (tc_read_buffer c) \<and> buffer_ok (tc_write_buffer c)"

definition reactor_inv :: "('u, 'x) reactor \<Rightarrow> bool" where
  "reactor_inv r \<longleftrightarrow> dom (rx_sockets r) = dom (rx_connections r)
     \<and> (\<forall>sid s. rx_sockets r sid = Some s \<longrightarrow> dev_id s = sid)
     \<and> (\<forall>sid c. rx_connections r sid = Some c \<longrightarrow> conn_ok c)
     \<and> 0 < rx_read_expand r \<and> 0 < rx_write_expand r"

lemma reserve_some_ok:
  assumes "buffer_ok b" and "reserveWritableBytes n b = Some b1"
  shows "buffer_ok b1"
  using assms
  by (auto simp: reserveWritableBytes_def buffer_ok_def mem_write_def mem_read_def vec_alloc_def split: if_splits bind_splits)

lemma store_some_ok:
  assumes "buffer_ok b" and "mem_write (db_buffer b) (writeBegin b) bs = Some block"
  shows "buffer_ok (db_write n (b\<lparr>db_buffer := block\<rparr>))"
proof -
  let ?b = "b\<lparr>db_buffer := block\<rparr>"
  have len: "length block = length (db_buffer b)" using assms(2) by (auto simp: mem_write_def split: if_splits)
  then have ok: "buffer_ok ?b" using assms(1) by (simp add: buffer_ok_def)
  have "sz_add (db_write_index ?b) (min n (writableBytes ?b)) = db_write_index ?b + min n (writableBytes ?b)"
    using ok by (intro sz_add_small) (auto simp: buf_simps buffer_ok_def dest: vec_max_le_sz_max)
  then show ?thesis using ok by (auto simp: db_write_def buf_simps buffer_ok_def)
qed

lemmas reserve_store_ok = store_some_ok [OF reserve_some_ok]

lemma read_loop_some_ok:
  assumes "buffer_ok b" and "read_loop sid mx d b k = Some (d', e, b', k')"
  shows "buffer_ok b'"
  using assms
proof (induction sid mx d b k rule: read_loop.induct)
  case (1 sid mx d b k)
  obtain n k1 where n: "sock_readableBytes k = (n, k1)" by (cases "sock_readableBytes k")
  note step = "1.prems"(2) [unfolded read_loop.simps [of sid mx d b k] n Let_def prod.case]
  show ?case
  proof (cases "(d \<and> n = 0) \<or> (0 < mx \<and> mx < sz_add (nat (max 1 n)) (readableBytes b))")
    case True
    then show ?thesis using step "1.prems"(1) by (auto split: if_splits)
  next
    case False
    then obtain b1 where b1: "reserveWritableBytes (nat (max 1 n)) b = Some b1"
      using step by (auto split: option.splits if_splits)
    have ok1: "buffer_ok b1" by (rule reserve_some_ok [OF "1.prems"(1) b1])
    obtain x k2 where x: "sock_recv sid (nat (max 1 n)) k1 = (x, k2)" by (cases "sock_recv sid (nat (max 1 n)) k1")
    show ?thesis
    proof (cases x)
      case (RecvError e)
      then show ?thesis using step False b1 x ok1 by (auto split: if_splits)
    next
      case (Got bs)
      show ?thesis
      proof (cases "bs = []")
        case True
        then show ?thesis using step False b1 x ok1 Got by (auto split: if_splits)
      next
        case ne: False
        obtain block where bl: "mem_write (db_buffer b1) (writeBegin b1) bs = Some block"
          and rest: "read_loop sid mx True (db_write (length bs) (b1\<lparr>db_buffer := block\<rparr>)) k2 = Some (d', e, b', k')"
          using step False b1 x Got ne by (auto split: option.splits if_splits)
        have "\<not> (d \<and> n = 0)" "\<not> (0 < mx \<and> mx < sz_add (nat (max 1 n)) (readableBytes b))" using False by auto
        then show ?thesis
          by (rule "1.IH" [OF refl n [symmetric] _ refl _ b1 x [symmetric] Got ne bl store_some_ok [OF ok1 bl] rest])
      qed
    qed
  qed
qed

lemma reactor_inv_upd_conn:
  assumes "reactor_inv r" and "\<And>c. rx_connections r sid = Some c \<Longrightarrow> conn_ok c \<Longrightarrow> conn_ok (f c)"
  shows "reactor_inv (upd_conn sid f r)"
  using assms by (auto simp: reactor_inv_def upd_conn_def split: if_splits)

lemma reactor_inv_setWriteCallback: "reactor_inv r \<Longrightarrow> reactor_inv (setWriteCallback sid on r)"
  by (auto simp: reactor_inv_def setWriteCallback_def dom_def)

lemma reactor_inv_setError: "reactor_inv r \<Longrightarrow> reactor_inv (upd_conn sid (setError e) r)"
  by (rule reactor_inv_upd_conn) (simp_all add: conn_ok_def setError_def)

lemma conn_ok_simps [simp]:
  "conn_ok (setError e c) = conn_ok c" "conn_ok (c\<lparr>tc_status := st\<rparr>) = conn_ok c"
  "conn_ok (c\<lparr>tc_send_complete_cb := cb\<rparr>) = conn_ok c"
  "conn_ok (c\<lparr>tc_write_buffer := wb\<rparr>) = (buffer_ok (tc_read_buffer c) \<and> buffer_ok wb)"
  "conn_ok (c\<lparr>tc_read_buffer := rb\<rparr>) = (buffer_ok rb \<and> buffer_ok (tc_write_buffer c))"
  by (simp_all add: conn_ok_def setError_def)

lemma reactor_inv_simps [simp]:
  "reactor_inv (r\<lparr>rx_kernel := k\<rparr>) = reactor_inv r" "reactor_inv (r\<lparr>rx_timers := h\<rparr>) = reactor_inv r"
  "reactor_inv (r\<lparr>rx_socket_to_timer := a\<rparr>) = reactor_inv r" "reactor_inv (r\<lparr>rx_timer_to_socket := z\<rparr>) = reactor_inv r"
  "reactor_inv (r\<lparr>rx_world := w\<rparr>) = reactor_inv r"
  by (simp_all add: reactor_inv_def)

lemma reactor_inv_timers [simp]:
  "reactor_inv (addSocketTimer sid ms cb r) = reactor_inv r" "reactor_inv (removeSocketTimer sid r) = reactor_inv r"
  by (simp_all add: addSocketTimer_def removeSocketTimer_def startTimer_def stopTimer_def split: prod.splits option.splits)

lemma reactor_inv_closeSocket: "reactor_inv r \<Longrightarrow> reactor_inv (reactor_closeSocket sid r)"
  by (auto simp: reactor_inv_def reactor_closeSocket_def)

lemma TcpConnection_ok:
  "TcpConnection a b c d = Some conn \<Longrightarrow> 0 < b \<Longrightarrow> 0 < d \<Longrightarrow> conn_ok conn"
  by (auto simp: TcpConnection_def DynamicBuffer_def vec_alloc_def conn_ok_def buffer_ok_def split: bind_splits if_splits)

lemma reactor_inv_attach:
  assumes "reactor_inv r" and "reactor_attachSocket peer r = Some (ok, r')"
  shows "reactor_inv r'"
proof (cases "rx_sockets r (dev_id peer)")
  case None
  then have "dev_id peer \<notin> dom (rx_connections r)" using assms(1) by (metis reactor_inv_def domIff)
  then have nc: "rx_connections r (dev_id peer) = None" by (simp add: domIff)
  obtain conn where conn: "TcpConnection (rx_read_init r) (rx_read_expand r) (rx_write_init r) (rx_write_expand r) = Some conn"
    and r': "r' = r\<lparr>rx_sockets := (rx_sockets r)(dev_id peer \<mapsto> peer\<lparr>dev_read_cb := True, dev_error_cb := True\<rparr>),
      rx_connections := (rx_connections r)(dev_id peer \<mapsto> conn\<lparr>tc_status := CONNECTED\<rparr>)\<rparr>"
    using None nc assms(2) by (auto simp: reactor_attachSocket_def split: bind_splits)
  have ok: "conn_ok (conn\<lparr>tc_status := CONNECTED\<rparr>)"
    using TcpConnection_ok [OF conn] assms(1) by (simp add: reactor_inv_def)
  have d: "dom (rx_sockets r') = dom (rx_connections r')" using assms(1) by (simp add: reactor_inv_def r')
  show ?thesis
    unfolding reactor_inv_def
    by (rule conjI, rule d) (use assms(1) ok in \<open>auto simp: reactor_inv_def r' simp del: conn_ok_simps\<close>)
next
  case (Some _)
  then show ?thesis using assms by (simp add: reactor_attachSocket_def)
qed

text \<open>
  What a reactor needs of its callbacks, and what its handlers then keep: an invariant that contains \<open>reactor_inv\<close>, that
  does not look at what the handlers themselves change, and that the callbacks keep. The instance for the callbacks
  of a network thread is in \<open>Net_Thread_Safety\<close>.
\<close>

locale reactor_callbacks_ok =
  fixes cbs :: "('u, 'x) reactor_callbacks" and inv :: "('u, 'x) reactor \<Rightarrow> bool"
  assumes inv_reactor: "inv r \<Longrightarrow> reactor_inv r"
    and inv_upd_conn: "inv r \<Longrightarrow> (\<And>c. rx_connections r sid = Some c \<Longrightarrow> conn_ok c \<Longrightarrow> conn_ok (f c)) \<Longrightarrow> inv (upd_conn sid f r)"
    and inv_kernel: "inv (r\<lparr>rx_kernel := k\<rparr>) = inv r"
    and inv_timers: "inv (r\<lparr>rx_timers := h\<rparr>) = inv r"
    and inv_socket_timer: "inv (r\<lparr>rx_socket_to_timer := m\<rparr>) = inv r"
    and inv_timer_socket: "inv (r\<lparr>rx_timer_to_socket := n\<rparr>) = inv r"
    and inv_write_cb: "inv r \<Longrightarrow> inv (setWriteCallback sid on r)"
    and recv_inv: "inv r \<Longrightarrow> cb_recv_message cbs sid r = Some r' \<Longrightarrow> inv r'"
    and peer_close_inv: "inv r \<Longrightarrow> inv (cb_peer_close cbs sid r)"
    and error_inv: "inv r \<Longrightarrow> inv (cb_error cbs sid e r)"
    and close_inv: "inv r \<Longrightarrow> inv (cb_closeSocket cbs sid r)"
begin

lemmas inv_fields = inv_kernel inv_timers inv_socket_timer inv_timer_socket

lemma inv_addSocketTimer: "inv (addSocketTimer sid ms cb r) = inv r"
  by (simp add: addSocketTimer_def startTimer_def inv_fields split: prod.splits)

lemma inv_removeSocketTimer: "inv (removeSocketTimer sid r) = inv r"
  by (simp add: removeSocketTimer_def stopTimer_def inv_fields split: option.splits)

lemma inv_setError: "inv r \<Longrightarrow> inv (upd_conn sid (setError e) r)"
  by (rule inv_upd_conn) simp_all

lemma inv_status: "inv r \<Longrightarrow> inv (upd_conn sid (\<lambda>c. c\<lparr>tc_status := st\<rparr>) r)"
  by (rule inv_upd_conn) simp_all

lemma inv_send_complete: "inv r \<Longrightarrow> inv (upd_conn sid (\<lambda>c. c\<lparr>tc_send_complete_cb := cb\<rparr>) r)"
  by (rule inv_upd_conn) simp_all

lemma inv_read_buffer: "inv r \<Longrightarrow> buffer_ok b \<Longrightarrow> inv (upd_conn sid (\<lambda>c. c\<lparr>tc_read_buffer := b\<rparr>) r)"
  by (rule inv_upd_conn) (simp_all add: conn_ok_def)

lemma inv_write_buffer: "inv r \<Longrightarrow> buffer_ok b \<Longrightarrow> inv (upd_conn sid (\<lambda>c. c\<lparr>tc_write_buffer := b\<rparr>) r)"
  by (rule inv_upd_conn) (simp_all add: conn_ok_def)

lemma inv_queue: "inv r \<Longrightarrow> buffer_ok b \<Longrightarrow> inv (upd_conn sid (\<lambda>c. c\<lparr>tc_write_buffer := b, tc_send_complete_cb := cb\<rparr>) r)"
  by (rule inv_upd_conn) (simp_all add: conn_ok_def)

lemmas inv_updates = inv_setError inv_status inv_send_complete inv_read_buffer inv_write_buffer inv_queue inv_write_cb

lemma conn_buffers:
  assumes "inv r" and "rx_connections r sid = Some c"
  shows "buffer_ok (tc_read_buffer c)" "buffer_ok (tc_write_buffer c)"
  using inv_reactor [OF assms(1)] assms(2) by (auto simp: reactor_inv_def conn_ok_def)

lemma finish_read_inv:
  assumes "inv r" and "finish_read cbs sid d e r = Some (v, r')"
  shows "inv r'"
  using assms
  by (auto simp: finish_read_def split: read_end.splits if_splits bind_splits
      intro!: error_inv peer_close_inv inv_setError inv_status elim: recv_inv)

lemma onSocketRead_inv:
  assumes "inv r" and "onSocketRead cbs sid r = Some (v, r')"
  shows "inv r'"
proof (cases "rx_connections r sid")
  case None
  then show ?thesis using assms by (simp add: onSocketRead_def)
next
  case (Some c)
  obtain d e b k where l: "read_loop sid (rx_read_max r) False (tc_read_buffer c) (rx_kernel r) = Some (d, e, b, k)"
    "finish_read cbs sid d e ((upd_conn sid (\<lambda>c. c\<lparr>tc_read_buffer := b\<rparr>) r)\<lparr>rx_kernel := k\<rparr>) = Some (v, r')"
    using assms(2) Some by (auto simp: onSocketRead_def split: bind_splits prod.splits)
  have "inv ((upd_conn sid (\<lambda>c. c\<lparr>tc_read_buffer := b\<rparr>) r)\<lparr>rx_kernel := k\<rparr>)"
    using read_loop_some_ok [OF conn_buffers(1) [OF assms(1) Some] l(1)] assms(1) by (simp add: inv_kernel inv_read_buffer)
  then show ?thesis using l(2) by (rule finish_read_inv)
qed

lemma run_send_complete_inv: "inv r \<Longrightarrow> inv (run_send_complete cbs cb sid r)"
  by (cases cb) (simp_all add: run_send_complete_def close_inv)

lemma onSocketWrite_inv:
  assumes "inv r" and "onSocketWrite cbs sid r = Some r'"
  shows "inv r'"
  using assms
  by (auto simp: onSocketWrite_def Let_def inv_kernel
      split: option.splits bind_splits prod.splits send_answer.splits if_splits
      intro!: error_inv run_send_complete_inv inv_updates db_read_ok(1) conn_buffers(2) [OF assms(1)])

lemma queue_rest_inv:
  assumes "inv r" and "buffer_ok wb" and "queue_rest cbs sid wb buffer n cb r = Some (v, r')"
  shows "inv r'"
  using assms
  by (auto simp: queue_rest_def Let_def inv_addSocketTimer split: bind_splits if_splits
      intro!: run_send_complete_inv inv_updates intro: reserve_store_ok)

lemma reactor_sendMessage_inv:
  assumes "inv r" and "reactor_sendMessage cbs sid buffer cb r = Some (v, r')"
  shows "inv r'"
proof (cases "rx_connections r sid")
  case None
  then show ?thesis using assms by (simp add: reactor_sendMessage_def)
next
  case (Some c)
  then show ?thesis
    using assms conn_buffers(2) [OF assms(1) Some]
    by (auto simp: reactor_sendMessage_def send_on_connection_def Let_def inv_addSocketTimer inv_kernel
        split: prod.splits send_answer.splits if_splits intro!: inv_setError elim: queue_rest_inv [rotated 2])
qed

lemma reactor_broadcast_inv:
  "inv r \<Longrightarrow> reactor_broadcast cbs sids buffer r = Some r' \<Longrightarrow> inv r'"
  by (induction sids arbitrary: r) (auto split: bind_splits dest: reactor_sendMessage_inv)

lemma onSocketError_inv: "inv r \<Longrightarrow> inv (onSocketError cbs sid so_error errn r)"
  by (auto simp: onSocketError_def Let_def split: option.splits intro!: error_inv inv_setError)

lemma onSendMessageError_inv: "inv r \<Longrightarrow> inv (onSendMessageError cbs i r)"
  by (auto simp: onSendMessageError_def Let_def inv_fields split: option.splits intro!: error_inv)

end

end
