(* ===== verification/Epoll_Reactor.thy ===== *)
theory Epoll_Reactor
  imports Tcp_Reactor
begin

text \<open>
  The reactor on epoll (\<open>net/epoll_reactor.h\<close>, \<open>.cc\<close>) and its event loop, which \<open>net/epoll_service.cc\<close> and
  \<open>net/epoll_acceptor.cc\<close> repeat.

  The world of such a reactor holds its \<open>Epoller\<close>, the live objects by address (\<open>ew_objects\<close>, what the
  pointers in the epoll registrations lead to), and the rest, a parameter. Deleting a socket closes its
  descriptor, and the kernel then forgets its registration.

  A round of the loop reads the clock, asks for the next timer, waits, dispatches and fires the timers. The kernel's
  answer to \<open>epoll_wait\<close> is a function of the timeout it is given.
\<close>

subsection \<open>State\<close>

datatype dev_ref = SocketRef int | PipeRef

record 'y epoll_world =
  ew_epoller :: epoller
  ew_objects :: "int \<rightharpoonup> dev_ref"
  ew_rest :: 'y

type_synonym ('u, 'y) epoll_reactor = "('u, 'y epoll_world) reactor"

definition the_epoller :: "('u, 'y) epoll_reactor \<Rightarrow> epoller" where
  "the_epoller r = ew_epoller (rx_world r)"

definition set_epoller :: "epoller \<Rightarrow> ('u, 'y) epoll_reactor \<Rightarrow> ('u, 'y) epoll_reactor" where
  "set_epoller e r = r\<lparr>rx_world := (rx_world r)\<lparr>ew_epoller := e\<rparr>\<rparr>"

definition upd_rest :: "('y \<Rightarrow> 'y) \<Rightarrow> ('u, 'y) epoll_reactor \<Rightarrow> ('u, 'y) epoll_reactor" where
  "upd_rest f r = r\<lparr>rx_world := (rx_world r)\<lparr>ew_rest := f (ew_rest (rx_world r))\<rparr>\<rparr>"

definition object_at :: "int \<Rightarrow> dev_ref option \<Rightarrow> ('u, 'y) epoll_reactor \<Rightarrow> ('u, 'y) epoll_reactor" where
  "object_at p x r = r\<lparr>rx_world := (rx_world r)\<lparr>ew_objects := (ew_objects (rx_world r))(p := x)\<rparr>\<rparr>"

definition EpollReactor :: "int \<Rightarrow> timestamp \<Rightarrow> kernel \<Rightarrow> nat \<Rightarrow> int \<Rightarrow> bool \<Rightarrow> 'y \<Rightarrow> ('u, 'y) epoll_reactor" where
  "EpollReactor max_socket_num now k limit fd cloexec y =
     Reactor max_socket_num now k
       \<lparr>ew_epoller = snd (ep_create fd cloexec (Epoller limit)), ew_objects = Map.empty, ew_rest = y\<rparr>"

subsection \<open>Devices of the reactor\<close>

definition er_addIODevice :: "io_device \<Rightarrow> ('u, 'y) epoll_reactor \<Rightarrow> bool \<times> ('u, 'y) epoll_reactor" where
  "er_addIODevice d r = (let (ok, e) = ep_add d (the_epoller r) in (ok, set_epoller e r))"

definition er_removeIODevice :: "io_device \<Rightarrow> ('u, 'y) epoll_reactor \<Rightarrow> bool \<times> ('u, 'y) epoll_reactor" where
  "er_removeIODevice d r = (let (ok, e) = ep_del d (the_epoller r) in (ok, set_epoller e r))"

text \<open>The destructor of a device: its descriptor is closed and its memory given back.\<close>

definition destroy_device :: "io_device \<Rightarrow> ('u, 'y) epoll_reactor \<Rightarrow> ('u, 'y) epoll_reactor" where
  "destroy_device d r =
     object_at (dev_ptr d) None
       (set_epoller ((the_epoller r)\<lparr>ek_interest := (ek_interest (the_epoller r))(dev_fd d := None)\<rparr>) r)"

definition er_closeSocket :: "int \<Rightarrow> ('u, 'y) epoll_reactor \<Rightarrow> ('u, 'y) epoll_reactor" where
  "er_closeSocket sid r =
     (case rx_sockets r sid of None \<Rightarrow> r
      | Some s \<Rightarrow> let (s1, r1) = detachIOService er_removeIODevice s r
                  in destroy_device s1 (reactor_closeSocket sid r1))"

text \<open>
  When the socket cannot be attached, or its id is taken, the caller keeps it. \<open>TcpConnection\<close> can
  only fail for want of memory.
\<close>

definition er_attachSocket ::
  "tcp_socket \<Rightarrow> ('u, 'y) epoll_reactor \<Rightarrow> (bool \<times> ('u, 'y) epoll_reactor) option" where
  "er_attachSocket peer r =
     (if rx_sockets r (dev_id peer) \<noteq> None then Some (False, r)
      else
        let (ok, peer1, r1) = attachIOService er_addIODevice er_removeIODevice
                                (peer\<lparr>dev_read_cb := True, dev_error_cb := True\<rparr>) r
        in if \<not> ok then Some (False, r1)
           else do {
             connection \<leftarrow> TcpConnection (rx_read_init r1) (rx_read_expand r1) (rx_write_init r1) (rx_write_expand r1);
             Some (True, object_at (dev_ptr peer1) (Some (SocketRef (dev_id peer1)))
               (r1\<lparr>rx_sockets := (rx_sockets r1)(dev_id peer1 \<mapsto> peer1),
                   rx_connections := (if rx_connections r1 (dev_id peer1) \<noteq> None then rx_connections r1
                     else (rx_connections r1)(dev_id peer1 \<mapsto> connection\<lparr>tc_status := CONNECTED\<rparr>))\<rparr>)) })"

subsection \<open>The event loop\<close>

definition MAX_EPOLL_TIMEOUT_MSEC :: int where
  "MAX_EPOLL_TIMEOUT_MSEC = 30 * 60 * 1000"

text \<open>The timeout given to \<open>epoll_wait\<close>: an \<open>int64_t\<close> stored in an \<open>int\<close>, with -1 turned into 0.\<close>

definition wait_timeout :: "timestamp \<Rightarrow> 'cb timer_heap \<Rightarrow> int" where
  "wait_timeout now h =
     (let timer_timeout = sint (word_of_int (getNextTimeoutMillisecond now h) :: 32 word);
          timeout = (if timer_timeout = -1 then 0 else timer_timeout)
      in min timeout MAX_EPOLL_TIMEOUT_MSEC)"

record round =
  rd_before :: timestamp
  rd_answer :: "int \<Rightarrow> wait_answer"
  rd_after :: timestamp

definition er_round ::
  "(('u, 'y) epoll_reactor) dispatch \<Rightarrow> (('u, 'y) epoll_reactor \<Rightarrow> ('u, 'y) epoll_reactor option) \<Rightarrow> round \<Rightarrow>
     ('u, 'y) epoll_reactor \<Rightarrow> dispatch_error + ('u, 'y) epoll_reactor" where
  "er_round ds check_timeout rd r =
     (let r1 = r\<lparr>rx_clock := rd_before rd\<rparr> in
      bind_sum (doEvent ds (rd_answer rd (wait_timeout (rd_before rd) (rx_timers r1))) r1) (\<lambda>(ret, r2).
        if ret = -1 then Inr (r2\<lparr>rx_quit := True\<rparr>)
        else case check_timeout (r2\<lparr>rx_clock := rd_after rd\<rparr>) of None \<Rightarrow> Inl CallbackFailed | Some r3 \<Rightarrow> Inr r3))"

primrec er_rounds ::
  "(('u, 'y) epoll_reactor) dispatch \<Rightarrow> (('u, 'y) epoll_reactor \<Rightarrow> ('u, 'y) epoll_reactor option) \<Rightarrow> round list \<Rightarrow>
     ('u, 'y) epoll_reactor \<Rightarrow> dispatch_error + ('u, 'y) epoll_reactor" where
  "er_rounds ds check_timeout [] r = Inr r"
| "er_rounds ds check_timeout (rd # rds) r =
     (if rx_quit r then Inr r else bind_sum (er_round ds check_timeout rd r) (er_rounds ds check_timeout rds))"

definition er_loop ::
  "(('u, 'y) epoll_reactor) dispatch \<Rightarrow> (('u, 'y) epoll_reactor \<Rightarrow> ('u, 'y) epoll_reactor option) \<Rightarrow> round list \<Rightarrow>
     ('u, 'y) epoll_reactor \<Rightarrow> dispatch_error + ('u, 'y) epoll_reactor" where
  "er_loop ds check_timeout rds r = er_rounds ds check_timeout rds (reactor_start r)"

subsection \<open>How long the loop sleeps\<close>

lemma sint32_id: "- (2 ^ 31) \<le> i \<Longrightarrow> i < 2 ^ 31 \<Longrightarrow> sint (word_of_int i :: 32 word) = i"
  using signed_take_bit_int_eq_self [of 31 i] by (simp add: sint_sbintrunc')

lemma sint32_wraps:
  assumes "2 ^ 31 \<le> i" and "i < 2 ^ 32"
  shows "sint (word_of_int i :: 32 word) = i - 2 ^ 32"
proof -
  have "(word_of_int i :: 32 word) = word_of_int (i - 2 ^ 32)" by simp
  also have "sint \<dots> = i - 2 ^ 32" using assms by (intro sint32_id) simp_all
  finally show ?thesis .
qed

text \<open>
  How long the event loop may sleep. It asks epoll not to wait at all when no timer is pending or one is overdue; a
  deadline less than \<open>2 ^ 31\<close> milliseconds away gives its distance, at most half an hour; but a deadline
  \<open>2 ^ 31\<close> to \<open>2 ^ 32 - 2\<close> milliseconds away (25 to 50 days) gives a negative timeout, for which epoll
  waits without limit.
\<close>
theorem wait_timeout_value:
  assumes "-1 \<le> getNextTimeoutMillisecond now h" and "getNextTimeoutMillisecond now h < 2 ^ 32 - 1"
  shows "wait_timeout now h =
    (if getNextTimeoutMillisecond now h = -1 then 0
     else if getNextTimeoutMillisecond now h < 2 ^ 31 then min (getNextTimeoutMillisecond now h) 1800000
     else getNextTimeoutMillisecond now h - 2 ^ 32)"
proof (cases "getNextTimeoutMillisecond now h < 2 ^ 31")
  case True
  then have "sint (word_of_int (getNextTimeoutMillisecond now h) :: 32 word) = getNextTimeoutMillisecond now h"
    using assms by (intro sint32_id) simp_all
  then show ?thesis using True by (simp add: wait_timeout_def Let_def MAX_EPOLL_TIMEOUT_MSEC_def)
next
  case False
  then have "sint (word_of_int (getNextTimeoutMillisecond now h) :: 32 word) = getNextTimeoutMillisecond now h - 2 ^ 32"
    using assms by (intro sint32_wraps) simp_all
  then show ?thesis using False assms by (simp add: wait_timeout_def Let_def MAX_EPOLL_TIMEOUT_MSEC_def)
qed

definition far_timer :: "unit timer_heap" where
  "far_timer = snd (addTimer (Timestamp 0 0) 3000000000 () 1 TimerHeap)"

lemma far_timer_next: "getNextTimeoutMillisecond (Timestamp 0 0) far_timer = 3000000000"
  by code_simp

theorem wait_timeout_value_witness:
  "wait_timeout (Timestamp 0 0) far_timer = - 1294967296"
  using wait_timeout_value [of "Timestamp 0 0" far_timer] by (simp add: far_timer_next)

end
