(* ===== verification/Message_Queue.thy ===== *)
theory Message_Queue
  imports Io_Device
begin

text \<open>
  The queue between threads (\<open>concurrent_queue.h\<close>, \<open>net/self_pipe.h\<close>, \<open>.cc\<close>, \<open>net/message_queue.h\<close>).

  An operation of \<open>ConcurrentQueue\<close> runs under the queue's lock, so it is a function; \<open>None\<close> means that the
  caller waits on a condition variable with the queue unchanged. A \<open>MessageQueue\<close> adds a pipe: a push
  appends the item and then writes one byte, two steps between which other threads run, and the reader empties the
  pipe and then pops. The second half of the theory interleaves these steps.
\<close>

subsection \<open>The concurrent queue\<close>

record 'a concurrent_queue =
  cq_items :: "'a list"
  cq_max_size :: nat
  cq_bounded :: bool

definition ConcurrentQueue :: "nat \<Rightarrow> 'a concurrent_queue" where
  "ConcurrentQueue max_size = \<lparr>cq_items = [], cq_max_size = max_size, cq_bounded = (max_size \<noteq> 0)\<rparr>"

definition cq_size :: "'a concurrent_queue \<Rightarrow> nat" where
  "cq_size q = length (cq_items q)"

definition cq_empty :: "'a concurrent_queue \<Rightarrow> bool" where
  "cq_empty q \<longleftrightarrow> cq_items q = []"

definition fullNoLock :: "'a concurrent_queue \<Rightarrow> bool" where
  "fullNoLock q \<longleftrightarrow> cq_bounded q \<and> cq_max_size q \<le> length (cq_items q)"

definition cq_push :: "'a \<Rightarrow> 'a concurrent_queue \<Rightarrow> 'a concurrent_queue option" where
  "cq_push x q = (if fullNoLock q then None else Some (q\<lparr>cq_items := cq_items q @ [x]\<rparr>))"

definition pushIfNotFull :: "'a \<Rightarrow> 'a concurrent_queue \<Rightarrow> bool \<times> 'a concurrent_queue" where
  "pushIfNotFull x q = (if fullNoLock q then (False, q) else (True, q\<lparr>cq_items := cq_items q @ [x]\<rparr>))"

definition cq_pop :: "'a concurrent_queue \<Rightarrow> ('a \<times> 'a concurrent_queue) option" where
  "cq_pop q = (case cq_items q of [] \<Rightarrow> None | x # xs \<Rightarrow> Some (x, q\<lparr>cq_items := xs\<rparr>))"

definition popIfNotEmpty :: "'a concurrent_queue \<Rightarrow> 'a option \<times> 'a concurrent_queue" where
  "popIfNotEmpty q = (case cq_items q of [] \<Rightarrow> (None, q) | x # xs \<Rightarrow> (Some x, q\<lparr>cq_items := xs\<rparr>))"

definition cq_peek :: "'a concurrent_queue \<Rightarrow> 'a option" where
  "cq_peek q = (case cq_items q of [] \<Rightarrow> None | x # _ \<Rightarrow> Some x)"

definition cq_ok :: "'a concurrent_queue \<Rightarrow> bool" where
  "cq_ok q \<longleftrightarrow> cq_bounded q = (cq_max_size q \<noteq> 0) \<and> (cq_bounded q \<longrightarrow> length (cq_items q) \<le> cq_max_size q)"

lemmas cq_defs = cq_push_def pushIfNotFull_def cq_pop_def popIfNotEmpty_def cq_peek_def fullNoLock_def

subsection \<open>The pipe\<close>

text \<open>The read end is the device's descriptor, \<open>sp_fd1\<close> the write end, \<open>sp_bytes\<close> the bytes in the pipe.\<close>

record self_pipe =
  sp_device :: io_device
  sp_fd1 :: int
  sp_bytes :: nat
  sp_nonblock :: bool

definition pipe_capacity :: nat where
  "pipe_capacity = 65536"

definition SelfPipe :: "int \<Rightarrow> self_pipe" where
  "SelfPipe p = \<lparr>sp_device = IODevice p, sp_fd1 = -1, sp_bytes = 0, sp_nonblock = False\<rparr>"

definition sp_close :: "(io_device \<Rightarrow> 's \<Rightarrow> bool \<times> 's) \<Rightarrow> self_pipe \<Rightarrow> 's \<Rightarrow> self_pipe \<times> 's" where
  "sp_close remove p s =
     (let (d, s1) = detachIOService remove (sp_device p) s
      in (p\<lparr>sp_device := d\<lparr>dev_fd := -1\<rparr>, sp_fd1 := -1, sp_bytes := 0\<rparr>, s1))"

text \<open>\<open>fds\<close> is what \<open>pipe\<close> gives.\<close>

definition sp_open ::
  "(io_device \<Rightarrow> 's \<Rightarrow> bool \<times> 's) \<Rightarrow> (int \<times> int) option \<Rightarrow> self_pipe \<Rightarrow> 's \<Rightarrow> bool \<times> self_pipe \<times> 's" where
  "sp_open remove fds p s =
     (let (p1, s1) = (if dev_fd (sp_device p) \<noteq> -1 then sp_close remove p s else (p, s))
      in case fds of None \<Rightarrow> (False, p1, s1)
         | Some (rd, wr) \<Rightarrow> (True, p1\<lparr>sp_device := (sp_device p1)\<lparr>dev_fd := rd\<rparr>, sp_fd1 := wr, sp_bytes := 0\<rparr>, s1))"

text \<open>Reading an empty pipe that is not in non-blocking mode never returns: \<open>None\<close>.\<close>

definition sp_read :: "nat \<Rightarrow> self_pipe \<Rightarrow> (int \<times> self_pipe) option" where
  "sp_read n p =
     (if sp_bytes p = 0 then (if sp_nonblock p then Some (-1, p) else None)
      else Some (int (min n (sp_bytes p)), p\<lparr>sp_bytes := sp_bytes p - min n (sp_bytes p)\<rparr>))"

definition sp_write :: "nat \<Rightarrow> self_pipe \<Rightarrow> int \<times> self_pipe" where
  "sp_write n p =
     (if pipe_capacity < sp_bytes p + n then (-1, p) else (int n, p\<lparr>sp_bytes := sp_bytes p + n\<rparr>))"

text \<open>The two \<open>fcntl\<close> calls on each end succeed or not.\<close>

definition sp_setNonblock :: "bool \<times> bool \<Rightarrow> self_pipe \<Rightarrow> bool \<times> self_pipe" where
  "sp_setNonblock ok p =
     (if \<not> fst ok then (False, p) else if \<not> snd ok then (False, p\<lparr>sp_nonblock := True\<rparr>) else (True, p\<lparr>sp_nonblock := True\<rparr>))"

definition sp_setCloseOnExec :: "bool \<times> bool \<Rightarrow> bool" where
  "sp_setCloseOnExec ok = (if \<not> fst ok then False else if \<not> snd ok then False else True)"

subsection \<open>The message queue\<close>

record 'a message_queue =
  mq_queue :: "'a concurrent_queue"
  mq_pipe :: self_pipe

definition MessageQueue :: "nat \<Rightarrow> int \<Rightarrow> 'a message_queue" where
  "MessageQueue max_size p = \<lparr>mq_queue = ConcurrentQueue max_size, mq_pipe = SelfPipe p\<rparr>"

definition mq_attach ::
  "(io_device \<Rightarrow> 's \<Rightarrow> bool \<times> 's) \<Rightarrow> (io_device \<Rightarrow> 's \<Rightarrow> bool \<times> 's) \<Rightarrow> (int \<times> int) option \<Rightarrow> bool \<times> bool \<Rightarrow> bool \<times> bool \<Rightarrow>
     'a message_queue \<Rightarrow> 's \<Rightarrow> bool \<times> 'a message_queue \<times> 's" where
  "mq_attach add remove fds nonblock cloexec q s =
     (let (opened, p1, s1) = sp_open remove fds (mq_pipe q) s in
      if \<not> opened then (False, q\<lparr>mq_pipe := p1\<rparr>, s1)
      else let (nb, p2) = sp_setNonblock nonblock p1 in
        if \<not> nb \<or> \<not> sp_setCloseOnExec cloexec then (False, q\<lparr>mq_pipe := p2\<rparr>, s1)
        else let (ok, d, s2) = attachIOService add remove ((sp_device p2)\<lparr>dev_read_cb := True\<rparr>) s1
             in (ok, q\<lparr>mq_pipe := p2\<lparr>sp_device := d\<rparr>\<rparr>, s2))"

definition mq_push :: "'a \<Rightarrow> 'a message_queue \<Rightarrow> 'a message_queue option" where
  "mq_push x q =
     do { items \<leftarrow> cq_push x (mq_queue q);
          Some (q\<lparr>mq_queue := items, mq_pipe := snd (sp_write 1 (mq_pipe q))\<rparr>) }"

definition mq_pop :: "'a message_queue \<Rightarrow> 'a option \<times> 'a message_queue" where
  "mq_pop q = (let (x, items) = popIfNotEmpty (mq_queue q) in (x, q\<lparr>mq_queue := items\<rparr>))"

definition mq_peek :: "'a message_queue \<Rightarrow> 'a option" where
  "mq_peek q = cq_peek (mq_queue q)"

definition mq_size :: "'a message_queue \<Rightarrow> nat" where
  "mq_size q = cq_size (mq_queue q)"

definition mq_yield :: "'a message_queue \<Rightarrow> 'a message_queue" where
  "mq_yield q = q\<lparr>mq_pipe := snd (sp_write 1 (mq_pipe q))\<rparr>"

text \<open>The loop \<open>while (pipe_.read(buffer, 1024) > 0);\<close> at the start of \<open>pipeReadCallback\<close>.\<close>

function sp_drain :: "self_pipe \<Rightarrow> self_pipe option" where
  "sp_drain p =
     (case sp_read 1024 p of None \<Rightarrow> None
      | Some (n, p1) \<Rightarrow> if 0 < n then sp_drain p1 else Some p1)"
  by pat_completeness auto
termination
  by (relation "measure sp_bytes") (auto simp: sp_read_def split: if_splits)

declare sp_drain.simps [simp del]

definition mq_drain :: "'a message_queue \<Rightarrow> 'a message_queue option" where
  "mq_drain q = map_option (\<lambda>p. q\<lparr>mq_pipe := p\<rparr>) (sp_drain (mq_pipe q))"

lemma sp_drain_empties: "sp_nonblock p \<Longrightarrow> sp_drain p = Some (p\<lparr>sp_bytes := 0\<rparr>)"
proof (induction p rule: sp_drain.induct)
  case (1 p)
  show ?case
  proof (cases "sp_bytes p = 0")
    case True
    then show ?thesis using "1.prems" by (subst sp_drain.simps) (cases p, simp add: sp_read_def)
  next
    case False
    define p1 where "p1 = p\<lparr>sp_bytes := sp_bytes p - min 1024 (sp_bytes p)\<rparr>"
    have rd: "sp_read 1024 p = Some (int (min 1024 (sp_bytes p)), p1)" using False by (simp add: sp_read_def p1_def)
    have "sp_drain p1 = Some (p1\<lparr>sp_bytes := 0\<rparr>)"
      by (rule "1.IH" [OF rd refl]) (use False "1.prems" in \<open>simp_all add: p1_def\<close>)
    then show ?thesis using rd False by (subst sp_drain.simps) (simp add: p1_def)
  qed
qed

text \<open>Attaching a new queue: the pipe's read end is the device that the service gets.\<close>

lemma mq_attach_new:
  assumes "mq_attach add remove fds nonblock cloexec (MessageQueue n p) s = (True, q, s2)"
  obtains rd wr where "fds = Some (rd, wr)" "add ((IODevice p)\<lparr>dev_fd := rd, dev_read_cb := True\<rparr>) s = (True, s2)"
    "sp_device (mq_pipe q) = (IODevice p)\<lparr>dev_fd := rd, dev_read_cb := True, dev_attached := True\<rparr>"
    "sp_nonblock (mq_pipe q)" "mq_queue q = ConcurrentQueue n"
proof (cases fds)
  case None
  then show ?thesis using assms by (simp add: mq_attach_def sp_open_def MessageQueue_def SelfPipe_def IODevice_def)
next
  case (Some fd)
  moreover obtain rd wr where "fd = (rd, wr)" by (cases fd)
  ultimately show ?thesis
    using assms
    by (intro that [of rd wr])
      (auto simp: mq_attach_def sp_open_def MessageQueue_def SelfPipe_def IODevice_def sp_setNonblock_def attachIOService_def
        split: if_splits prod.splits)
qed

lemma mq_attach_new_ok:
  assumes "add ((IODevice p)\<lparr>dev_fd := rd, dev_read_cb := True\<rparr>) s = (True, s2)"
  shows "mq_attach add remove (Some (rd, wr)) (True, True) (True, True) (MessageQueue n p) s =
     (True, \<lparr>mq_queue = ConcurrentQueue n,
             mq_pipe = \<lparr>sp_device = (IODevice p)\<lparr>dev_fd := rd, dev_read_cb := True, dev_attached := True\<rparr>,
                        sp_fd1 = wr, sp_bytes = 0, sp_nonblock = True\<rparr>\<rparr>, s2)"
  using assms
  by (simp add: mq_attach_def sp_open_def MessageQueue_def SelfPipe_def IODevice_def sp_setNonblock_def
      sp_setCloseOnExec_def attachIOService_def)

subsection \<open>Producers and the reader\<close>

text \<open>
  The steps of the threads around one queue. A producer appends its item (\<open>push_item\<close>, when the queue lets it) and
  later writes its byte (\<open>push_byte\<close>). The reader is woken by a byte in the pipe, empties the pipe, then pops
  items until there is none; with \<open>limit = Some k\<close> it returns after \<open>k\<close> of them, as
  \<open>onClientNetCommandQueueRead\<close> does for 100. The record keeps the items pushed and handled so far.
\<close>

datatype reader = Idle | Popping nat

record 'a mq_system =
  ms_queue :: "'a message_queue"
  ms_writing :: nat
  ms_reader :: reader
  ms_pushed :: "'a list"
  ms_handled :: "'a list"

definition mq_start :: "'a message_queue \<Rightarrow> 'a mq_system" where
  "mq_start q = \<lparr>ms_queue = q, ms_writing = 0, ms_reader = Idle, ms_pushed = [], ms_handled = []\<rparr>"

definition after_pop :: "nat option \<Rightarrow> nat \<Rightarrow> reader" where
  "after_pop limit n = (case limit of Some k \<Rightarrow> if k \<le> Suc n then Idle else Popping (Suc n) | None \<Rightarrow> Popping (Suc n))"

inductive push_step :: "'a mq_system \<Rightarrow> 'a mq_system \<Rightarrow> bool" where
  push_item: "cq_push x (mq_queue (ms_queue s)) = Some items \<Longrightarrow>
     push_step s (s\<lparr>ms_queue := (ms_queue s)\<lparr>mq_queue := items\<rparr>, ms_writing := Suc (ms_writing s),
                    ms_pushed := ms_pushed s @ [x]\<rparr>)"

inductive work_step :: "nat option \<Rightarrow> 'a mq_system \<Rightarrow> 'a mq_system \<Rightarrow> bool" for limit where
  push_byte: "ms_writing s = Suc n \<Longrightarrow> work_step limit s (s\<lparr>ms_queue := mq_yield (ms_queue s), ms_writing := n\<rparr>)"
| wake: "ms_reader s = Idle \<Longrightarrow> 0 < sp_bytes (mq_pipe (ms_queue s)) \<Longrightarrow> mq_drain (ms_queue s) = Some q \<Longrightarrow>
     work_step limit s (s\<lparr>ms_queue := q, ms_reader := Popping 0\<rparr>)"
| pop: "ms_reader s = Popping n \<Longrightarrow> mq_pop (ms_queue s) = (Some x, q) \<Longrightarrow>
     work_step limit s (s\<lparr>ms_queue := q, ms_reader := after_pop limit n, ms_handled := ms_handled s @ [x]\<rparr>)"
| finish: "ms_reader s = Popping n \<Longrightarrow> mq_pop (ms_queue s) = (None, q) \<Longrightarrow>
     work_step limit s (s\<lparr>ms_queue := q, ms_reader := Idle\<rparr>)"

inductive mq_reachable :: "nat option \<Rightarrow> 'a mq_system \<Rightarrow> bool" for limit where
  start: "cq_items (mq_queue q) = [] \<Longrightarrow> cq_ok (mq_queue q) \<Longrightarrow> sp_bytes (mq_pipe q) = 0 \<Longrightarrow> sp_nonblock (mq_pipe q) \<Longrightarrow>
     mq_reachable limit (mq_start q)"
| pushed: "mq_reachable limit s \<Longrightarrow> push_step s t \<Longrightarrow> mq_reachable limit t"
| worked: "mq_reachable limit s \<Longrightarrow> work_step limit s t \<Longrightarrow> mq_reachable limit t"

inductive_cases push_stepE: "push_step s t"
inductive_cases work_stepE: "work_step limit s t"

text \<open>
  The invariant: nothing is lost or reordered, the bound holds, and without a limit waiting items mean that somebody
  still has something to do.
\<close>

definition awake :: "'a mq_system \<Rightarrow> bool" where
  "awake s \<longleftrightarrow> 0 < sp_bytes (mq_pipe (ms_queue s)) \<or> 0 < ms_writing s \<or> ms_reader s \<noteq> Idle"

definition mq_inv :: "nat option \<Rightarrow> 'a mq_system \<Rightarrow> bool" where
  "mq_inv limit s \<longleftrightarrow> ms_pushed s = ms_handled s @ cq_items (mq_queue (ms_queue s)) \<and> cq_ok (mq_queue (ms_queue s))
     \<and> sp_nonblock (mq_pipe (ms_queue s))
     \<and> (limit = None \<and> cq_items (mq_queue (ms_queue s)) \<noteq> [] \<longrightarrow> awake s)"

lemma mq_drain_eq:
  "sp_nonblock (mq_pipe q) \<Longrightarrow> mq_drain q = Some (q\<lparr>mq_pipe := (mq_pipe q)\<lparr>sp_bytes := 0\<rparr>\<rparr>)"
  by (simp add: mq_drain_def sp_drain_empties)

lemma mq_yield_bytes: "0 < sp_bytes (mq_pipe (mq_yield q))" "mq_queue (mq_yield q) = mq_queue q"
    "sp_nonblock (mq_pipe (mq_yield q)) = sp_nonblock (mq_pipe q)"
  by (simp_all add: mq_yield_def sp_write_def pipe_capacity_def)

lemma mq_pop_cases:
  "mq_pop q = (None, q') \<Longrightarrow> q' = q \<and> cq_items (mq_queue q) = []"
  "mq_pop q = (Some x, q') \<Longrightarrow> mq_pipe q' = mq_pipe q \<and> cq_items (mq_queue q) = x # cq_items (mq_queue q')
     \<and> cq_bounded (mq_queue q') = cq_bounded (mq_queue q) \<and> cq_max_size (mq_queue q') = cq_max_size (mq_queue q)"
  by (auto simp: mq_pop_def popIfNotEmpty_def split: prod.splits list.splits)

lemma push_step_inv: "push_step s t \<Longrightarrow> mq_inv limit s \<Longrightarrow> mq_inv limit t"
  by (auto elim!: push_stepE simp: mq_inv_def awake_def cq_push_def fullNoLock_def cq_ok_def split: if_splits)

lemma work_step_inv:
  assumes "work_step limit s t" and "mq_inv limit s"
  shows "mq_inv limit t"
  using assms(1)
proof (cases rule: work_step.cases)
  case (push_byte n)
  then show ?thesis using assms(2) by (auto simp: mq_inv_def awake_def mq_yield_bytes)
next
  case (wake q)
  then show ?thesis using assms(2) by (auto simp: mq_inv_def awake_def mq_drain_eq)
next
  case (pop n x q)
  then show ?thesis
    using assms(2) mq_pop_cases(2) [OF pop(3)] by (auto simp: mq_inv_def awake_def after_pop_def cq_ok_def)
next
  case (finish n q)
  then show ?thesis using assms(2) mq_pop_cases(1) [OF finish(3)] by (auto simp: mq_inv_def awake_def)
qed

lemma mq_reachable_inv: "mq_reachable limit s \<Longrightarrow> mq_inv limit s"
proof (induction rule: mq_reachable.induct)
  case (start q)
  then show ?case by (simp add: mq_inv_def mq_start_def)
qed (blast intro: push_step_inv work_step_inv)+

text \<open>
  Items are handled in the order they are pushed, each once, whatever the interleaving of the threads; and a
  bounded queue never exceeds its bound.
\<close>
theorem queue_is_fifo:
  assumes "mq_reachable limit s"
  shows "ms_pushed s = ms_handled s @ cq_items (mq_queue (ms_queue s))
    \<and> (cq_bounded (mq_queue (ms_queue s)) \<longrightarrow> length (cq_items (mq_queue (ms_queue s))) \<le> cq_max_size (mq_queue (ms_queue s)))"
  using mq_reachable_inv [OF assms] by (auto simp: mq_inv_def cq_ok_def)

definition ready_queue :: "nat message_queue" where
  "ready_queue = (MessageQueue 0 1)\<lparr>mq_pipe := (SelfPipe 1)\<lparr>sp_nonblock := True\<rparr>\<rparr>"

lemma ready_queue_reachable: "mq_reachable limit (mq_start ready_queue)"
  by (rule mq_reachable.start)
    (simp_all add: ready_queue_def MessageQueue_def ConcurrentQueue_def SelfPipe_def cq_ok_def)

lemma one_pushed:
  "\<exists>s. mq_reachable limit s \<and> ms_pushed s = [5::nat] \<and> cq_items (mq_queue (ms_queue s)) = [5]"
proof -
  have "\<exists>items. cq_push 5 (mq_queue (ms_queue (mq_start ready_queue))) = Some items \<and> cq_items items = [5]"
    by (simp add: mq_start_def ready_queue_def MessageQueue_def ConcurrentQueue_def cq_push_def fullNoLock_def)
  then obtain items where i: "cq_push 5 (mq_queue (ms_queue (mq_start ready_queue))) = Some items" "cq_items items = [5]"
    by blast
  show ?thesis
    by (rule exI, rule conjI [OF mq_reachable.pushed [OF ready_queue_reachable push_step.push_item [OF i(1)]]])
      (simp add: mq_start_def i(2))
qed

theorem queue_is_fifo_witness:
  "\<exists>s. mq_reachable None s \<and> ms_pushed s = [5::nat] \<and> ms_handled s @ cq_items (mq_queue (ms_queue s)) = [5]"
  using one_pushed [of None] queue_is_fifo [of None] by metis

text \<open>
  C23: no wake-up is lost when the reader pops until the queue is empty: whenever items wait, a byte is in the pipe, or a
  producer is about to write one, or the reader is at work.
\<close>
theorem no_lost_wakeup:
  assumes "mq_reachable None s" and "cq_items (mq_queue (ms_queue s)) \<noteq> []"
  shows "awake s"
  using mq_reachable_inv [OF assms(1)] assms(2) by (simp add: mq_inv_def)

theorem no_lost_wakeup_witness: "\<exists>s. cq_items (mq_queue (ms_queue s)) = [5::nat] \<and> awake s"
  using one_pushed [of None] no_lost_wakeup [where 'a = nat] by (metis list.discI)

subsection \<open>The reader gets through\<close>

definition work_left :: "'a mq_system \<Rightarrow> nat" where
  "work_left s = 4 * ms_writing s + length (cq_items (mq_queue (ms_queue s)))
     + (if 0 < sp_bytes (mq_pipe (ms_queue s)) then 2 else 0) + (if ms_reader s = Idle then 0 else 1)"

lemma work_step_decreases:
  assumes "work_step limit s t" and "mq_inv limit s"
  shows "work_left t < work_left s"
  using assms(1)
proof (cases rule: work_step.cases)
  case (push_byte n)
  then show ?thesis by (auto simp: work_left_def mq_yield_bytes)
next
  case (wake q)
  then show ?thesis using assms(2) by (auto simp: work_left_def mq_inv_def mq_drain_eq)
next
  case (pop n x q)
  then show ?thesis using mq_pop_cases(2) [OF pop(3)] by (auto simp: work_left_def)
next
  case (finish n q)
  then show ?thesis using mq_pop_cases(1) [OF finish(3)] by (auto simp: work_left_def)
qed

lemma work_step_pushed: "work_step limit s t \<Longrightarrow> ms_pushed t = ms_pushed s"
  by (auto elim: work_stepE)

lemma stuck_asleep:
  assumes "\<And>t. \<not> work_step limit s t" and "mq_inv limit s"
  shows "\<not> awake s"
proof
  assume "awake s"
  then consider "0 < ms_writing s" | "ms_reader s \<noteq> Idle" | "ms_reader s = Idle" "0 < sp_bytes (mq_pipe (ms_queue s))"
    by (auto simp: awake_def)
  then show False
  proof cases
    case 1
    then obtain n where "ms_writing s = Suc n" by (cases "ms_writing s") auto
    then show False by (rule notE [OF assms(1) work_step.push_byte])
  next
    case 2
    then obtain n where n: "ms_reader s = Popping n" by (cases "ms_reader s") auto
    obtain x q where p: "mq_pop (ms_queue s) = (x, q)" by (cases "mq_pop (ms_queue s)")
    show False
    proof (cases x)
      case None
      show False by (rule notE [OF assms(1) work_step.finish [OF n p [unfolded None]]])
    next
      case (Some y)
      show False by (rule notE [OF assms(1) work_step.pop [OF n p [unfolded Some]]])
    qed
  next
    case 3
    have "sp_nonblock (mq_pipe (ms_queue s))" using assms(2) by (simp add: mq_inv_def)
    from mq_drain_eq [OF this] show False by (rule notE [OF assms(1) work_step.wake [OF 3]])
  qed
qed

lemma work_steps_keep:
  "(work_step limit)\<^sup>*\<^sup>* s t \<Longrightarrow> mq_inv limit s \<Longrightarrow> mq_inv limit t \<and> ms_pushed t = ms_pushed s"
  by (induction rule: rtranclp_induct) (auto dest: work_step_inv work_step_pushed)

lemma work_runs_out:
  "mq_inv limit s \<Longrightarrow> \<exists>t. (work_step limit)\<^sup>*\<^sup>* s t \<and> (\<forall>u. \<not> work_step limit t u)"
proof (induction "work_left s" arbitrary: s rule: less_induct)
  case less
  show ?case
  proof (cases "\<exists>t. work_step limit s t")
    case True
    then obtain t where t: "work_step limit s t" by blast
    from less.hyps [OF work_step_decreases [OF t less.prems] work_step_inv [OF t less.prems]]
    show ?thesis using t by (meson converse_rtranclp_into_rtranclp)
  next
    case False
    then show ?thesis by blast
  qed
qed

text \<open>
  C22: the reader gets through. Without further pushes the threads run out of steps, and wherever they stop everything that
  was pushed has been handled, in order.
\<close>
theorem reader_gets_through:
  assumes "mq_reachable None s"
  shows "(\<exists>t. (work_step None)\<^sup>*\<^sup>* s t \<and> (\<forall>u. \<not> work_step None t u))
    \<and> (\<forall>t. (work_step None)\<^sup>*\<^sup>* s t \<and> (\<forall>u. \<not> work_step None t u) \<longrightarrow> ms_handled t = ms_pushed s)"
proof (intro conjI allI impI)
  show "\<exists>t. (work_step None)\<^sup>*\<^sup>* s t \<and> (\<forall>u. \<not> work_step None t u)"
    by (rule work_runs_out [OF mq_reachable_inv [OF assms]])
next
  fix t
  assume t: "(work_step None)\<^sup>*\<^sup>* s t \<and> (\<forall>u. \<not> work_step None t u)"
  then have inv: "mq_inv None t" "ms_pushed t = ms_pushed s"
    using work_steps_keep mq_reachable_inv [OF assms] by blast+
  have "\<not> awake t" using t inv(1) stuck_asleep by blast
  then show "ms_handled t = ms_pushed s" using inv by (auto simp: mq_inv_def)
qed

theorem reader_gets_through_witness:
  "\<exists>s t. ms_pushed s = [5::nat] \<and> (work_step None)\<^sup>*\<^sup>* s t \<and> ms_handled t = [5]"
proof -
  obtain s where s: "mq_reachable None s" "ms_pushed s = [5::nat]" using one_pushed [of None] by blast
  with reader_gets_through [OF s(1)] show ?thesis by metis
qed

subsection \<open>A reader with a limit\<close>

lemma push_many:
  "\<exists>s. mq_reachable limit s \<and> ms_pushed s = xs \<and> ms_handled s = [] \<and> ms_reader s = Idle \<and> ms_writing s = length xs
     \<and> \<not> cq_bounded (mq_queue (ms_queue s))"
proof (induction xs rule: rev_induct)
  case Nil
  let ?q = "MessageQueue 0 1\<lparr>mq_pipe := (SelfPipe 1)\<lparr>sp_nonblock := True\<rparr>\<rparr>"
  have "mq_reachable limit (mq_start ?q)"
    by (rule mq_reachable.start) (simp_all add: MessageQueue_def ConcurrentQueue_def SelfPipe_def cq_ok_def)
  then show ?case
    by (intro exI [of _ "mq_start ?q"]) (simp add: mq_start_def MessageQueue_def ConcurrentQueue_def)
next
  case (snoc x xs)
  then obtain s where s: "mq_reachable limit s" "ms_pushed s = xs" "ms_handled s = []" "ms_reader s = Idle"
    "ms_writing s = length xs" "\<not> cq_bounded (mq_queue (ms_queue s))" by blast
  let ?items = "(mq_queue (ms_queue s))\<lparr>cq_items := cq_items (mq_queue (ms_queue s)) @ [x]\<rparr>"
  let ?t = "s\<lparr>ms_queue := (ms_queue s)\<lparr>mq_queue := ?items\<rparr>, ms_writing := Suc (ms_writing s), ms_pushed := ms_pushed s @ [x]\<rparr>"
  have "cq_push x (mq_queue (ms_queue s)) = Some ?items" using s(6) by (simp add: cq_push_def fullNoLock_def)
  from mq_reachable.pushed [OF s(1) push_step.push_item [OF this]]
  show ?case using s by (intro exI [of _ ?t]) simp
qed

lemma write_many:
  "mq_reachable limit s \<Longrightarrow> ms_writing s = n \<Longrightarrow> \<exists>t. mq_reachable limit t \<and> ms_writing t = 0
     \<and> mq_queue (ms_queue t) = mq_queue (ms_queue s) \<and> ms_pushed t = ms_pushed s \<and> ms_handled t = ms_handled s
     \<and> ms_reader t = ms_reader s \<and> (0 < n \<longrightarrow> 0 < sp_bytes (mq_pipe (ms_queue t)))"
proof (induction n arbitrary: s)
  case 0
  then show ?case by blast
next
  case (Suc n)
  let ?s = "s\<lparr>ms_queue := mq_yield (ms_queue s), ms_writing := n\<rparr>"
  have r: "mq_reachable limit ?s" by (rule mq_reachable.worked [OF Suc.prems(1) work_step.push_byte [OF Suc.prems(2)]])
  show ?case
  proof (cases "n = 0")
    case True
    then show ?thesis using r by (intro exI [of _ ?s]) (simp add: mq_yield_bytes)
  next
    case False
    obtain t where "mq_reachable limit t" "ms_writing t = 0" "mq_queue (ms_queue t) = mq_queue (ms_queue ?s)"
      "ms_pushed t = ms_pushed ?s" "ms_handled t = ms_handled ?s" "ms_reader t = ms_reader ?s"
      "0 < sp_bytes (mq_pipe (ms_queue t))"
      using Suc.IH [OF r] False by auto
    then show ?thesis by (intro exI [of _ t]) (simp add: mq_yield_bytes)
  qed
qed

lemma pop_many:
  "mq_reachable (Some k) s \<Longrightarrow> ms_reader s = Popping j \<Longrightarrow> j < k \<Longrightarrow> k - j \<le> length (cq_items (mq_queue (ms_queue s))) \<Longrightarrow>
   \<exists>t. mq_reachable (Some k) t \<and> ms_reader t = Idle \<and> ms_writing t = ms_writing s \<and> mq_pipe (ms_queue t) = mq_pipe (ms_queue s)
     \<and> ms_pushed t = ms_pushed s \<and> ms_handled t = ms_handled s @ take (k - j) (cq_items (mq_queue (ms_queue s)))
     \<and> cq_items (mq_queue (ms_queue t)) = drop (k - j) (cq_items (mq_queue (ms_queue s)))"
proof (induction "k - j" arbitrary: j s rule: less_induct)
  case less
  then obtain x xs where items: "cq_items (mq_queue (ms_queue s)) = x # xs"
    by (cases "cq_items (mq_queue (ms_queue s))") auto
  let ?q = "(ms_queue s)\<lparr>mq_queue := (mq_queue (ms_queue s))\<lparr>cq_items := xs\<rparr>\<rparr>"
  let ?s = "s\<lparr>ms_queue := ?q, ms_reader := after_pop (Some k) j, ms_handled := ms_handled s @ [x]\<rparr>"
  have "mq_pop (ms_queue s) = (Some x, ?q)" by (simp add: mq_pop_def popIfNotEmpty_def items)
  then have r: "mq_reachable (Some k) ?s"
    by (rule mq_reachable.worked [OF less.prems(1) work_step.pop [OF less.prems(2)]])
  show ?case
  proof (cases "Suc j = k")
    case True
    then have "k - j = 1" by simp
    then show ?thesis using r True by (intro exI [of _ ?s]) (simp add: items after_pop_def)
  next
    case False
    then have lt: "Suc j < k" "k - Suc j < k - j" "k - j = Suc (k - Suc j)" using less.prems(3) by auto
    have "ms_reader ?s = Popping (Suc j)" using lt(1) by (simp add: after_pop_def)
    moreover have "k - Suc j \<le> length (cq_items (mq_queue (ms_queue ?s)))" using less.prems(4) lt(3) by (simp add: items)
    ultimately obtain t where "mq_reachable (Some k) t" "ms_reader t = Idle" "ms_writing t = ms_writing ?s"
      "mq_pipe (ms_queue t) = mq_pipe (ms_queue ?s)" "ms_pushed t = ms_pushed ?s"
      "ms_handled t = ms_handled ?s @ take (k - Suc j) (cq_items (mq_queue (ms_queue ?s)))"
      "cq_items (mq_queue (ms_queue t)) = drop (k - Suc j) (cq_items (mq_queue (ms_queue ?s)))"
      using less.hyps [OF lt(2) r _ lt(1)] by blast
    then show ?thesis using lt(3) by (intro exI [of _ t]) (simp add: items)
  qed
qed

text \<open>
  A reader that stops after 100 items, as the one of the service does, strands the rest. For any 101 or more items
  there is a run in which 100 of them are handled, the others stay in the queue, the pipe is empty and no thread has a
  step to make.
\<close>
theorem limit_strands_items:
  assumes "100 < length xs"
  shows "\<exists>s. mq_reachable (Some 100) s \<and> ms_pushed s = xs \<and> ms_handled s = take 100 xs
    \<and> cq_items (mq_queue (ms_queue s)) = drop 100 xs \<and> (\<forall>t. \<not> work_step (Some 100) s t)"
proof -
  obtain s1 where s1: "mq_reachable (Some 100) s1" "ms_pushed s1 = xs" "ms_handled s1 = []" "ms_reader s1 = Idle"
    "ms_writing s1 = length xs" using push_many [of "Some 100" xs] by blast
  obtain s2 where s2: "mq_reachable (Some 100) s2" "ms_writing s2 = 0" "mq_queue (ms_queue s2) = mq_queue (ms_queue s1)"
    "ms_pushed s2 = xs" "ms_handled s2 = []" "ms_reader s2 = Idle" "0 < sp_bytes (mq_pipe (ms_queue s2))"
    using write_many [OF s1(1) s1(5)] s1 assms by auto
  have inv: "cq_items (mq_queue (ms_queue s2)) = xs" "sp_nonblock (mq_pipe (ms_queue s2))"
    using mq_reachable_inv [OF s2(1)] s2 by (simp_all add: mq_inv_def)
  let ?q = "(ms_queue s2)\<lparr>mq_pipe := (mq_pipe (ms_queue s2))\<lparr>sp_bytes := 0\<rparr>\<rparr>"
  let ?s3 = "s2\<lparr>ms_queue := ?q, ms_reader := Popping 0\<rparr>"
  have r3: "mq_reachable (Some 100) ?s3"
    by (rule mq_reachable.worked [OF s2(1) work_step.wake [OF s2(6) s2(7) mq_drain_eq [OF inv(2)]]])
  obtain t where t: "mq_reachable (Some 100) t" "ms_reader t = Idle" "ms_writing t = 0"
    "mq_pipe (ms_queue t) = (mq_pipe (ms_queue s2))\<lparr>sp_bytes := 0\<rparr>" "ms_pushed t = xs" "ms_handled t = take 100 xs"
    "cq_items (mq_queue (ms_queue t)) = drop 100 xs"
    using pop_many [OF r3, of 0] s2 inv assms by auto
  have "\<not> work_step (Some 100) t u" for u using t(2,3,4) by (auto elim: work_stepE)
  then show ?thesis using t by blast
qed

theorem limit_strands_items_witness:
  "\<exists>s. mq_reachable (Some 100) s \<and> ms_pushed s = replicate 101 () \<and> cq_items (mq_queue (ms_queue s)) = [()]"
  using limit_strands_items [of "replicate 101 ()"] by auto

end
