(* ===== verification/Net_Thread.thy ===== *)
theory Net_Thread
  imports Epoll_Reactor Message_Queue Net_Protocol
begin

text \<open>
  The network thread (\<open>net/net_thread.h\<close>, \<open>.cc\<close>): a reactor, the queue of commands from the other threads,
  the encode buffer and the broadcast list. Its state is an epoll reactor whose world ends in a \<open>thread_state\<close>;
  the commands it gives to \<open>new_net_cmd_cb_\<close> are collected in \<open>nt_emitted\<close>. What is done with received bytes is
  \<open>GameServer::onRecvMessage\<close>, which is what the server passes as \<open>recv_message_cb_\<close>; the encoding of the messages is
  the parameter \<open>protocol\<close>. A null command calls \<open>quit\<close>, which does not reach the flag the loop reads (\<open>reactor_quit\<close>).
\<close>

subsection \<open>State\<close>

record 'm protocol =
  pr_max :: int
  pr_create :: "int \<Rightarrow> 'm option"
  pr_decode :: "'m \<Rightarrow> bytes \<Rightarrow> 'm \<times> int"
  pr_encode :: "'m \<Rightarrow> nat \<Rightarrow> bytes option"

record 'm thread_state =
  nt_id :: int
  nt_queue :: "'m net_command option message_queue"
  nt_encode_buffer :: dynamic_buffer
  nt_broadcast :: "int list"
  nt_emitted :: "'m net_command list"

type_synonym ('u, 'm, 'z) net_thread_scheme = "('u, ('m, 'z) thread_state_scheme) epoll_reactor"

type_synonym ('u, 'm) net_thread = "('u, 'm, unit) net_thread_scheme"

definition ts :: "('u, 'm, 'z) net_thread_scheme \<Rightarrow> ('m, 'z) thread_state_scheme" where
  "ts r = ew_rest (rx_world r)"

definition nt_emit :: "'m net_command \<Rightarrow> ('u, 'm, 'z) net_thread_scheme \<Rightarrow> ('u, 'm, 'z) net_thread_scheme" where
  "nt_emit cmd r = upd_rest (\<lambda>t. t\<lparr>nt_emitted := nt_emitted t @ [cmd]\<rparr>) r"

definition own_command :: "command_type \<Rightarrow> int \<Rightarrow> ('u, 'm, 'z) net_thread_scheme \<Rightarrow> 'm net_command" where
  "own_command typ sid r = (NetCommand typ)\<lparr>cmd_id := \<lparr>reactor_id = nt_id (ts r), socket_id = sid\<rparr>\<rparr>"

definition sendNetCommandClose :: "int \<Rightarrow> ('u, 'm, 'z) net_thread_scheme \<Rightarrow> ('u, 'm, 'z) net_thread_scheme" where
  "sendNetCommandClose sid r = nt_emit (own_command CLOSE sid r) r"

definition sendNetCommandNew :: "int \<Rightarrow> ('u, 'm, 'z) net_thread_scheme \<Rightarrow> ('u, 'm, 'z) net_thread_scheme" where
  "sendNetCommandNew sid r = nt_emit (own_command NEW sid r) r"

subsection \<open>Callbacks\<close>

definition nt_closeSocket :: "int \<Rightarrow> ('u, 'm, 'z) net_thread_scheme \<Rightarrow> ('u, 'm, 'z) net_thread_scheme" where
  "nt_closeSocket sid r = er_closeSocket sid (sendNetCommandClose sid r)"

definition nt_onRecvMessage :: "'m protocol \<Rightarrow> int \<Rightarrow> ('u, 'm, 'z) net_thread_scheme \<Rightarrow> ('u, 'm, 'z) net_thread_scheme option" where
  "nt_onRecvMessage pr sid r =
     (case rx_connections r sid of None \<Rightarrow> None
      | Some c \<Rightarrow> do {
          (cmds, closed, b) \<leftarrow> onRecvMessage (pr_max pr) (pr_create pr) (pr_decode pr) (nt_id (ts r)) sid (tc_read_buffer c);
          let r1 = fold nt_emit cmds (upd_conn sid (\<lambda>c. c\<lparr>tc_read_buffer := b\<rparr>) r);
          Some (if closed then nt_closeSocket sid r1 else r1) })"

definition onPeerClose :: "int \<Rightarrow> ('u, 'm, 'z) net_thread_scheme \<Rightarrow> ('u, 'm, 'z) net_thread_scheme" where
  "onPeerClose sid r = nt_closeSocket sid r"

definition onError :: "int \<Rightarrow> int \<Rightarrow> ('u, 'm, 'z) net_thread_scheme \<Rightarrow> ('u, 'm, 'z) net_thread_scheme" where
  "onError sid e r = nt_closeSocket sid r"

definition nt_callbacks :: "'m protocol \<Rightarrow> ('u, ('m, 'z) thread_state_scheme epoll_world) reactor_callbacks" where
  "nt_callbacks pr = \<lparr>cb_recv_message = nt_onRecvMessage pr, cb_peer_close = onPeerClose, cb_error = onError,
     cb_closeSocket = er_closeSocket\<rparr>"

subsection \<open>Starting\<close>

definition NetThread :: "int \<Rightarrow> nat \<Rightarrow> 'm thread_state option" where
  "NetThread pipe_ptr max_send_packet_length =
     do { b \<leftarrow> DynamicBuffer max_send_packet_length 1024;
          Some \<lparr>nt_id = -1, nt_queue = MessageQueue 0 pipe_ptr, nt_encode_buffer = b, nt_broadcast = [], nt_emitted = []\<rparr> }"

text \<open>
  \<open>init\<close>, on a reactor made by \<open>EpollReactor\<close> with the thread's state in its world; the outcomes of the kernel calls on
  the pipe are arguments.
\<close>

definition set_queue :: "'m net_command option message_queue \<Rightarrow> ('u, 'm, 'z) net_thread_scheme \<Rightarrow> ('u, 'm, 'z) net_thread_scheme" where
  "set_queue q r = upd_rest (\<lambda>t. t\<lparr>nt_queue := q\<rparr>) r"

definition nt_init ::
  "int \<Rightarrow> nat \<Rightarrow> nat \<Rightarrow> (int \<times> int) option \<Rightarrow> bool \<times> bool \<Rightarrow> bool \<times> bool \<Rightarrow> ('u, 'm, 'z) net_thread_scheme \<Rightarrow> bool \<times> ('u, 'm, 'z) net_thread_scheme" where
  "nt_init i max_recv_buffer_size max_send_buffer_size fds nonblock cloexec r =
     (let r1 = setSendBufferInitSize 1024 (setRecvBufferInitSize 1024 (setSendBufferExpandSize 1024
                 (setRecvBufferExpandSize 1024 (setSendBufferMaxSize max_send_buffer_size
                   (setRecvBufferMaxSize max_recv_buffer_size r)))));
          (ok, q, r2) = mq_attach er_addIODevice er_removeIODevice fds nonblock cloexec (nt_queue (ts r1)) r1;
          r3 = object_at (dev_ptr (sp_device (mq_pipe q))) (Some PipeRef) (set_queue q r2)
      in if \<not> ok then (False, r3) else (True, upd_rest (\<lambda>t. t\<lparr>nt_id := i\<rparr>) r3))"

subsection \<open>Called from other threads\<close>

definition nt_push :: "'m net_command option \<Rightarrow> ('u, 'm, 'z) net_thread_scheme \<Rightarrow> ('u, 'm, 'z) net_thread_scheme option" where
  "nt_push cmd r = map_option (\<lambda>q. set_queue q r) (mq_push cmd (nt_queue (ts r)))"

definition nt_attach :: "tcp_socket \<Rightarrow> ('u, 'm, 'z) net_thread_scheme \<Rightarrow> ('u, 'm, 'z) net_thread_scheme option" where
  "nt_attach peer_socket r =
     do { (_, r1) \<leftarrow> er_attachSocket peer_socket r; Some (sendNetCommandNew (dev_id peer_socket) r1) }"

subsection \<open>Commands\<close>

text \<open>A command without a message that needs one would dereference a null pointer.\<close>

definition encode_command :: "'m protocol \<Rightarrow> 'm net_command \<Rightarrow> ('u, 'm, 'z) net_thread_scheme \<Rightarrow> (bool \<times> ('u, 'm, 'z) net_thread_scheme) option" where
  "encode_command pr cmd r =
     do { message \<leftarrow> cmd_message cmd;
          (ok, b) \<leftarrow> writeMessage (pr_encode pr) (cmd_message_id cmd) message (nt_encode_buffer (ts r));
          Some (ok, upd_rest (\<lambda>t. t\<lparr>nt_encode_buffer := b\<rparr>) r) }"

definition encoded :: "('u, 'm, 'z) net_thread_scheme \<Rightarrow> bytes option" where
  "encoded r = (let b = nt_encode_buffer (ts r) in mem_read (db_buffer b) (readBegin b) (readableBytes b))"

definition nt_command :: "'m protocol \<Rightarrow> 'm net_command \<Rightarrow> ('u, 'm, 'z) net_thread_scheme \<Rightarrow> ('u, 'm, 'z) net_thread_scheme option" where
  "nt_command pr cmd r =
     (let sid = socket_id (cmd_id cmd) in
      if cmd_type cmd = BROADCAST then do {
        (ok, r1) \<leftarrow> encode_command pr cmd r;
        if \<not> ok then Some r1
        else do { bs \<leftarrow> encoded r1; reactor_broadcast (nt_callbacks pr) (nt_broadcast (ts r1)) bs r1 } }
      else if \<not> isConnected sid r then Some r
      else case cmd_type cmd of
        CLOSE \<Rightarrow> Some (er_closeSocket sid r)
      | MESSAGE \<Rightarrow> do {
          (ok, r1) \<leftarrow> encode_command pr cmd r;
          if \<not> ok then Some (nt_closeSocket sid r1)
          else do { bs \<leftarrow> encoded r1; (_, r2) \<leftarrow> reactor_sendMessage (nt_callbacks pr) sid bs NoCallback r1; Some r2 } }
      | ENABLE_BROADCAST \<Rightarrow> Some (upd_rest (\<lambda>t. t\<lparr>nt_broadcast := List.insort_insert sid (nt_broadcast t)\<rparr>) r)
      | DISABLE_BROADCAST \<Rightarrow> Some (upd_rest (\<lambda>t. t\<lparr>nt_broadcast := removeAll sid (nt_broadcast t)\<rparr>) r)
      | _ \<Rightarrow> Some r)"

text \<open>\<open>onNetCommand\<close> pops until the queue is empty or a null command comes, and then calls \<open>quit\<close>; the list is the queue's content.\<close>

primrec nt_commands :: "'m protocol \<Rightarrow> 'm net_command option list \<Rightarrow> ('u, 'm, 'z) net_thread_scheme \<Rightarrow> ('u, 'm, 'z) net_thread_scheme option" where
  "nt_commands pr [] r = Some r"
| "nt_commands pr (c # cs) r =
     (let q = nt_queue (ts r); r1 = set_queue (q\<lparr>mq_queue := (mq_queue q)\<lparr>cq_items := cs\<rparr>\<rparr>) r
      in case c of None \<Rightarrow> Some (reactor_quit r1)
         | Some cmd \<Rightarrow> do { r2 \<leftarrow> nt_command pr cmd r1; nt_commands pr cs r2 })"

definition onNetCommand :: "'m protocol \<Rightarrow> ('u, 'm, 'z) net_thread_scheme \<Rightarrow> ('u, 'm, 'z) net_thread_scheme option" where
  "onNetCommand pr r = nt_commands pr (cq_items (mq_queue (nt_queue (ts r)))) r"

definition pipeReadCallback :: "'m protocol \<Rightarrow> ('u, 'm, 'z) net_thread_scheme \<Rightarrow> ('u, 'm, 'z) net_thread_scheme option" where
  "pipeReadCallback pr r = do { q \<leftarrow> mq_drain (nt_queue (ts r)); onNetCommand pr (set_queue q r) }"

subsection \<open>The thread's event loop\<close>

text \<open>\<open>errs\<close> gives, for a socket, the answer of \<open>getsockopt(SO_ERROR)\<close> and the value of \<open>errno\<close>.\<close>

definition nt_device :: "('u, 'm, 'z) net_thread_scheme \<Rightarrow> int \<Rightarrow> io_device option" where
  "nt_device r p =
     (case ew_objects (rx_world r) p of None \<Rightarrow> None
      | Some PipeRef \<Rightarrow> Some (sp_device (mq_pipe (nt_queue (ts r))))
      | Some (SocketRef sid) \<Rightarrow> rx_sockets r sid)"

definition nt_read :: "'m protocol \<Rightarrow> io_device \<Rightarrow> ('u, 'm, 'z) net_thread_scheme \<Rightarrow> ('u, 'm, 'z) net_thread_scheme option" where
  "nt_read pr d r =
     (if ew_objects (rx_world r) (dev_ptr d) = Some PipeRef then pipeReadCallback pr r
      else map_option snd (onSocketRead (nt_callbacks pr) (dev_id d) r))"

definition nt_dispatch :: "'m protocol \<Rightarrow> (int \<Rightarrow> int \<times> int) \<Rightarrow> (('u, 'm, 'z) net_thread_scheme) dispatch" where
  "nt_dispatch pr errs =
     \<lparr>ds_epoller = the_epoller, ds_set_epoller = set_epoller, ds_device = nt_device,
      ds_write = (\<lambda>d r. onSocketWrite (nt_callbacks pr) (dev_id d) r),
      ds_read = nt_read pr,
      ds_error = (\<lambda>d r. Some (onSocketError (nt_callbacks pr) (dev_id d) (fst (errs (dev_id d))) (snd (errs (dev_id d))) r))\<rparr>"

definition nt_loop ::
  "'m protocol \<Rightarrow> (int \<Rightarrow> int \<times> int) \<Rightarrow> ('u \<Rightarrow> timer_id \<Rightarrow> ('u, 'm, 'z) net_thread_scheme \<Rightarrow> ('u, 'm, 'z) net_thread_scheme) \<Rightarrow> round list \<Rightarrow>
     ('u, 'm, 'z) net_thread_scheme \<Rightarrow> dispatch_error + ('u, 'm, 'z) net_thread_scheme" where
  "nt_loop pr errs user rds r = er_loop (nt_dispatch pr errs) (reactor_checkTimeout (nt_callbacks pr) user) rds r"

end
