(* ===== verification/Net_Thread_Safety.thy ===== *)
theory Net_Thread_Safety
  imports Net_Thread
begin

text \<open>
  What a network thread keeps true. \<open>thread_inv\<close> ties together the maps of the reactor, the live objects, the epoll
  registrations and a batch of reported events; every operation keeps it. It is the instance of the contract of
  \<open>Tcp_Reactor\<close> for the callbacks of the thread, and the instance of the contract of \<open>Io_Device\<close> for its event loop, so
  that the loop never uses a device that is gone nor calls a callback that is not set.
\<close>

subsection \<open>The invariant\<close>

abbreviation objects :: "('u, 'm, 'z) net_thread_scheme \<Rightarrow> int \<rightharpoonup> dev_ref" where
  "objects r \<equiv> ew_objects (rx_world r)"

abbreviation pipe_device :: "('u, 'm, 'z) net_thread_scheme \<Rightarrow> io_device" where
  "pipe_device r \<equiv> sp_device (mq_pipe (nt_queue (ts r)))"

definition sockets_ok :: "('u, 'm, 'z) net_thread_scheme \<Rightarrow> bool" where
  "sockets_ok r \<longleftrightarrow> (\<forall>sid s. rx_sockets r sid = Some s \<longrightarrow>
     objects r (dev_ptr s) = Some (SocketRef sid) \<and> dev_attached s \<and> dev_read_cb s \<and> dev_error_cb s
     \<and> ek_interest (the_epoller r) (dev_fd s) = Some (dev_ptr s, {EPOLLIN, EPOLLPRI}))"

definition objects_ok :: "('u, 'm, 'z) net_thread_scheme \<Rightarrow> bool" where
  "objects_ok r \<longleftrightarrow> (\<forall>p sid. objects r p = Some (SocketRef sid) \<longrightarrow> (\<exists>s. rx_sockets r sid = Some s \<and> dev_ptr s = p))
     \<and> (\<forall>p. objects r p = Some PipeRef \<longleftrightarrow> p = dev_ptr (pipe_device r)) \<and> dev_read_cb (pipe_device r)
     \<and> sp_nonblock (mq_pipe (nt_queue (ts r)))"

definition interest_ok :: "('u, 'm, 'z) net_thread_scheme \<Rightarrow> bool" where
  "interest_ok r \<longleftrightarrow> ep_fd (the_epoller r) \<noteq> -1
     \<and> (\<forall>fd p fl. ek_interest (the_epoller r) fd = Some (p, fl) \<longrightarrow> fl = {EPOLLIN, EPOLLPRI}
          \<and> (p = dev_ptr (pipe_device r) \<or> (\<exists>sid s. rx_sockets r sid = Some s \<and> dev_ptr s = p \<and> dev_fd s = fd)))"

definition batch_ok :: "(int \<times> epoll_events) set \<Rightarrow> ('u, 'm, 'z) net_thread_scheme \<Rightarrow> bool" where
  "batch_ok batch r \<longleftrightarrow> (\<forall>p fl. (p, fl) \<in> batch \<longrightarrow> EPOLLOUT \<notin> fl
     \<and> (p \<in> ep_removed (the_epoller r) \<or> (objects r p \<noteq> None
          \<and> (p = dev_ptr (pipe_device r) \<longrightarrow> EPOLLERR \<notin> fl \<and> EPOLLHUP \<notin> fl))))"

definition thread_inv :: "(int \<times> epoll_events) set \<Rightarrow> ('u, 'm, 'z) net_thread_scheme \<Rightarrow> bool" where
  "thread_inv batch r \<longleftrightarrow> reactor_inv r \<and> sockets_ok r \<and> objects_ok r \<and> interest_ok r \<and> batch_ok batch r"

lemmas thread_inv_defs = thread_inv_def sockets_ok_def objects_ok_def interest_ok_def batch_ok_def

subsection \<open>Changes it does not see\<close>

lemma world_simps [simp]:
  "the_epoller (set_epoller e r) = e" "the_epoller (upd_rest f r) = the_epoller r" "the_epoller (object_at p x r) = the_epoller r"
  "ts (set_epoller e r) = ts r" "ts (upd_rest f r) = f (ts r)" "ts (object_at p x r) = ts r"
  "ew_objects (rx_world (set_epoller e r)) = ew_objects (rx_world r)"
  "ew_objects (rx_world (upd_rest f r)) = ew_objects (rx_world r)"
  "ew_objects (rx_world (object_at p x r)) = (ew_objects (rx_world r))(p := x)"
  by (simp_all add: the_epoller_def ts_def set_epoller_def upd_rest_def object_at_def)

lemma reactor_simps [simp]:
  "rx_sockets (set_epoller e r) = rx_sockets r" "rx_sockets (upd_rest f r) = rx_sockets r" "rx_sockets (object_at p x r) = rx_sockets r"
  "rx_connections (set_epoller e r) = rx_connections r" "rx_connections (upd_rest f r) = rx_connections r"
  "rx_connections (object_at p x r) = rx_connections r"
  "rx_read_expand (set_epoller e r) = rx_read_expand r" "rx_read_expand (upd_rest f r) = rx_read_expand r"
  "rx_read_expand (object_at p x r) = rx_read_expand r" "rx_write_expand (set_epoller e r) = rx_write_expand r"
  "rx_write_expand (upd_rest f r) = rx_write_expand r" "rx_write_expand (object_at p x r) = rx_write_expand r"
  "rx_kernel (set_epoller e r) = rx_kernel r" "rx_kernel (upd_rest f r) = rx_kernel r" "rx_kernel (object_at p x r) = rx_kernel r"
  by (simp_all add: set_epoller_def upd_rest_def object_at_def)

lemma frame_simps [simp]:
  "the_epoller (r\<lparr>rx_kernel := k\<rparr>) = the_epoller r" "the_epoller (r\<lparr>rx_timers := h\<rparr>) = the_epoller r"
  "the_epoller (r\<lparr>rx_socket_to_timer := a\<rparr>) = the_epoller r" "the_epoller (r\<lparr>rx_timer_to_socket := b\<rparr>) = the_epoller r"
  "the_epoller (r\<lparr>rx_clock := now\<rparr>) = the_epoller r" "the_epoller (r\<lparr>rx_quit := q\<rparr>) = the_epoller r"
  "the_epoller (r\<lparr>rx_service_quit := q\<rparr>) = the_epoller r"
  "ts (r\<lparr>rx_kernel := k\<rparr>) = ts r" "ts (r\<lparr>rx_timers := h\<rparr>) = ts r" "ts (r\<lparr>rx_socket_to_timer := a\<rparr>) = ts r"
  "ts (r\<lparr>rx_timer_to_socket := b\<rparr>) = ts r" "ts (r\<lparr>rx_clock := now\<rparr>) = ts r" "ts (r\<lparr>rx_quit := q\<rparr>) = ts r"
  "ts (r\<lparr>rx_service_quit := q\<rparr>) = ts r"
  by (simp_all add: the_epoller_def ts_def)

lemma conn_frame [simp]:
  "the_epoller (upd_conn sid f r) = the_epoller r" "ts (upd_conn sid f r) = ts r" "rx_world (upd_conn sid f r) = rx_world r"
  "the_epoller (setWriteCallback sid on r) = the_epoller r" "ts (setWriteCallback sid on r) = ts r"
  "rx_world (setWriteCallback sid on r) = rx_world r"
  "the_epoller (reactor_closeSocket sid r) = the_epoller r" "ts (reactor_closeSocket sid r) = ts r"
  "rx_world (reactor_closeSocket sid r) = rx_world r"
  by (simp_all add: the_epoller_def ts_def upd_conn_def setWriteCallback_def reactor_closeSocket_def)

lemma thread_inv_frame [simp]:
  "thread_inv batch (r\<lparr>rx_kernel := k\<rparr>) = thread_inv batch r" "thread_inv batch (r\<lparr>rx_timers := h\<rparr>) = thread_inv batch r"
  "thread_inv batch (r\<lparr>rx_socket_to_timer := a\<rparr>) = thread_inv batch r"
  "thread_inv batch (r\<lparr>rx_timer_to_socket := b\<rparr>) = thread_inv batch r"
  "thread_inv batch (r\<lparr>rx_clock := now\<rparr>) = thread_inv batch r" "thread_inv batch (r\<lparr>rx_quit := q\<rparr>) = thread_inv batch r"
  "thread_inv batch (r\<lparr>rx_service_quit := q\<rparr>) = thread_inv batch r"
  by (simp_all add: thread_inv_defs reactor_inv_def)

lemma reactor_inv_world [simp]:
  "reactor_inv (set_epoller e r) = reactor_inv r" "reactor_inv (upd_rest f r) = reactor_inv r" "reactor_inv (object_at p x r) = reactor_inv r"
  by (simp_all add: set_epoller_def upd_rest_def object_at_def)

text \<open>The rest of the thread's state may change as long as its pipe stays the same device.\<close>

lemma thread_inv_rest:
  assumes "thread_inv batch r" and "sp_device (mq_pipe (nt_queue (f (ts r)))) = pipe_device r"
    and "sp_nonblock (mq_pipe (nt_queue (f (ts r)))) = sp_nonblock (mq_pipe (nt_queue (ts r)))"
  shows "thread_inv batch (upd_rest f r)"
  using assms by (simp add: thread_inv_defs)

lemma thread_inv_emit: "thread_inv batch r \<Longrightarrow> thread_inv batch (nt_emit cmd r)"
  by (simp add: nt_emit_def thread_inv_rest)

lemma thread_inv_emits: "thread_inv batch r \<Longrightarrow> thread_inv batch (fold nt_emit cmds r)"
  by (induction cmds arbitrary: r) (simp_all add: thread_inv_emit)

lemma thread_inv_upd_conn:
  assumes "thread_inv batch r" and "\<And>c. rx_connections r sid = Some c \<Longrightarrow> conn_ok c \<Longrightarrow> conn_ok (f c)"
  shows "thread_inv batch (upd_conn sid f r)"
  using assms reactor_inv_upd_conn [of r sid f] by (simp add: thread_inv_defs)

lemma thread_inv_setWriteCallback:
  assumes "thread_inv batch r"
  shows "thread_inv batch (setWriteCallback sid on r)"
proof -
  have eq: "rx_sockets (setWriteCallback sid on r) j
      = (if j = sid then map_option (\<lambda>s. s\<lparr>dev_write_cb := on\<rparr>) (rx_sockets r j) else rx_sockets r j)" for j
    by (simp add: setWriteCallback_def)
  have same: "(\<exists>s. rx_sockets (setWriteCallback sid on r) j = Some s \<and> P (dev_ptr s) (dev_fd s))
      = (\<exists>s. rx_sockets r j = Some s \<and> P (dev_ptr s) (dev_fd s))" for j P
    by (auto simp: eq)
  have "sockets_ok (setWriteCallback sid on r)"
    using assms by (auto simp: thread_inv_def sockets_ok_def eq split: if_splits)
  moreover have "objects_ok (setWriteCallback sid on r)"
    using assms same [where P = "\<lambda>p _. p = q" for q] by (simp add: thread_inv_def objects_ok_def)
  moreover have "interest_ok (setWriteCallback sid on r)"
    using assms same [where P = "\<lambda>p fd. p = q \<and> fd = k" for q k] by (simp add: thread_inv_def interest_ok_def)
  ultimately show ?thesis
    using assms reactor_inv_setWriteCallback [of r] by (simp add: thread_inv_def batch_ok_def)
qed

subsection \<open>Closing\<close>

text \<open>The state after a socket of a well formed thread is closed.\<close>

lemma er_closeSocket_eq:
  assumes "thread_inv batch r" and "rx_sockets r sid = Some s"
  shows "rx_sockets (er_closeSocket sid r) = (rx_sockets r)(sid := None)"
    "rx_connections (er_closeSocket sid r) = (rx_connections r)(sid := None)"
    "objects (er_closeSocket sid r) = (objects r)(dev_ptr s := None)" "ts (er_closeSocket sid r) = ts r"
    "rx_kernel (er_closeSocket sid r) = rx_kernel r"
    "ek_interest (the_epoller (er_closeSocket sid r)) = (ek_interest (the_epoller r))(dev_fd s := None)"
    "ep_removed (the_epoller (er_closeSocket sid r)) = insert (dev_ptr s) (ep_removed (the_epoller r))"
    "ep_fd (the_epoller (er_closeSocket sid r)) = ep_fd (the_epoller r)"
proof -
  have d: "dev_attached s" "ek_interest (the_epoller r) (dev_fd s) = Some (dev_ptr s, {EPOLLIN, EPOLLPRI})"
    "ep_fd (the_epoller r) \<noteq> -1"
    using assms by (simp_all add: thread_inv_def sockets_ok_def interest_ok_def)
  note eqs = er_closeSocket_def detachIOService_def er_removeIODevice_def ep_del_def ctl_del_def destroy_device_def
    reactor_closeSocket_def
  show "rx_sockets (er_closeSocket sid r) = (rx_sockets r)(sid := None)"
    "rx_connections (er_closeSocket sid r) = (rx_connections r)(sid := None)"
    "objects (er_closeSocket sid r) = (objects r)(dev_ptr s := None)" "ts (er_closeSocket sid r) = ts r"
    "rx_kernel (er_closeSocket sid r) = rx_kernel r"
    using assms(2) d by (simp_all add: eqs set_epoller_def object_at_def ts_def the_epoller_def)
  show "ek_interest (the_epoller (er_closeSocket sid r)) = (ek_interest (the_epoller r))(dev_fd s := None)"
    "ep_removed (the_epoller (er_closeSocket sid r)) = insert (dev_ptr s) (ep_removed (the_epoller r))"
    "ep_fd (the_epoller (er_closeSocket sid r)) = ep_fd (the_epoller r)"
    using assms(2) d by (simp_all add: eqs set_epoller_def object_at_def the_epoller_def)
qed

lemma er_closeSocket_reactor_inv: "reactor_inv r \<Longrightarrow> reactor_inv (er_closeSocket sid r)"
  by (auto simp: er_closeSocket_def detachIOService_def er_removeIODevice_def destroy_device_def
      intro!: reactor_inv_closeSocket split: option.splits prod.splits)

lemma other_socket:
  assumes "thread_inv batch r" and "rx_sockets r sid = Some s" and "rx_sockets r sid' = Some s'" and "sid' \<noteq> sid"
  shows "dev_ptr s' \<noteq> dev_ptr s" "dev_fd s' \<noteq> dev_fd s"
proof -
  have o: "objects r (dev_ptr s) = Some (SocketRef sid)" "objects r (dev_ptr s') = Some (SocketRef sid')"
    and k: "ek_interest (the_epoller r) (dev_fd s) = Some (dev_ptr s, {EPOLLIN, EPOLLPRI})"
      "ek_interest (the_epoller r) (dev_fd s') = Some (dev_ptr s', {EPOLLIN, EPOLLPRI})"
    using assms(1-3) unfolding thread_inv_def sockets_ok_def by blast+
  show p: "dev_ptr s' \<noteq> dev_ptr s" using o assms(4) by auto
  show "dev_fd s' \<noteq> dev_fd s" using k p by auto
qed

lemma socket_not_pipe:
  assumes "thread_inv batch r" and "rx_sockets r sid = Some s"
  shows "dev_ptr s \<noteq> dev_ptr (pipe_device r)"
proof -
  have "objects r (dev_ptr s) = Some (SocketRef sid)" "objects r (dev_ptr (pipe_device r)) = Some PipeRef"
    using assms unfolding thread_inv_def sockets_ok_def objects_ok_def by blast+
  then show ?thesis by auto
qed

lemma thread_inv_closeSocket:
  assumes inv: "thread_inv batch r"
  shows "thread_inv batch (er_closeSocket sid r)"
proof (cases "rx_sockets r sid")
  case None
  then show ?thesis using inv by (simp add: er_closeSocket_def)
next
  case (Some s)
  note eq = er_closeSocket_eq [OF inv Some]
  note other = other_socket [OF inv Some]
  have parts: "sockets_ok r" "objects_ok r" "interest_ok r" "batch_ok batch r" "reactor_inv r"
    using inv by (simp_all add: thread_inv_def)
  have "sockets_ok (er_closeSocket sid r)"
    using parts(1) other unfolding sockets_ok_def eq by auto
  moreover have "objects_ok (er_closeSocket sid r)"
    unfolding objects_ok_def eq
  proof (intro conjI allI impI)
    fix p sid'
    assume "((objects r)(dev_ptr s := None)) p = Some (SocketRef sid')"
    then have p: "p \<noteq> dev_ptr s" "objects r p = Some (SocketRef sid')" by (auto split: if_splits)
    then obtain s' where s': "rx_sockets r sid' = Some s'" "dev_ptr s' = p" using parts(2) unfolding objects_ok_def by blast
    then have "sid' \<noteq> sid" using p(1) Some by auto
    then show "\<exists>s'. ((rx_sockets r)(sid := None)) sid' = Some s' \<and> dev_ptr s' = p" using s' by simp
  qed (use parts(2) socket_not_pipe [OF inv Some] in \<open>auto simp: objects_ok_def\<close>)
  moreover have "interest_ok (er_closeSocket sid r)"
    unfolding interest_ok_def eq
  proof (intro conjI allI impI)
    show "ep_fd (the_epoller r) \<noteq> -1" using parts(3) by (simp add: interest_ok_def)
    fix fd p fl
    assume k: "((ek_interest (the_epoller r))(dev_fd s := None)) fd = Some (p, fl)"
    then have fd: "fd \<noteq> dev_fd s" "ek_interest (the_epoller r) fd = Some (p, fl)" by (auto split: if_splits)
    then show "fl = {EPOLLIN, EPOLLPRI}" using parts(3) unfolding interest_ok_def by blast
    from fd(2) consider "p = dev_ptr (pipe_device r)"
      | sid' s' where "rx_sockets r sid' = Some s'" "dev_ptr s' = p" "dev_fd s' = fd"
      using parts(3) unfolding interest_ok_def by blast
    then show "p = dev_ptr (pipe_device r) \<or>
        (\<exists>sid' s'. ((rx_sockets r)(sid := None)) sid' = Some s' \<and> dev_ptr s' = p \<and> dev_fd s' = fd)"
    proof cases
      case (2 sid' s')
      then have "sid' \<noteq> sid" using fd(1) Some by auto
      then show ?thesis using 2 by auto
    qed simp
  qed
  moreover have "batch_ok batch (er_closeSocket sid r)"
    using parts(4) unfolding batch_ok_def eq by auto
  ultimately show ?thesis using er_closeSocket_reactor_inv [OF parts(5)] by (simp add: thread_inv_def)
qed

lemma thread_inv_nt_closeSocket: "thread_inv batch r \<Longrightarrow> thread_inv batch (nt_closeSocket sid r)"
  by (simp add: nt_closeSocket_def sendNetCommandClose_def thread_inv_closeSocket thread_inv_emit)

lemma onRecvMessage_some_ok:
  assumes "buffer_ok b" and "onRecvMessage mx create decode tid sid b = Some (cmds, closed, b')"
  shows "buffer_ok b'"
proof -
  obtain msgs c rest where p: "parse_stream mx create decode (content b) = (msgs, c, rest)" by (metis prod_cases3)
  from onRecvMessage_refines [OF assms(1) p, of tid sid] assms(2) show ?thesis by auto
qed

lemma thread_inv_onRecvMessage:
  assumes "thread_inv batch r" and "nt_onRecvMessage pr sid r = Some r'"
  shows "thread_inv batch r'"
proof -
  obtain c cmds closed b where c: "rx_connections r sid = Some c"
    "onRecvMessage (pr_max pr) (pr_create pr) (pr_decode pr) (nt_id (ts r)) sid (tc_read_buffer c) = Some (cmds, closed, b)"
    and r': "r' = (let r1 = fold nt_emit cmds (upd_conn sid (\<lambda>c. c\<lparr>tc_read_buffer := b\<rparr>) r)
                   in if closed then nt_closeSocket sid r1 else r1)"
    using assms(2) by (auto simp: nt_onRecvMessage_def Let_def split: option.splits bind_splits)
  have "buffer_ok (tc_read_buffer c)" using assms(1) c(1) by (auto simp: thread_inv_def reactor_inv_def conn_ok_def)
  then have b: "buffer_ok b" using c(2) by (rule onRecvMessage_some_ok)
  have "thread_inv batch (fold nt_emit cmds (upd_conn sid (\<lambda>c. c\<lparr>tc_read_buffer := b\<rparr>) r))"
    by (rule thread_inv_emits, rule thread_inv_upd_conn [OF assms(1)]) (use b in \<open>simp add: conn_ok_def\<close>)
  then show ?thesis by (simp add: r' Let_def thread_inv_nt_closeSocket)
qed

interpretation nt: reactor_callbacks_ok "nt_callbacks pr" "thread_inv batch" for pr batch
  by unfold_locales
    (simp_all add: nt_callbacks_def onPeerClose_def onError_def thread_inv_nt_closeSocket thread_inv_closeSocket
      thread_inv_upd_conn thread_inv_setWriteCallback thread_inv_onRecvMessage,
     simp add: thread_inv_def)

subsection \<open>Commands and the pipe\<close>

lemma thread_inv_encode:
  "thread_inv batch r \<Longrightarrow> encode_command pr cmd r = Some (ok, r') \<Longrightarrow> thread_inv batch r'"
  by (auto simp: encode_command_def thread_inv_rest split: bind_splits)

lemma thread_inv_set_queue:
  "thread_inv batch r \<Longrightarrow> sp_device (mq_pipe q) = pipe_device r \<Longrightarrow>
   sp_nonblock (mq_pipe q) = sp_nonblock (mq_pipe (nt_queue (ts r))) \<Longrightarrow> thread_inv batch (set_queue q r)"
  by (simp add: set_queue_def thread_inv_rest)

lemma thread_inv_command:
  assumes inv: "thread_inv batch r" and step: "nt_command pr cmd r = Some r'"
  shows "thread_inv batch r'"
proof (cases "cmd_type cmd = BROADCAST")
  case True
  then obtain ok r1 where e: "encode_command pr cmd r = Some (ok, r1)"
    and r': "\<not> ok \<and> r' = r1 \<or> (\<exists>bs. reactor_broadcast (nt_callbacks pr) (nt_broadcast (ts r1)) bs r1 = Some r')"
    using step by (auto simp: nt_command_def Let_def split: bind_splits if_splits) blast+
  have r1: "thread_inv batch r1" by (rule thread_inv_encode [OF inv e])
  from r' show ?thesis
  proof (elim disjE exE)
    show "reactor_broadcast (nt_callbacks pr) (nt_broadcast (ts r1)) bs r1 = Some r' \<Longrightarrow> ?thesis" for bs
      by (rule nt.reactor_broadcast_inv [OF r1])
  qed (use r1 in simp)
next
  case other: False
  show ?thesis
  proof (cases "isConnected (socket_id (cmd_id cmd)) r \<and> cmd_type cmd = MESSAGE")
    case True
    then obtain ok r1 where e: "encode_command pr cmd r = Some (ok, r1)"
      and r': "\<not> ok \<and> r' = nt_closeSocket (socket_id (cmd_id cmd)) r1
        \<or> (\<exists>bs v. reactor_sendMessage (nt_callbacks pr) (socket_id (cmd_id cmd)) bs NoCallback r1 = Some (v, r'))"
      using step by (auto simp: nt_command_def Let_def split: bind_splits if_splits) blast+
    have r1: "thread_inv batch r1" by (rule thread_inv_encode [OF inv e])
    from r' show ?thesis
    proof (elim disjE exE)
      show "reactor_sendMessage (nt_callbacks pr) (socket_id (cmd_id cmd)) bs NoCallback r1 = Some (v, r') \<Longrightarrow> ?thesis" for bs v
        by (rule nt.reactor_sendMessage_inv [OF r1])
    qed (use r1 in \<open>simp add: thread_inv_nt_closeSocket\<close>)
  next
    case False
    then show ?thesis
      using step other inv thread_inv_closeSocket [OF inv]
      by (auto simp: nt_command_def Let_def thread_inv_rest split: if_splits command_type.splits)
  qed
qed

lemma thread_inv_commands:
  "thread_inv batch r \<Longrightarrow> nt_commands pr cs r = Some r' \<Longrightarrow> thread_inv batch r'"
proof (induction cs arbitrary: r)
  case Nil
  then show ?case by simp
next
  case (Cons c cs)
  let ?q = "nt_queue (ts r)"
  let ?r1 = "set_queue (?q\<lparr>mq_queue := (mq_queue ?q)\<lparr>cq_items := cs\<rparr>\<rparr>) r"
  have r1: "thread_inv batch ?r1" using Cons.prems(1) by (simp add: thread_inv_set_queue)
  show ?case
  proof (cases c)
    case None
    then show ?thesis using Cons.prems(2) r1 by (auto simp: reactor_quit_def Let_def)
  next
    case (Some cmd)
    then obtain r2 where "nt_command pr cmd ?r1 = Some r2" "nt_commands pr cs r2 = Some r'"
      using Cons.prems(2) by (auto simp: Let_def split: bind_splits)
    then show ?thesis using Cons.IH thread_inv_command [OF r1] by blast
  qed
qed

lemma thread_inv_pipe:
  assumes "thread_inv batch r" and "pipeReadCallback pr r = Some r'"
  shows "thread_inv batch r'"
proof -
  have nb: "sp_nonblock (mq_pipe (nt_queue (ts r)))" using assms(1) by (simp add: thread_inv_def objects_ok_def)
  let ?q = "(nt_queue (ts r))\<lparr>mq_pipe := (mq_pipe (nt_queue (ts r)))\<lparr>sp_bytes := 0\<rparr>\<rparr>"
  have inv: "thread_inv batch (set_queue ?q r)" by (rule thread_inv_set_queue [OF assms(1)]) simp_all
  have "onNetCommand pr (set_queue ?q r) = Some r'"
    using assms(2) by (simp add: pipeReadCallback_def mq_drain_eq [OF nb])
  then show ?thesis unfolding onNetCommand_def by (rule thread_inv_commands [OF inv])
qed

subsection \<open>The event loop\<close>

lemma nt_device_live:
  assumes "thread_inv batch r" and "(p, fl) \<in> batch" and "checkIODeviceExist p (the_epoller r)"
  shows "\<exists>d. nt_device r p = Some d \<and> answers d fl"
proof -
  have parts: "sockets_ok r" "objects_ok r" "batch_ok batch r" using assms(1) by (simp_all add: thread_inv_def)
  have b: "EPOLLOUT \<notin> fl" "objects r p \<noteq> None" "p = dev_ptr (pipe_device r) \<longrightarrow> EPOLLERR \<notin> fl \<and> EPOLLHUP \<notin> fl"
    using parts(3) assms(2,3) unfolding batch_ok_def checkIODeviceExist_def by blast+
  show ?thesis
  proof (cases "p = dev_ptr (pipe_device r)")
    case True
    then have "objects r p = Some PipeRef" "dev_read_cb (pipe_device r)" using parts(2) unfolding objects_ok_def by blast+
    then show ?thesis using b True by (simp add: nt_device_def answers_def)
  next
    case False
    then have "objects r p \<noteq> Some PipeRef" using parts(2) unfolding objects_ok_def by blast
    then obtain sid where o: "objects r p = Some (SocketRef sid)" using b(2) by (metis dev_ref.exhaust option.exhaust)
    then obtain s where "rx_sockets r sid = Some s" using parts(2) unfolding objects_ok_def by blast
    then show ?thesis using o b(1) parts(1) by (auto simp: nt_device_def sockets_ok_def answers_def)
  qed
qed

lemma thread_inv_read: "thread_inv batch r \<Longrightarrow> nt_read pr d r = Some r' \<Longrightarrow> thread_inv batch r'"
  unfolding nt_read_def
  by (cases "objects r (dev_ptr d) = Some PipeRef") (auto dest: thread_inv_pipe nt.onSocketRead_inv)

lemma nt_dispatch_simps [simp]:
  "ds_epoller (nt_dispatch pr errs) = the_epoller" "ds_set_epoller (nt_dispatch pr errs) = set_epoller"
  "ds_device (nt_dispatch pr errs) = nt_device"
  "ds_write (nt_dispatch pr errs) d r = onSocketWrite (nt_callbacks pr) (dev_id d) r"
  "ds_read (nt_dispatch pr errs) = nt_read pr"
  "ds_error (nt_dispatch pr errs) d r
     = Some (onSocketError (nt_callbacks pr) (dev_id d) (fst (errs (dev_id d))) (snd (errs (dev_id d))) r)"
  by (simp_all add: nt_dispatch_def)

text \<open>
  A batch the kernel may report in a well formed state; the pipe is never reported broken, as the thread holds its other end.
\<close>

definition reportable :: "('u, 'm, 'z) net_thread_scheme \<Rightarrow> (int \<times> epoll_events) list \<Rightarrow> bool" where
  "reportable r evs \<longleftrightarrow> permitted (the_epoller r) evs
     \<and> list_all (\<lambda>(p, fl). p = dev_ptr (pipe_device r) \<longrightarrow> EPOLLERR \<notin> fl \<and> EPOLLHUP \<notin> fl) evs"

lemma reportable_batch:
  assumes inv: "thread_inv {} r" and rep: "reportable r evs"
  shows "thread_inv (set evs) r"
proof -
  have parts: "sockets_ok r" "objects_ok r" "interest_ok r" using inv by (simp_all add: thread_inv_def)
  have all: "\<forall>x\<in>set evs. case x of (p, fl) \<Rightarrow>
      \<exists>fd w. ek_interest (the_epoller r) fd = Some (p, w) \<and> fl \<subseteq> w \<union> {EPOLLERR, EPOLLHUP}"
    "\<forall>x\<in>set evs. case x of (p, fl) \<Rightarrow> p = dev_ptr (pipe_device r) \<longrightarrow> EPOLLERR \<notin> fl \<and> EPOLLHUP \<notin> fl"
    using rep unfolding reportable_def permitted_def list_all_iff by blast+
  have "batch_ok (set evs) r"
    unfolding batch_ok_def
  proof (intro allI impI)
    fix p fl
    assume m: "(p, fl) \<in> set evs"
    then obtain fd w where k: "ek_interest (the_epoller r) fd = Some (p, w)" "fl \<subseteq> w \<union> {EPOLLERR, EPOLLHUP}"
      using bspec [OF all(1) m] by auto
    then have w: "w = {EPOLLIN, EPOLLPRI}" "p = dev_ptr (pipe_device r) \<or> (\<exists>sid s. rx_sockets r sid = Some s \<and> dev_ptr s = p)"
      using parts(3) unfolding interest_ok_def by blast+
    have "objects r p \<noteq> None" using w(2) parts(1,2) unfolding sockets_ok_def objects_ok_def by auto
    moreover have "p = dev_ptr (pipe_device r) \<longrightarrow> EPOLLERR \<notin> fl \<and> EPOLLHUP \<notin> fl"
      using bspec [OF all(2) m] by simp
    ultimately show "EPOLLOUT \<notin> fl \<and> (p \<in> ep_removed (the_epoller r) \<or> (objects r p \<noteq> None
        \<and> (p = dev_ptr (pipe_device r) \<longrightarrow> EPOLLERR \<notin> fl \<and> EPOLLHUP \<notin> fl)))"
      using k(2) w(1) by auto
  qed
  then show ?thesis using inv by (simp add: thread_inv_def)
qed

lemma thread_inv_drop_batch: "thread_inv batch r \<Longrightarrow> thread_inv {} r"
  by (simp add: thread_inv_def batch_ok_def)

lemma thread_inv_events_end:
  assumes "thread_inv {} r" and "ep_fd e = ep_fd (the_epoller r)" and "ek_interest e = ek_interest (the_epoller r)"
  shows "thread_inv {} (set_epoller e r)"
  using assms by (simp add: thread_inv_defs)

interpretation nt_loop: event_loop "nt_dispatch pr errs" thread_inv reportable for pr errs
proof (unfold_locales, unfold nt_dispatch_simps option.inject, goal_cases)
  case (1 batch s p fl d s1)
  then show ?case using nt.onSocketWrite_inv by blast
next
  case (2 batch s p d s1)
  then show ?case using thread_inv_read by blast
next
  case (3 batch s p d s1)
  then show ?case using nt.onSocketError_inv by blast
next
  case (4 batch s p fl)
  then show ?case by (rule nt_device_live)
next
  case (5 s evs)
  then show ?case by (rule reportable_batch)
next
  case (6 batch s e)
  then show ?case using thread_inv_drop_batch [of batch s] by (simp add: thread_inv_events_end)
qed simp

lemma doEvent_ok:
  assumes "thread_inv {} r" and "reportable r evs"
  shows "case doEvent (nt_dispatch pr errs) (Events evs) r of Inl e \<Rightarrow> e = CallbackFailed
         | Inr (ret, r') \<Rightarrow> ret = 0 \<and> thread_inv {} r' \<and> ep_removed (the_epoller r') = {}"
  using nt_loop.doEvent_keeps [of r "Events evs" pr errs] assms by (auto simp: nt_loop.answered_def split: sum.splits)

subsection \<open>Starting and attaching\<close>

lemma er_add_some:
  assumes "er_addIODevice d r = (True, r')"
  shows "r' = set_epoller ((the_epoller r)\<lparr>ek_interest := (ek_interest (the_epoller r))(dev_fd d \<mapsto> (dev_ptr d, wanted_events d))\<rparr>) r"
    "ek_interest (the_epoller r) (dev_fd d) = None" "ep_fd (the_epoller r) \<noteq> -1"
  using assms by (auto simp: er_addIODevice_def ep_add_def ctl_add_def simp del: not_None_eq split: if_splits)

lemma nt_init_inv:
  fixes r :: "('u, 'm, 'z) net_thread_scheme"
  assumes t: "nt_queue t = MessageQueue 0 ptr"
    and init: "nt_init i mr ms fds nb ce (EpollReactor n now k limit fd cloexec t) = (True, r)"
  shows "thread_inv {} r"
proof -
  define r1 :: "('u, 'm, 'z) net_thread_scheme" where "r1 = setSendBufferInitSize 1024 (setRecvBufferInitSize 1024 (setSendBufferExpandSize 1024
      (setRecvBufferExpandSize 1024 (setSendBufferMaxSize ms
        (setRecvBufferMaxSize mr (EpollReactor n now k limit fd cloexec t))))))"
  have new: "rx_sockets r1 = Map.empty" "rx_connections r1 = Map.empty" "0 < rx_read_expand r1" "0 < rx_write_expand r1"
    "objects r1 = Map.empty" "ts r1 = t" "ek_interest (the_epoller r1) = Map.empty"
    by (simp_all add: r1_def setRecvBufferInitSize_def setRecvBufferExpandSize_def setRecvBufferMaxSize_def
      setSendBufferInitSize_def setSendBufferExpandSize_def setSendBufferMaxSize_def EpollReactor_def Reactor_def ts_def
      the_epoller_def ep_create_def Epoller_def Let_def)
  obtain q r2 where a: "mq_attach er_addIODevice er_removeIODevice fds nb ce (nt_queue (ts r1)) r1 = (True, q, r2)"
    and r: "r = upd_rest (\<lambda>t. t\<lparr>nt_id := i\<rparr>) (object_at (dev_ptr (sp_device (mq_pipe q))) (Some PipeRef) (set_queue q r2))"
    using init by (auto simp: nt_init_def r1_def Let_def split: prod.splits if_splits)
  from t a new(6) obtain rd wr where q: "er_addIODevice ((IODevice ptr)\<lparr>dev_fd := rd, dev_read_cb := True\<rparr>) r1 = (True, r2)"
    "sp_device (mq_pipe q) = (IODevice ptr)\<lparr>dev_fd := rd, dev_read_cb := True, dev_attached := True\<rparr>" "sp_nonblock (mq_pipe q)"
    by (auto elim: mq_attach_new)
  note add = er_add_some [OF q(1)]
  have rec: "reactor_inv r" using new by (simp add: r add(1) set_queue_def reactor_inv_def)
  show ?thesis
    unfolding thread_inv_def using rec
    by (simp add: sockets_ok_def objects_ok_def interest_ok_def batch_ok_def r add set_queue_def new q(2,3) IODevice_def
        wanted_events_def insert_commute)
qed

lemma NetThread_queue: "NetThread ptr send_length = Some t \<Longrightarrow> nt_queue t = MessageQueue 0 ptr"
  by (auto simp: NetThread_def split: bind_splits)

text \<open>A socket the acceptor hands over: its address is not in use and it has no service yet.\<close>

definition fresh :: "tcp_socket \<Rightarrow> ('u, 'm, 'z) net_thread_scheme \<Rightarrow> bool" where
  "fresh peer r \<longleftrightarrow> objects r (dev_ptr peer) = None \<and> \<not> dev_attached peer \<and> \<not> dev_write_cb peer"

lemma er_attachSocket_cases:
  assumes "\<not> dev_attached peer" and "\<not> dev_write_cb peer" and "er_attachSocket peer r = Some (ok, r')"
  obtains (refused) "\<not> ok" "r' = r"
  | (attached) connection where "ok" "rx_sockets r (dev_id peer) = None"
      "TcpConnection (rx_read_init r) (rx_read_expand r) (rx_write_init r) (rx_write_expand r) = Some connection"
      "ek_interest (the_epoller r) (dev_fd peer) = None" "ep_fd (the_epoller r) \<noteq> -1"
      "rx_sockets r' = (rx_sockets r)(dev_id peer \<mapsto> peer\<lparr>dev_read_cb := True, dev_error_cb := True, dev_attached := True\<rparr>)"
      "rx_connections r' = (if rx_connections r (dev_id peer) \<noteq> None then rx_connections r
         else (rx_connections r)(dev_id peer \<mapsto> connection\<lparr>tc_status := CONNECTED\<rparr>))"
      "objects r' = (objects r)(dev_ptr peer \<mapsto> SocketRef (dev_id peer))"
      "the_epoller r' = (the_epoller r)\<lparr>ek_interest := (ek_interest (the_epoller r))(dev_fd peer \<mapsto> (dev_ptr peer, {EPOLLIN, EPOLLPRI}))\<rparr>"
      "ts r' = ts r" "rx_kernel r' = rx_kernel r" "rx_read_expand r' = rx_read_expand r" "rx_write_expand r' = rx_write_expand r"
proof (cases "rx_sockets r (dev_id peer)")
  case (Some _)
  then show ?thesis using assms(3) refused by (simp add: er_attachSocket_def)
next
  case None
  let ?d = "peer\<lparr>dev_read_cb := True, dev_error_cb := True\<rparr>"
  show ?thesis
  proof (cases "er_addIODevice ?d r")
    case (Pair added r1)
    show ?thesis
    proof (cases added)
      case False
      then have "r1 = r"
        using Pair by (auto simp: er_addIODevice_def ep_add_def ctl_add_def set_epoller_def the_epoller_def split: if_splits)
      then show ?thesis using assms None Pair False refused by (auto simp: er_attachSocket_def attachIOService_def)
    next
      case True
      have added: "er_addIODevice ?d r = (True, r1)" using Pair True by simp
      note add = er_add_some [OF added]
      have same: "rx_read_init r1 = rx_read_init r" "rx_read_expand r1 = rx_read_expand r" "rx_write_init r1 = rx_write_init r"
        "rx_write_expand r1 = rx_write_expand r"
        by (simp_all add: add(1) set_epoller_def)
      obtain connection where c:
        "TcpConnection (rx_read_init r) (rx_read_expand r) (rx_write_init r) (rx_write_expand r) = Some connection"
        using assms None Pair True same by (auto simp: er_attachSocket_def attachIOService_def split: bind_splits)
      have w: "wanted_events ?d = {EPOLLIN, EPOLLPRI}" using assms(2) by (simp add: wanted_events_def)
      let ?r = "object_at (dev_ptr peer) (Some (SocketRef (dev_id peer)))
          (r1\<lparr>rx_sockets := (rx_sockets r1)(dev_id peer \<mapsto> peer\<lparr>dev_read_cb := True, dev_error_cb := True, dev_attached := True\<rparr>),
              rx_connections := (if rx_connections r1 (dev_id peer) \<noteq> None then rx_connections r1
                else (rx_connections r1)(dev_id peer \<mapsto> connection\<lparr>tc_status := CONNECTED\<rparr>))\<rparr>)"
      have "er_attachSocket peer r = Some (True, ?r)"
        using assms(1) None Pair True c by (simp add: er_attachSocket_def attachIOService_def same)
      then have r': "ok" "r' = ?r" using assms(3) by simp_all
      show ?thesis
        by (rule attached [OF r'(1) None c])
          (use add w in \<open>simp_all add: r'(2) object_at_def set_epoller_def the_epoller_def ts_def\<close>)
    qed
  qed
qed

lemma thread_inv_attachSocket:
  assumes inv: "thread_inv batch r" and new: "fresh peer r" and att: "er_attachSocket peer r = Some (ok, r')"
  shows "thread_inv batch r'"
proof -
  have peer: "\<not> dev_attached peer" "\<not> dev_write_cb peer" "objects r (dev_ptr peer) = None"
    using new by (simp_all add: fresh_def)
  have parts: "sockets_ok r" "objects_ok r" "interest_ok r" "batch_ok batch r" "reactor_inv r"
    using inv by (simp_all add: thread_inv_def)
  have "objects r (dev_ptr (pipe_device r)) = Some PipeRef" using parts(2) unfolding objects_ok_def by blast
  then have pipe: "dev_ptr peer \<noteq> dev_ptr (pipe_device r)" using peer(3) by auto
  from peer(1,2) att show ?thesis
  proof (cases rule: er_attachSocket_cases)
    case refused
    then show ?thesis using inv by simp
  next
    case (attached connection)
    note eq = attached(6-13)
    have conn: "rx_connections r (dev_id peer) = None"
      using attached(2) parts(5) by (metis reactor_inv_def domIff)
    have cok: "conn_ok (connection\<lparr>tc_status := CONNECTED\<rparr>)"
      using TcpConnection_ok [OF attached(3)] parts(5) by (simp add: reactor_inv_def)
    have dom: "dom (rx_sockets r') = dom (rx_connections r')"
      using parts(5) conn by (simp add: eq reactor_inv_def)
    have "reactor_inv r'"
      unfolding reactor_inv_def
      by (rule conjI, rule dom)
        (use parts(5) cok conn in \<open>auto simp: reactor_inv_def eq simp del: conn_ok_simps\<close>)
    moreover have "sockets_ok r'"
      unfolding sockets_ok_def
    proof (intro allI impI)
      fix sid s
      assume s: "rx_sockets r' sid = Some s"
      show "objects r' (dev_ptr s) = Some (SocketRef sid) \<and> dev_attached s \<and> dev_read_cb s \<and> dev_error_cb s
          \<and> ek_interest (the_epoller r') (dev_fd s) = Some (dev_ptr s, {EPOLLIN, EPOLLPRI})"
      proof (cases "sid = dev_id peer")
        case True
        then show ?thesis using s by (auto simp: eq)
      next
        case False
        then have old: "rx_sockets r sid = Some s" using s by (simp add: eq)
        then have o: "objects r (dev_ptr s) = Some (SocketRef sid)" "dev_attached s" "dev_read_cb s" "dev_error_cb s"
          "ek_interest (the_epoller r) (dev_fd s) = Some (dev_ptr s, {EPOLLIN, EPOLLPRI})"
          using parts(1) unfolding sockets_ok_def by blast+
        have "dev_ptr s \<noteq> dev_ptr peer" "dev_fd s \<noteq> dev_fd peer" using o(1,5) peer(3) attached(4) by auto
        then show ?thesis using o by (simp add: eq)
      qed
    qed
    moreover have "objects_ok r'"
      unfolding objects_ok_def
    proof (intro conjI allI impI)
      fix p sid
      assume "objects r' p = Some (SocketRef sid)"
      then show "\<exists>s. rx_sockets r' sid = Some s \<and> dev_ptr s = p"
        using parts(2) attached(2) unfolding objects_ok_def by (cases "p = dev_ptr peer") (fastforce simp: eq)+
    next
      fix p
      show "objects r' p = Some PipeRef \<longleftrightarrow> p = dev_ptr (pipe_device r')"
        using parts(2) pipe unfolding objects_ok_def by (auto simp: eq)
    qed (use parts(2) in \<open>simp_all add: objects_ok_def eq\<close>)
    moreover have "interest_ok r'"
      unfolding interest_ok_def
    proof (intro conjI allI impI)
      show "ep_fd (the_epoller r') \<noteq> -1" using attached(5) by (simp add: eq)
      fix fd p fl
      assume k: "ek_interest (the_epoller r') fd = Some (p, fl)"
      show "fl = {EPOLLIN, EPOLLPRI}"
        using k parts(3) unfolding interest_ok_def by (cases "fd = dev_fd peer") (auto simp: eq)
      show "p = dev_ptr (pipe_device r') \<or> (\<exists>sid s. rx_sockets r' sid = Some s \<and> dev_ptr s = p \<and> dev_fd s = fd)"
      proof (cases "fd = dev_fd peer")
        case True
        then show ?thesis using k by (intro disjI2 exI [of _ "dev_id peer"]) (auto simp: eq)
      next
        case False
        then have "ek_interest (the_epoller r) fd = Some (p, fl)" using k by (simp add: eq)
        then consider "p = dev_ptr (pipe_device r)"
          | sid s where "rx_sockets r sid = Some s" "dev_ptr s = p" "dev_fd s = fd"
          using parts(3) unfolding interest_ok_def by blast
        then show ?thesis
        proof cases
          case (2 sid s)
          then have "sid \<noteq> dev_id peer" using attached(2) by auto
          then show ?thesis using 2 by (auto simp: eq)
        qed (simp add: eq)
      qed
    qed
    moreover have "batch_ok batch r'"
      using parts(4) pipe unfolding batch_ok_def by (auto simp: eq)
    ultimately show ?thesis by (simp add: thread_inv_def)
  qed
qed

lemma thread_inv_attach:
  assumes "thread_inv batch r" and "fresh peer r" and "nt_attach peer r = Some r'"
  shows "thread_inv batch r'"
proof -
  obtain ok r1 where "er_attachSocket peer r = Some (ok, r1)" "r' = sendNetCommandNew (dev_id peer) r1"
    using assms(3) by (auto simp: nt_attach_def split: bind_splits)
  then show ?thesis using thread_inv_attachSocket [OF assms(1,2)] by (simp add: sendNetCommandNew_def thread_inv_emit)
qed

lemma sp_write_keeps: "sp_device (snd (sp_write n p)) = sp_device p" "sp_nonblock (snd (sp_write n p)) = sp_nonblock p"
  by (simp_all add: sp_write_def)

lemma thread_inv_push: "thread_inv batch r \<Longrightarrow> nt_push cmd r = Some r' \<Longrightarrow> thread_inv batch r'"
  by (auto simp: nt_push_def mq_push_def sp_write_keeps intro!: thread_inv_set_queue split: bind_splits)

subsection \<open>Runs of a thread\<close>

text \<open>
  The steps of a thread and of what surrounds it: a batch of events is dispatched, a send-error timer fires, another thread
  pushes a command or attaches a socket, the kernel moves (it receives data and its readiness changes; only a
  send puts bytes on the wire), time passes and the timers are rearranged.
\<close>

inductive nt_step :: "'m protocol \<Rightarrow> (int \<Rightarrow> int \<times> int) \<Rightarrow> ('u, 'm) net_thread \<Rightarrow> ('u, 'm) net_thread \<Rightarrow> bool" for pr errs where
  polled: "reportable r evs \<Longrightarrow> doEvent (nt_dispatch pr errs) (Events evs) r = Inr (ret, r') \<Longrightarrow> nt_step pr errs r r'"
| timer: "nt_step pr errs r (onSendMessageError (nt_callbacks pr) i r)"
| command: "nt_push cmd r = Some r' \<Longrightarrow> nt_step pr errs r r'"
| attach: "fresh peer r \<Longrightarrow> nt_attach peer r = Some r' \<Longrightarrow> nt_step pr errs r r'"
| kernel: "k_wire k = k_wire (rx_kernel r) \<Longrightarrow> nt_step pr errs r (r\<lparr>rx_kernel := k\<rparr>)"
| time: "nt_step pr errs r (r\<lparr>rx_clock := now, rx_timers := h\<rparr>)"

inductive nt_reachable :: "'m protocol \<Rightarrow> (int \<Rightarrow> int \<times> int) \<Rightarrow> ('u, 'm) net_thread \<Rightarrow> bool" for pr errs where
  initial: "NetThread ptr send_length = Some t \<Longrightarrow>
     nt_init i mr ms fds nb ce (EpollReactor n now k limit fd cloexec t) = (True, r) \<Longrightarrow> nt_reachable pr errs r"
| step: "nt_reachable pr errs r \<Longrightarrow> nt_step pr errs r r' \<Longrightarrow> nt_reachable pr errs r'"

lemma nt_step_inv:
  assumes "nt_step pr errs r r'" and "thread_inv {} r"
  shows "thread_inv {} r'"
  using assms(1)
proof (cases rule: nt_step.cases)
  case (polled evs ret)
  then show ?thesis using doEvent_ok [OF assms(2), of evs pr errs] by simp
next
  case (timer i)
  then show ?thesis using nt.onSendMessageError_inv [OF assms(2)] by simp
next
  case (command cmd)
  then show ?thesis using thread_inv_push [OF assms(2)] by simp
next
  case (attach peer)
  then show ?thesis using thread_inv_attach [OF assms(2)] by simp
next
  case (kernel k)
  then show ?thesis using assms(2) by simp
next
  case (time now h)
  then show ?thesis using assms(2) by simp
qed

lemma nt_reachable_inv: "nt_reachable pr errs r \<Longrightarrow> thread_inv {} r"
  by (induction rule: nt_reachable.induct) (auto intro: nt_init_inv [OF NetThread_queue] nt_step_inv)

text \<open>
  C6: the event loop of a network thread never goes wrong by itself. In every reachable state and for every batch of
  events the kernel may report, \<open>doEvent\<close> uses no device that is gone and calls no callback that is not set, although
  the callbacks close sockets whose events are still in the batch; it ends with 0, the removal marks cleared and
  the thread well formed, unless a callback itself fails.
\<close>
theorem event_loop_safe:
  assumes "nt_reachable pr errs r" and "reportable r evs"
  shows "case doEvent (nt_dispatch pr errs) (Events evs) r of Inl e \<Rightarrow> e = CallbackFailed
         | Inr (ret, r') \<Rightarrow> ret = 0 \<and> ep_removed (the_epoller r') = {} \<and> nt_reachable pr errs r' \<and> thread_inv {} r'"
proof (cases "doEvent (nt_dispatch pr errs) (Events evs) r")
  case (Inl e)
  then show ?thesis using doEvent_ok [OF nt_reachable_inv [OF assms(1)] assms(2), of pr errs] by simp
next
  case (Inr x)
  then obtain ret r' where x: "doEvent (nt_dispatch pr errs) (Events evs) r = Inr (ret, r')" by (cases x) auto
  have "nt_reachable pr errs r'" by (rule nt_reachable.step [OF assms(1) nt_step.polled [OF assms(2) x]])
  then show ?thesis using doEvent_ok [OF nt_reachable_inv [OF assms(1)] assms(2), of pr errs] x by simp
qed

text \<open>A thread for the examples: messages are single bytes, the pipe has the descriptors 5 and 6 and the address 9.\<close>

definition example_protocol :: "byte protocol" where
  "example_protocol = \<lparr>pr_max = 40960, pr_create = byte_create, pr_decode = byte_decode, pr_encode = byte_encode\<rparr>"

definition example_state :: "byte thread_state" where
  "example_state = \<lparr>nt_id = -1, nt_queue = MessageQueue 0 9,
     nt_encode_buffer = \<lparr>db_buffer = replicate 64 0, db_expand_size = 1024, db_read_index = 0, db_write_index = 0\<rparr>,
     nt_broadcast = [], nt_emitted = []\<rparr>"

definition example_base :: "kernel \<Rightarrow> (unit, byte) net_thread" where
  "example_base k = setSendBufferInitSize 1024 (setRecvBufferInitSize 1024 (setSendBufferExpandSize 1024
     (setRecvBufferExpandSize 1024 (setSendBufferMaxSize 409600 (setRecvBufferMaxSize 81920
       (EpollReactor 100 (Timestamp 0 0) k 10 3 True example_state))))))"

definition example_queue :: "byte net_command option message_queue" where
  "example_queue = \<lparr>mq_queue = ConcurrentQueue 0,
     mq_pipe = \<lparr>sp_device = (IODevice 9)\<lparr>dev_fd := 5, dev_read_cb := True, dev_attached := True\<rparr>,
                sp_fd1 = 6, sp_bytes = 0, sp_nonblock = True\<rparr>\<rparr>"

definition example_thread :: "kernel \<Rightarrow> (unit, byte) net_thread" where
  "example_thread k =
     upd_rest (\<lambda>t. t\<lparr>nt_id := 1\<rparr>) (object_at 9 (Some PipeRef) (set_queue example_queue
       (set_epoller ((the_epoller (example_base k))\<lparr>ek_interest := [5 \<mapsto> (9, {EPOLLIN, EPOLLPRI})]\<rparr>) (example_base k))))"

lemma example_base_simps [simp]:
  "the_epoller (example_base k) = \<lparr>ep_fd = 3, ep_events_size = 32, ep_removed = {}, ek_interest = Map.empty, ek_max_watches = 10\<rparr>"
  "ts (example_base k) = example_state" "objects (example_base k) = Map.empty" "rx_sockets (example_base k) = Map.empty"
  "rx_connections (example_base k) = Map.empty" "rx_kernel (example_base k) = k"
  by (simp_all add: example_base_def setRecvBufferInitSize_def setRecvBufferExpandSize_def setRecvBufferMaxSize_def
      setSendBufferInitSize_def setSendBufferExpandSize_def setSendBufferMaxSize_def EpollReactor_def Reactor_def ts_def
      the_epoller_def ep_create_def Epoller_def)

lemma example_thread_init:
  "NetThread 9 64 = Some example_state"
  "nt_init 1 81920 409600 (Some (5, 6)) (True, True) (True, True) (EpollReactor 100 (Timestamp 0 0) k 10 3 True example_state)
     = (True, example_thread k)"
proof -
  show "NetThread 9 64 = Some example_state"
    by (simp add: NetThread_def DynamicBuffer_def vec_alloc_def vec_max_def example_state_def)
  have "er_addIODevice ((IODevice 9)\<lparr>dev_fd := 5, dev_read_cb := True\<rparr>) (example_base k)
      = (True, set_epoller ((the_epoller (example_base k))\<lparr>ek_interest := [5 \<mapsto> (9, {EPOLLIN, EPOLLPRI})]\<rparr>) (example_base k))"
    by (simp add: er_addIODevice_def ep_add_def ctl_add_def IODevice_def wanted_events_def)
  then have "mq_attach er_addIODevice er_removeIODevice (Some (5, 6)) (True, True) (True, True) (nt_queue example_state) (example_base k)
      = (True, example_queue,
         set_epoller ((the_epoller (example_base k))\<lparr>ek_interest := [5 \<mapsto> (9, {EPOLLIN, EPOLLPRI})]\<rparr>) (example_base k))"
    unfolding example_state_def example_queue_def thread_state.simps by (rule mq_attach_new_ok)
  then show "nt_init 1 81920 409600 (Some (5, 6)) (True, True) (True, True)
      (EpollReactor 100 (Timestamp 0 0) k 10 3 True example_state) = (True, example_thread k)"
    unfolding nt_init_def example_base_def [symmetric] Let_def
    by (simp add: example_thread_def example_queue_def IODevice_def)
qed

lemma example_thread_reachable: "nt_reachable pr errs (example_thread k)"
  by (rule nt_reachable.initial [OF example_thread_init])

theorem event_loop_safe_witness:
  "\<exists>r evs. evs = [(9, {EPOLLIN})] \<and> reportable r evs
     \<and> (case doEvent (nt_dispatch example_protocol (\<lambda>_. (0, 0))) (Events evs) r of Inl e \<Rightarrow> e = CallbackFailed
        | Inr (ret, r') \<Rightarrow> ret = 0 \<and> thread_inv {} (r' :: (unit, byte) net_thread))"
proof -
  let ?r = "example_thread (example_kernel [] [] [])" and ?evs = "[(9, {EPOLLIN})]"
  have rep: "reportable ?r ?evs"
    by (simp add: example_thread_def reportable_def permitted_def set_queue_def)
  have "case doEvent (nt_dispatch example_protocol (\<lambda>_. (0, 0))) (Events ?evs) ?r of Inl e \<Rightarrow> e = CallbackFailed
        | Inr (ret, r') \<Rightarrow> ret = 0 \<and> thread_inv {} r'"
    using event_loop_safe [OF example_thread_reachable rep, of example_protocol "\<lambda>_. (0, 0)"] by (auto split: sum.splits)
  with rep show ?thesis by blast
qed

end
