(* ===== verification/Net_Thread_Flow.thy ===== *)
theory Net_Thread_Flow
  imports Net_Thread_Safety
begin

text \<open>
  Where the bytes of a network thread go. Incoming: what the read handler takes from a socket comes out as the
  commands its frames stand for. Outgoing: bytes that once had to wait in a write buffer are never written,
  because nothing updates the registration of a socket after it is attached, and it was attached without a write
  callback, so the kernel is never asked for \<open>EPOLLOUT\<close>.
\<close>

subsection \<open>Outgoing: what waits, waits for ever\<close>

definition stalled :: "int \<Rightarrow> bytes \<Rightarrow> bytes \<Rightarrow> ('u, 'x) reactor \<Rightarrow> bool" where
  "stalled sid w p r \<longleftrightarrow> k_wire (rx_kernel r) sid = w \<and> p \<noteq> []
     \<and> (\<forall>c. rx_connections r sid = Some c \<longrightarrow> buffer_ok (tc_write_buffer c) \<and> (\<exists>q. content (tc_write_buffer c) = p @ q))"

lemma stalled_simps [simp]:
  "stalled sid w p (upd_rest f r') = stalled sid w p r'" "stalled sid w p (set_epoller e r') = stalled sid w p r'"
  "stalled sid w p (object_at a x r') = stalled sid w p r'" "stalled sid w p (setWriteCallback j on r) = stalled sid w p r"
  "stalled sid w p (r\<lparr>rx_timers := h\<rparr>) = stalled sid w p r" "stalled sid w p (r\<lparr>rx_socket_to_timer := m\<rparr>) = stalled sid w p r"
  "stalled sid w p (r\<lparr>rx_timer_to_socket := n\<rparr>) = stalled sid w p r" "stalled sid w p (r\<lparr>rx_clock := now\<rparr>) = stalled sid w p r"
  "stalled sid w p (r\<lparr>rx_quit := q\<rparr>) = stalled sid w p r" "stalled sid w p (r\<lparr>rx_service_quit := q\<rparr>) = stalled sid w p r"
  by (simp_all add: stalled_def)

lemma stalled_timer [simp]: "stalled sid w p (addSocketTimer j ms cb r) = stalled sid w p r"
  by (simp add: addSocketTimer_def startTimer_def split: prod.splits)

lemma stalled_upd_conn:
  assumes "\<And>c. tc_write_buffer (f c) = tc_write_buffer c"
  shows "stalled sid w p (upd_conn j f r) = stalled sid w p r"
  by (auto simp: stalled_def upd_conn_def assms)

lemma stalled_conn_updates [simp]:
  "stalled sid w p (upd_conn j (setError e) r) = stalled sid w p r"
  "stalled sid w p (upd_conn j (\<lambda>c. c\<lparr>tc_status := st\<rparr>) r) = stalled sid w p r"
  "stalled sid w p (upd_conn j (\<lambda>c. c\<lparr>tc_read_buffer := b\<rparr>) r) = stalled sid w p r"
  by (simp_all add: stalled_upd_conn setError_def)

lemma stalled_kernel: "k_wire k sid = k_wire (rx_kernel r) sid \<Longrightarrow> stalled sid w p (r\<lparr>rx_kernel := k\<rparr>) = stalled sid w p r"
  by (simp add: stalled_def)

lemma stalled_close: "stalled sid w p r \<Longrightarrow> stalled sid w p (er_closeSocket j r)"
proof (cases "rx_sockets r j")
  case None
  then show "stalled sid w p r \<Longrightarrow> ?thesis" by (simp add: er_closeSocket_def)
next
  case (Some s)
  have "stalled sid w p r' \<Longrightarrow> stalled sid w p (destroy_device d (reactor_closeSocket j r'))" for r' d
    by (auto simp: destroy_device_def) (auto simp: stalled_def reactor_closeSocket_def)
  moreover have "stalled sid w p r \<Longrightarrow> stalled sid w p (snd (detachIOService er_removeIODevice s r))"
    by (simp add: detachIOService_def er_removeIODevice_def split: prod.splits)
  ultimately show "stalled sid w p r \<Longrightarrow> ?thesis" using Some
    by (cases "detachIOService er_removeIODevice s r") (simp add: er_closeSocket_def)
qed

lemma stalled_nt_close: "stalled sid w p r \<Longrightarrow> stalled sid w p (nt_closeSocket j r)"
  by (simp add: nt_closeSocket_def sendNetCommandClose_def nt_emit_def stalled_close)

lemma stalled_emits [simp]: "stalled sid w p (fold nt_emit cmds r) = stalled sid w p r"
  by (induction cmds arbitrary: r) (simp_all add: nt_emit_def)

lemma stalled_onRecv: "nt_onRecvMessage pr j r = Some r' \<Longrightarrow> stalled sid w p r \<Longrightarrow> stalled sid w p r'"
  by (auto simp: nt_onRecvMessage_def Let_def stalled_nt_close split: option.splits bind_splits if_splits)

lemma read_loop_wire: "read_loop j mx d b k = Some (d', e, b', k') \<Longrightarrow> k_wire k' = k_wire k"
proof (induction j mx d b k rule: read_loop.induct)
  case (1 sid mx d b k)
  obtain n k1 where n: "sock_readableBytes k = (n, k1)" by (cases "sock_readableBytes k")
  note k1 = sock_readable_same [OF n]
  note step = "1.prems" [unfolded read_loop.simps [of sid mx d b k] n Let_def prod.case]
  show ?case
  proof (cases "(d \<and> n = 0) \<or> (0 < mx \<and> mx < sz_add (nat (max 1 n)) (readableBytes b))")
    case True
    then show ?thesis using step k1 by (auto split: if_splits)
  next
    case False
    then obtain b1 where b1: "reserveWritableBytes (nat (max 1 n)) b = Some b1"
      using step by (auto split: option.splits if_splits)
    obtain x k2 where x: "sock_recv sid (nat (max 1 n)) k1 = (x, k2)" by (cases "sock_recv sid (nat (max 1 n)) k1")
    have k2: "k_wire k2 = k_wire k"
      using k1 sock_recv_got(5) [of sid "nat (max 1 n)" k1 _ k2] sock_recv_error(2) [of sid "nat (max 1 n)" k1 _ k2] x
      by (cases x) auto
    show ?thesis
    proof (cases "\<exists>bs. x = Got bs \<and> bs \<noteq> []")
      case more: True
      then obtain bs where bs: "x = Got bs" "bs \<noteq> []" by blast
      obtain block where bl: "mem_write (db_buffer b1) (writeBegin b1) bs = Some block"
        and rest: "read_loop sid mx True (db_write (length bs) (b1\<lparr>db_buffer := block\<rparr>)) k2 = Some (d', e, b', k')"
        using step False b1 x bs by (auto split: option.splits if_splits)
      have "\<not> (d \<and> n = 0)" "\<not> (0 < mx \<and> mx < sz_add (nat (max 1 n)) (readableBytes b))" using False by auto
      from "1.IH" [OF refl n [symmetric] this(1) refl this(2) b1 x [symmetric] bs bl rest] k2 show ?thesis by simp
    next
      case False
      then show ?thesis using step \<open>\<not> (_ \<or> _)\<close> b1 x k2 by (cases x) (auto split: if_splits)
    qed
  qed
qed

lemma stalled_onSocketRead:
  assumes "onSocketRead (nt_callbacks pr) j r = Some (v, r')" and "stalled sid w p r"
  shows "stalled sid w p r'"
proof (cases "rx_connections r j")
  case None
  then show ?thesis using assms by (simp add: onSocketRead_def)
next
  case (Some c)
  obtain d e b k where l: "read_loop j (rx_read_max r) False (tc_read_buffer c) (rx_kernel r) = Some (d, e, b, k)"
    "finish_read (nt_callbacks pr) j d e ((upd_conn j (\<lambda>c. c\<lparr>tc_read_buffer := b\<rparr>) r)\<lparr>rx_kernel := k\<rparr>) = Some (v, r')"
    using assms(1) Some by (auto simp: onSocketRead_def split: bind_splits prod.splits)
  have "stalled sid w p ((upd_conn j (\<lambda>c. c\<lparr>tc_read_buffer := b\<rparr>) r)\<lparr>rx_kernel := k\<rparr>)"
    using assms(2) read_loop_wire [OF l(1)] by (simp add: stalled_kernel)
  then show ?thesis
    using l(2)
    by (auto simp: finish_read_def nt_callbacks_def onPeerClose_def onError_def stalled_nt_close
        split: read_end.splits if_splits bind_splits intro!: stalled_nt_close dest: stalled_onRecv)
qed

lemma sock_send_wire: "sock_send j bs k = (a, k') \<Longrightarrow> i \<noteq> j \<Longrightarrow> k_wire k' i = k_wire k i"
  by (auto simp: sock_send_def split: list.splits send_answer.splits)

lemma store_some_content:
  assumes "buffer_ok b" and "mem_write (db_buffer b) (writeBegin b) bs = Some block" and "length bs \<le> n"
  shows "\<exists>q. content (db_write n (b\<lparr>db_buffer := block\<rparr>)) = content b @ q"
proof -
  have bl: "db_write_index b + length bs \<le> length (db_buffer b)"
    "block = take (db_write_index b) (db_buffer b) @ bs @ drop (db_write_index b + length bs) (db_buffer b)"
    using assms(2) by (auto simp: mem_write_def writeBegin_def split: if_splits)
  have idx: "db_read_index b \<le> db_write_index b" "db_write_index b \<le> length (db_buffer b)" "length (db_buffer b) < vec_max"
    using assms(1) by (simp_all add: buffer_ok_def)
  have len: "length block = length (db_buffer b)" using bl idx by simp
  let ?m = "min n (writableBytes (b\<lparr>db_buffer := block\<rparr>))"
  have ok: "buffer_ok (b\<lparr>db_buffer := block\<rparr>)" using assms(1) len by (simp add: buffer_ok_def)
  have "sz_add (db_write_index b) ?m = db_write_index b + ?m"
    using ok idx len by (intro sz_add_small) (auto simp: buf_simps dest: vec_max_le_sz_max)
  moreover have "db_write_index b + ?m - db_read_index b + db_read_index b = db_write_index b + ?m" using idx(1) by simp
  ultimately have "content (db_write n (b\<lparr>db_buffer := block\<rparr>)) = drop (db_read_index b) (take (db_write_index b + ?m) block)"
    by (simp add: content_def db_write_def take_drop)
  also have "\<dots> = drop (db_read_index b) (take (db_write_index b) block) @ take ?m (drop (db_write_index b) block)"
    using idx len by (simp add: take_add)
  also have "take (db_write_index b) block = take (db_write_index b) (db_buffer b)" using bl(2) idx(2) by simp
  also have "drop (db_read_index b) (take (db_write_index b) (db_buffer b)) = content b"
    by (simp add: content_room [OF assms(1)])
  finally show ?thesis by blast
qed

lemma reserve_some_content:
  assumes "buffer_ok b" and "reserveWritableBytes n b = Some b1"
  shows "content b1 = content b"
proof (cases "n \<le> writableBytes b")
  case True
  then show ?thesis using assms(2) by (simp add: reserveWritableBytes_def)
next
  case False
  then obtain s where s: "b1 = b\<lparr>db_buffer := content b @ drop (length (content b)) (replicate s 0),
      db_read_index := 0, db_write_index := readableBytes b\<rparr>"
    using assms read_content [OF assms(1)] length_content [OF assms(1)]
    by (auto simp: reserveWritableBytes_def vec_alloc_def mem_write_def split: bind_splits if_splits)
  show ?thesis unfolding content_def [of b1] using length_content [OF assms(1)] by (simp add: s)
qed

lemma stalled_queue_rest:
  assumes "stalled sid w p r" and "rx_connections r j = Some c"
    and "queue_rest cbs j (tc_write_buffer c) buffer n NoCallback r = Some (v, r')"
  shows "stalled sid w p r'"
proof -
  note q = assms(3) [unfolded queue_rest_def]
  consider "r' = r" | "r' = addSocketTimer j 0 OnSendMessageError (upd_conn j (setError ENOBUFS) r)"
    | wb block where "reserveWritableBytes n (tc_write_buffer c) = Some wb"
      "mem_write (db_buffer wb) (writeBegin wb) (take n buffer) = Some block"
      "r' = setWriteCallback j True (upd_conn j
         (\<lambda>c. c\<lparr>tc_write_buffer := db_write n (wb\<lparr>db_buffer := block\<rparr>), tc_send_complete_cb := NoCallback\<rparr>) r)"
    using q by (auto simp: run_send_complete_def Let_def split: if_splits bind_splits)
  then show ?thesis
  proof cases
    case (3 wb block)
    show ?thesis
    proof (cases "j = sid")
      case False
      then show ?thesis using assms(1) by (simp add: 3(3)) (simp add: stalled_def upd_conn_def)
    next
      case True
      then have ok: "buffer_ok (tc_write_buffer c)" "\<exists>q. content (tc_write_buffer c) = p @ q"
        using assms(1,2) by (auto simp: stalled_def)
      have "\<exists>q. content (db_write n (wb\<lparr>db_buffer := block\<rparr>)) = content wb @ q"
        by (rule store_some_content [OF reserve_some_ok [OF ok(1) 3(1)] 3(2)]) simp
      then have "\<exists>q. content (db_write n (wb\<lparr>db_buffer := block\<rparr>)) = p @ q"
        using reserve_some_content [OF ok(1) 3(1)] ok(2) by auto
      moreover have "buffer_ok (db_write n (wb\<lparr>db_buffer := block\<rparr>))" by (rule reserve_store_ok [OF ok(1) 3(1,2)])
      ultimately show ?thesis using assms(1,2) True by (simp add: 3(3)) (simp add: stalled_def)
    qed
  qed (use assms(1) in simp_all)
qed

lemma stalled_send:
  assumes "stalled sid w p r" and "reactor_sendMessage cbs j buffer NoCallback r = Some (v, r')"
  shows "stalled sid w p r'"
proof (cases "rx_connections r j")
  case None
  then show ?thesis using assms by (simp add: reactor_sendMessage_def)
next
  case (Some c)
  then have send: "send_on_connection cbs j c buffer NoCallback r = Some (v, r')" using assms(2) by (simp add: reactor_sendMessage_def)
  show ?thesis
  proof (cases "tc_status c = CONNECTED \<and> readableBytes (tc_write_buffer c) = 0")
    case False
    then show ?thesis
      using send assms(1) stalled_queue_rest [OF assms(1) Some] by (auto simp: send_on_connection_def split: if_splits)
  next
    case True
    have "j \<noteq> sid"
    proof
      assume "j = sid"
      then have "buffer_ok (tc_write_buffer c)" "content (tc_write_buffer c) \<noteq> []"
        using assms(1) Some by (auto simp: stalled_def)
      then show False using True length_content by fastforce
    qed
    obtain a k where k: "sock_send j buffer (rx_kernel r) = (a, k)" by (cases "sock_send j buffer (rx_kernel r)")
    have st: "stalled sid w p (r\<lparr>rx_kernel := k\<rparr>)"
      using assms(1) sock_send_wire [OF k] \<open>j \<noteq> sid\<close> by (simp add: stalled_kernel)
    have c: "rx_connections (r\<lparr>rx_kernel := k\<rparr>) j = Some c" using Some by simp
    show ?thesis
      using send True k st stalled_queue_rest [OF st c]
      by (auto simp: send_on_connection_def Let_def split: send_answer.splits if_splits)
  qed
qed

lemma stalled_broadcast:
  "reactor_broadcast cbs sids buffer r = Some r' \<Longrightarrow> stalled sid w p r \<Longrightarrow> stalled sid w p r'"
  by (induction sids arbitrary: r) (auto split: bind_splits dest: stalled_send)

lemma stalled_command:
  assumes "nt_command pr cmd r = Some r'" and "stalled sid w p r"
  shows "stalled sid w p r'"
proof -
  have enc: "stalled sid w p r1" if "encode_command pr cmd r = Some (ok, r1)" for ok r1
    using that assms(2) by (auto simp: encode_command_def split: bind_splits)
  show ?thesis
    using assms
    by (auto simp: nt_command_def Let_def stalled_close stalled_nt_close split: bind_splits if_splits command_type.splits
        dest!: enc dest: stalled_broadcast stalled_send intro: stalled_nt_close)
qed

lemma stalled_commands: "nt_commands pr cs r = Some r' \<Longrightarrow> stalled sid w p r \<Longrightarrow> stalled sid w p r'"
  by (induction cs arbitrary: r)
    (auto simp: Let_def set_queue_def reactor_quit_def split: option.splits bind_splits dest: stalled_command)

lemma stalled_read: "nt_read pr d r = Some r' \<Longrightarrow> stalled sid w p r \<Longrightarrow> stalled sid w p r'"
  by (auto simp: nt_read_def pipeReadCallback_def onNetCommand_def set_queue_def split: if_splits bind_splits
      dest: stalled_commands stalled_onSocketRead)

lemma stalled_error: "stalled sid w p r \<Longrightarrow> stalled sid w p (onSocketError (nt_callbacks pr) j e1 e2 r)"
  by (simp add: onSocketError_def nt_callbacks_def onError_def Let_def stalled_nt_close split: option.splits)

lemma stalled_send_error: "stalled sid w p r \<Longrightarrow> stalled sid w p (onSendMessageError (nt_callbacks pr) i r)"
  by (simp add: onSendMessageError_def nt_callbacks_def onError_def Let_def stalled_nt_close split: option.splits)

text \<open>The contract of the event loop once more, for the stalled socket.\<close>

interpretation nt_stall: event_source "nt_dispatch pr errs :: ('u, 'm, 'z) net_thread_scheme dispatch"
    "\<lambda>r. thread_inv batch r \<and> stalled sid w p r" batch
  for pr :: "'m protocol" and errs batch sid w p
proof unfold_locales
  fix s s1 :: "('u, 'm, 'z) net_thread_scheme" and q fl d
  assume inv: "thread_inv batch s \<and> stalled sid w p s"
  show "(q, fl) \<in> batch \<Longrightarrow> EPOLLOUT \<in> fl \<Longrightarrow> ds_device (nt_dispatch pr errs) s q = Some d \<Longrightarrow>
      ds_write (nt_dispatch pr errs) d s = Some s1 \<Longrightarrow> thread_inv batch s1 \<and> stalled sid w p s1"
    using inv unfolding thread_inv_def batch_ok_def by blast
  show "ds_device (nt_dispatch pr errs) s q = Some d \<Longrightarrow> ds_read (nt_dispatch pr errs) d s = Some s1 \<Longrightarrow>
      thread_inv batch s1 \<and> stalled sid w p s1"
    using inv thread_inv_read [of batch s pr d s1] stalled_read [of pr d s s1 sid w p] by simp
  show "ds_device (nt_dispatch pr errs) s q = Some d \<Longrightarrow> dev_error_cb d \<Longrightarrow> ds_error (nt_dispatch pr errs) d s = Some s1 \<Longrightarrow>
      thread_inv batch s1 \<and> stalled sid w p s1"
    using inv nt.onSocketError_inv [of batch s pr] stalled_error [of sid w p s pr] by auto
  show "(q, fl) \<in> batch \<Longrightarrow> checkIODeviceExist q (ds_epoller (nt_dispatch pr errs) s) \<Longrightarrow>
      \<exists>d. ds_device (nt_dispatch pr errs) s q = Some d \<and> answers d fl"
    using inv nt_device_live [of batch s q fl] by simp
qed

lemma stalled_doEvent:
  assumes "thread_inv {} r" and "stalled sid w p r" and "reportable r evs"
    and "doEvent (nt_dispatch pr errs) (Events evs) r = Inr (ret, r')"
  shows "stalled sid w p r'"
proof -
  have "thread_inv (set evs) r \<and> stalled sid w p r" using reportable_batch [OF assms(1,3)] assms(2) by simp
  from nt_stall.dispatch_events_ok [OF order_refl this, of pr errs] assms(4) show ?thesis
    by (cases "dispatch_events (nt_dispatch pr errs) evs r") (auto simp: doEvent_def Let_def)
qed

text \<open>A run in which the id of the socket is not given out again.\<close>

inductive quiet_run :: "'m protocol \<Rightarrow> (int \<Rightarrow> int \<times> int) \<Rightarrow> int \<Rightarrow> ('u, 'm) net_thread \<Rightarrow> ('u, 'm) net_thread \<Rightarrow> bool"
  for pr errs sid r where
  here: "quiet_run pr errs sid r r"
| further: "quiet_run pr errs sid r r1 \<Longrightarrow> nt_step pr errs r1 r2 \<Longrightarrow>
     (rx_connections r1 sid = None \<longrightarrow> rx_connections r2 sid = None) \<Longrightarrow> quiet_run pr errs sid r r2"

lemma stalled_attach:
  assumes "fresh peer r" and "nt_attach peer r = Some r'" and "rx_connections r sid = None \<longrightarrow> rx_connections r' sid = None"
    and "stalled sid w p r"
  shows "stalled sid w p r'"
proof -
  obtain ok r1 where a: "er_attachSocket peer r = Some (ok, r1)" "r' = sendNetCommandNew (dev_id peer) r1"
    using assms(2) by (auto simp: nt_attach_def split: bind_splits)
  have peer: "\<not> dev_attached peer" "\<not> dev_write_cb peer" using assms(1) by (simp_all add: fresh_def)
  have "stalled sid w p r1"
    using peer a(1)
  proof (cases rule: er_attachSocket_cases)
    case refused
    then show ?thesis using assms(4) by simp
  next
    case (attached connection)
    have "rx_connections r1 sid = rx_connections r sid"
      using assms(3) attached(7) by (auto simp: a(2) sendNetCommandNew_def nt_emit_def split: if_splits)
    then show ?thesis using assms(4) attached(11) by (simp add: stalled_def)
  qed
  then show ?thesis by (simp add: a(2) sendNetCommandNew_def nt_emit_def)
qed

lemma stalled_step:
  assumes "nt_step pr errs r r'" and "thread_inv {} r" and "stalled sid w p r"
    and "rx_connections r sid = None \<longrightarrow> rx_connections r' sid = None"
  shows "stalled sid w p r'"
  using assms(1)
proof (cases rule: nt_step.cases)
  case (polled evs ret)
  then show ?thesis using stalled_doEvent [OF assms(2,3)] by blast
next
  case (timer i)
  then show ?thesis using stalled_send_error [OF assms(3)] by simp
next
  case (command cmd)
  then show ?thesis using assms(3) by (auto simp: nt_push_def set_queue_def)
next
  case (attach peer)
  then show ?thesis using stalled_attach [OF attach(1,2) assms(4,3)] by simp
next
  case (kernel k)
  then show ?thesis using assms(3) by (simp add: stalled_kernel)
next
  case (time now h)
  then show ?thesis using assms(3) by (simp add: stalled_def)
qed

lemma stalled_run:
  "quiet_run pr errs sid r r' \<Longrightarrow> thread_inv {} r \<Longrightarrow> stalled sid w p r \<Longrightarrow> thread_inv {} r' \<and> stalled sid w p r'"
  by (induction rule: quiet_run.induct) (auto intro: nt_step_inv stalled_step)

text \<open>
  C21: pending bytes are never sent. Once bytes wait in the write buffer of a connection of a well formed thread, then
  however the run goes on - whatever the kernel reports, however ready the socket becomes, whatever commands come - no
  further byte is put on that connection's wire, and the bytes wait in the buffer until the connection is closed.
\<close>
theorem pending_never_flushed:
  assumes "thread_inv {} r" and "pending r sid \<noteq> []" and "quiet_run pr errs sid r r'"
  shows "k_wire (rx_kernel r') sid = k_wire (rx_kernel r) sid
    \<and> (rx_connections r' sid = None \<or> (\<exists>q. pending r' sid = pending r sid @ q))"
proof -
  have "stalled sid (k_wire (rx_kernel r) sid) (pending r sid) r"
    using assms(1,2) by (auto simp: stalled_def pending_def thread_inv_def reactor_inv_def conn_ok_def split: option.splits)
  from stalled_run [OF assms(3,1) this] show ?thesis
    by (auto simp: stalled_def pending_def split: option.splits)
qed

text \<open>A thread with one socket, id 7, and bytes that wait to be written, for the examples.\<close>

definition busy_thread :: "kernel \<Rightarrow> bytes \<Rightarrow> (unit, byte) net_thread" where
  "busy_thread k waiting =
     object_at 1000 (Some (SocketRef 7))
       (set_epoller ((the_epoller (example_thread k))\<lparr>ek_interest := [5 \<mapsto> (9, {EPOLLIN, EPOLLPRI}), 4 \<mapsto> (1000, {EPOLLIN, EPOLLPRI})]\<rparr>)
         ((example_thread k)
           \<lparr>rx_sockets := [7 \<mapsto> \<lparr>dev_ptr = 1000, dev_id = 7, dev_fd = 4, dev_read_cb = True, dev_write_cb = waiting \<noteq> [],
                                  dev_error_cb = True, dev_attached = True\<rparr>],
            rx_connections := [7 \<mapsto> example_connection waiting]\<rparr>))"

lemma busy_thread_ok:
  assumes "length waiting < 100"
  shows "thread_inv {} (busy_thread k waiting)" "pending (busy_thread k waiting) 7 = waiting"
    "rx_connections (busy_thread k waiting) 7 = Some (example_connection waiting)" "rx_kernel (busy_thread k waiting) = k"
    "nt_emitted (ts (busy_thread k waiting)) = []" "nt_id (ts (busy_thread k waiting)) = 1"
    "rx_read_max (busy_thread k waiting) = 81920"
proof -
  have conn: "conn_ok (example_connection waiting)" using example_ok(4,5) [OF assms] by (simp add: conn_ok_def)
  have ex: "rx_read_expand (example_base k) = 1024" "rx_write_expand (example_base k) = 1024" "rx_read_max (example_base k) = 81920"
    by (simp_all add: example_base_def setRecvBufferInitSize_def setRecvBufferExpandSize_def setRecvBufferMaxSize_def
      setSendBufferInitSize_def setSendBufferExpandSize_def setSendBufferMaxSize_def)
  have same: "ts (r\<lparr>rx_sockets := a, rx_connections := b\<rparr>) = ts r" for r :: "(unit, byte) net_thread" and a b
    by (simp add: ts_def)
  show "thread_inv {} (busy_thread k waiting)"
    by (simp add: busy_thread_def example_thread_def thread_inv_defs reactor_inv_def set_queue_def example_queue_def
        IODevice_def conn ex ts_def the_epoller_def example_base_simps(1) [unfolded the_epoller_def] set_epoller_def upd_rest_def object_at_def)
  show "pending (busy_thread k waiting) 7 = waiting"
    using example_ok(6) [OF assms] by (simp add: pending_def busy_thread_def)
  show "rx_connections (busy_thread k waiting) 7 = Some (example_connection waiting)" by (simp add: busy_thread_def)
  show "rx_kernel (busy_thread k waiting) = k"
    by (simp add: busy_thread_def example_thread_def set_queue_def)
  show "nt_emitted (ts (busy_thread k waiting)) = []" "nt_id (ts (busy_thread k waiting)) = 1"
    by (simp_all add: busy_thread_def example_thread_def set_queue_def example_state_def same)
  show "rx_read_max (busy_thread k waiting) = 81920"
    by (simp add: busy_thread_def example_thread_def set_queue_def ex object_at_def set_epoller_def upd_rest_def)
qed

theorem pending_never_flushed_witness:
  "\<exists>r r'. pending r 7 = [5, 6, 8] \<and> quiet_run example_protocol (\<lambda>_. (0, 0)) 7 r (r' :: (unit, byte) net_thread)
     \<and> k_sends (rx_kernel r') = [Sent 100] \<and> k_wire (rx_kernel r') 7 = []"
proof -
  let ?k = "example_kernel [] [] []" and ?k1 = "example_kernel [Sent 100] [] []"
  let ?r = "busy_thread ?k [5, 6, 8]"
  let ?r1 = "?r\<lparr>rx_kernel := ?k1\<rparr>"
  let ?r2 = "set_epoller ((the_epoller ?r1)\<lparr>ep_removed := {}, ep_events_size := 32\<rparr>) ?r1"
  note ok = busy_thread_ok [of "[5, 6, 8]" ?k, simplified]
  have s1: "nt_step example_protocol (\<lambda>_. (0, 0)) ?r ?r1"
    by (rule nt_step.kernel) (unfold ok(4), simp add: example_kernel_def)
  have rep: "reportable ?r1 []" by (simp add: reportable_def permitted_def)
  have ev: "ep_events_size (the_epoller ?r1) = 32"
    by (simp add: busy_thread_def example_thread_def set_queue_def)
  have "doEvent (nt_dispatch example_protocol (\<lambda>_. (0, 0))) (Events []) ?r1 = Inr (0, ?r2)"
    using ev by (simp add: doEvent_def)
  then have s2: "nt_step example_protocol (\<lambda>_. (0, 0)) ?r1 ?r2" by (rule nt_step.polled [OF rep])
  have "quiet_run example_protocol (\<lambda>_. (0, 0)) 7 ?r ?r1"
    by (rule quiet_run.further [OF quiet_run.here s1]) simp
  then have run: "quiet_run example_protocol (\<lambda>_. (0, 0)) 7 ?r ?r2"
    by (rule quiet_run.further [OF _ s2]) simp
  have "k_wire (rx_kernel ?r2) 7 = k_wire (rx_kernel ?r) 7"
    using pending_never_flushed [OF ok(1) _ run] ok(2) by simp
  also have "\<dots> = []" unfolding ok(4) by (simp add: example_kernel_def)
  finally have "k_wire (rx_kernel ?r2) 7 = []" .
  moreover have "k_sends (rx_kernel ?r2) = [Sent 100]" by (simp add: example_kernel_def)
  ultimately show ?thesis using run ok(2) by blast
qed

subsection \<open>Incoming: what is read becomes commands\<close>

lemma emits_state:
  "nt_emitted (ts (fold nt_emit cmds r)) = nt_emitted (ts r) @ cmds" "nt_id (ts (fold nt_emit cmds r)) = nt_id (ts r)"
  "rx_connections (fold nt_emit cmds r) = rx_connections r" "rx_kernel (fold nt_emit cmds r) = rx_kernel r"
  by (induction cmds arbitrary: r) (simp_all add: nt_emit_def)

lemma nt_close_effect:
  assumes "thread_inv batch r" and "rx_connections r sid \<noteq> None"
  shows "nt_emitted (ts (nt_closeSocket sid r)) = nt_emitted (ts r) @ [own_command CLOSE sid r]"
    "rx_connections (nt_closeSocket sid r) sid = None" "rx_kernel (nt_closeSocket sid r) = rx_kernel r"
proof -
  let ?r = "sendNetCommandClose sid r"
  have inv: "thread_inv batch ?r" using assms(1) by (simp add: sendNetCommandClose_def thread_inv_emit)
  have "rx_sockets r sid \<noteq> None" using assms by (metis thread_inv_def reactor_inv_def domIff)
  then obtain s where "rx_sockets ?r sid = Some s" by (auto simp: sendNetCommandClose_def nt_emit_def)
  note eq = er_closeSocket_eq [OF inv this]
  show "nt_emitted (ts (nt_closeSocket sid r)) = nt_emitted (ts r) @ [own_command CLOSE sid r]"
    "rx_connections (nt_closeSocket sid r) sid = None" "rx_kernel (nt_closeSocket sid r) = rx_kernel r"
    unfolding nt_closeSocket_def eq by (simp_all add: sendNetCommandClose_def nt_emit_def)
qed

lemma nt_recv_effect:
  assumes inv: "thread_inv batch r" and c: "rx_connections r sid = Some c"
    and p: "parse_stream (pr_max pr) (pr_create pr) (pr_decode pr) (content (tc_read_buffer c)) = (msgs, closed, rest)"
  shows "\<exists>r1. nt_onRecvMessage pr sid r = Some r1 \<and> rx_kernel r1 = rx_kernel r
    \<and> nt_emitted (ts r1) = nt_emitted (ts r) @ map (command_of (nt_id (ts r)) sid) msgs
        @ (if closed then [own_command CLOSE sid r] else [])
    \<and> (if closed then rx_connections r1 sid = None
       else nt_id (ts r1) = nt_id (ts r) \<and> (\<exists>c1. rx_connections r1 sid = Some c1 \<and> content (tc_read_buffer c1) = rest))"
proof -
  have ok: "buffer_ok (tc_read_buffer c)" using inv c by (auto simp: thread_inv_def reactor_inv_def conn_ok_def)
  obtain b where b: "onRecvMessage (pr_max pr) (pr_create pr) (pr_decode pr) (nt_id (ts r)) sid (tc_read_buffer c)
      = Some (map (command_of (nt_id (ts r)) sid) msgs, closed, b)" "buffer_ok b" "content b = rest"
    using onRecvMessage_refines [OF ok p] by blast
  let ?r1 = "fold nt_emit (map (command_of (nt_id (ts r)) sid) msgs) (upd_conn sid (\<lambda>c. c\<lparr>tc_read_buffer := b\<rparr>) r)"
  have recv: "nt_onRecvMessage pr sid r = Some (if closed then nt_closeSocket sid ?r1 else ?r1)"
    using c b(1) by (simp add: nt_onRecvMessage_def Let_def)
  have inv1: "thread_inv batch ?r1"
    by (rule thread_inv_emits, rule thread_inv_upd_conn [OF inv]) (use b(2) in \<open>simp add: conn_ok_def\<close>)
  have c1: "rx_connections ?r1 sid = Some (c\<lparr>tc_read_buffer := b\<rparr>)" using c by (simp add: emits_state)
  then have "rx_connections ?r1 sid \<noteq> None" by simp
  note cl = nt_close_effect [OF inv1 this]
  show ?thesis
  proof (cases closed)
    case True
    then show ?thesis using recv cl by (simp add: emits_state own_command_def)
  next
    case False
    then show ?thesis using recv c1 b(3) by (simp add: emits_state)
  qed
qed

text \<open>What a thread did with a socket: closed it after the messages \<open>msgs\<close>, or kept it with \<open>rest\<close> in its read buffer.\<close>

definition outcome :: "('u, 'm) net_thread \<Rightarrow> int \<Rightarrow> (int \<times> 'm) list \<Rightarrow> bool \<Rightarrow> bytes \<Rightarrow> ('u, 'm) net_thread \<Rightarrow> bool" where
  "outcome r sid msgs closed rest r' \<longleftrightarrow>
     nt_emitted (ts r') = nt_emitted (ts r) @ map (command_of (nt_id (ts r)) sid) msgs
       @ (if closed then [own_command CLOSE sid r] else [])
     \<and> (if closed then rx_connections r' sid = None
        else nt_id (ts r') = nt_id (ts r) \<and> (\<exists>c. rx_connections r' sid = Some c \<and> content (tc_read_buffer c) = rest))"

lemma recv_stage:
  assumes inv: "thread_inv {} r" and c: "rx_connections r sid = Some c"
    and p: "(msgs, closed, rest) = (if d then parse_stream (pr_max pr) (pr_create pr) (pr_decode pr) (content (tc_read_buffer c))
      else ([], False, content (tc_read_buffer c)))"
  shows "\<exists>r'. (if d then nt_onRecvMessage pr sid r else Some r) = Some r' \<and> thread_inv {} r' \<and> rx_kernel r' = rx_kernel r
    \<and> outcome r sid msgs closed rest r' \<and> (closed \<longrightarrow> d)"
proof (cases d)
  case True
  with p have parse: "parse_stream (pr_max pr) (pr_create pr) (pr_decode pr) (content (tc_read_buffer c)) = (msgs, closed, rest)"
    by simp
  obtain r' where "nt_onRecvMessage pr sid r = Some r'" "rx_kernel r' = rx_kernel r" "outcome r sid msgs closed rest r'"
    using nt_recv_effect [OF inv c parse] unfolding outcome_def by blast
  then show ?thesis using True thread_inv_onRecvMessage [OF inv] by auto
next
  case False
  then show ?thesis using p c inv by (simp add: outcome_def)
qed

lemma close_after:
  assumes "thread_inv {} r1" and "outcome r sid msgs False rest r1"
    and same: "\<And>c. conn_ok (f c) = conn_ok c"
  shows "outcome r sid msgs True rest (nt_closeSocket sid (upd_conn sid f r1))"
    "rx_kernel (nt_closeSocket sid (upd_conn sid f r1)) = rx_kernel r1"
proof -
  let ?r = "upd_conn sid f r1"
  have inv: "thread_inv {} ?r" by (rule thread_inv_upd_conn [OF assms(1)]) (simp add: same)
  have "rx_connections ?r sid \<noteq> None" using assms(2) by (auto simp: outcome_def)
  note eff = nt_close_effect [OF inv this]
  show "outcome r sid msgs True rest (nt_closeSocket sid ?r)" "rx_kernel (nt_closeSocket sid ?r) = rx_kernel r1"
    using assms(2) eff by (simp_all add: outcome_def own_command_def)
qed

lemma finish_stage:
  assumes inv: "thread_inv {} r" and c: "rx_connections r sid = Some c"
    and p: "(msgs, closed, rest) = (if d then parse_stream (pr_max pr) (pr_create pr) (pr_decode pr) (content (tc_read_buffer c))
      else ([], False, content (tc_read_buffer c)))"
  shows "\<exists>r'. finish_read (nt_callbacks pr) sid d e r = Some (if e = Drained then 0 else -1, r') \<and> rx_kernel r' = rx_kernel r
    \<and> (if \<exists>errn. e = ReadError errn then outcome r sid [] True rest r'
       else outcome r sid msgs (closed \<or> e = PeerClosed) rest r')"
proof (cases "\<exists>errn. e = ReadError errn")
  case True
  then obtain errn where e: "e = ReadError errn" by blast
  have "outcome r sid [] False (content (tc_read_buffer c)) r" using c by (simp add: outcome_def)
  note cl = close_after [OF inv this, of "setError errn", simplified]
  have "finish_read (nt_callbacks pr) sid d e r = Some (-1, nt_closeSocket sid (upd_conn sid (setError errn) r))"
    by (simp add: e finish_read_def nt_callbacks_def onError_def)
  then show ?thesis using cl e by (simp add: outcome_def)
next
  case False
  obtain r1 where r1: "(if d then nt_onRecvMessage pr sid r else Some r) = Some r1" "thread_inv {} r1"
    "rx_kernel r1 = rx_kernel r" "outcome r sid msgs closed rest r1" "closed \<longrightarrow> d"
    using recv_stage [OF inv c p] by blast
  have run: "finish_read (nt_callbacks pr) sid d e r =
      (if e = PeerClosed then
         if d \<and> rx_connections r1 sid = None then Some (-1, r1)
         else Some (-1, nt_closeSocket sid (upd_conn sid (\<lambda>c. c\<lparr>tc_status := PEER_CLOSED\<rparr>) r1))
       else Some (0, r1))"
    using False r1(1) by (cases e; cases d) (simp_all add: finish_read_def nt_callbacks_def onPeerClose_def)
  show ?thesis
  proof (cases "closed \<or> e \<noteq> PeerClosed")
    case True
    have gone: "d \<and> rx_connections r1 sid = None" if "closed" using that r1(4,5) by (simp add: outcome_def)
    have "e = Drained \<or> e = PeerClosed" using False by (cases e) auto
    then have "finish_read (nt_callbacks pr) sid d e r = Some (if e = Drained then 0 else -1, r1)"
      using run gone True by auto
    moreover have "(closed \<or> e = PeerClosed) = closed" using True by blast
    ultimately show ?thesis using r1(3,4) False by simp
  next
    case peer: False
    then have "outcome r sid msgs False rest r1" using r1(4) by simp
    note cl = close_after [OF r1(2) this, of "\<lambda>c. c\<lparr>tc_status := PEER_CLOSED\<rparr>", simplified]
    have "rx_connections r1 sid \<noteq> None" using r1(4) peer by (auto simp: outcome_def)
    then show ?thesis using run peer cl r1(3) by auto
  qed
qed

text \<open>
  C3: received bytes become commands. For a connection of a well formed thread with a limit on its read buffer, the read handler
  returns. It takes from the kernel what the kernel gives a reader with that limit and that much in its buffer, all of it
  (\<open>kernel_gives\<close>: the bytes \<open>got\<close>, the reason \<open>e\<close> why there are no more, and the kernel \<open>k\<close> after it). It emits exactly the messages
  whose frames are in the old buffer content followed by \<open>got\<close>, in order, tagged with the thread and the socket, and keeps
  the rest for the next time. It closes the connection, with one final \<open>CLOSE\<close>, when the frames are at fault, the peer closed
  or the limit is reached, or the socket failed; only in the last case are the bytes taken before the failing call not
  looked at.
\<close>
theorem received_bytes_become_commands:
  assumes inv: "thread_inv {} r" and c: "rx_connections r sid = Some c"
    and room: "read_room (rx_read_max r) (tc_read_buffer c) (rx_kernel r)" and int: "int_answers (rx_kernel r)"
    and below: "length (content (tc_read_buffer c)) \<le> rx_read_max r"
    and gives: "kernel_gives sid (rx_read_max r) (length (content (tc_read_buffer c))) False (rx_kernel r) = (got, e, k)"
    and frames: "(msgs, closed, rest) = (if got \<noteq> []
         then parse_stream (pr_max pr) (pr_create pr) (pr_decode pr) (content (tc_read_buffer c) @ got)
         else ([], False, content (tc_read_buffer c)))"
  shows "\<exists>r'. onSocketRead (nt_callbacks pr) sid r = Some (if e = Drained then 0 else -1, r')
    \<and> rx_kernel r' = k \<and> k_incoming (rx_kernel r) sid = got @ k_incoming k sid
    \<and> (if \<exists>errn. e = ReadError errn then outcome r sid [] True rest r'
       else outcome r sid msgs (closed \<or> e = PeerClosed) rest r')"
proof -
  have ok: "buffer_ok (tc_read_buffer c)" "buffer_ok (tc_write_buffer c)"
    using inv c by (auto simp: thread_inv_def reactor_inv_def conn_ok_def)
  obtain d b where l: "read_loop sid (rx_read_max r) False (tc_read_buffer c) (rx_kernel r) = Some (d, e, b, k)"
    "buffer_ok b" "content b @ k_incoming k sid = content (tc_read_buffer c) @ k_incoming (rx_kernel r) sid"
    "d = (length (content (tc_read_buffer c)) < length (content b))" "content b = content (tc_read_buffer c) @ got"
    using read_loop_ok [OF ok(1) room int, of sid False] gives by fastforce
  define r1 where "r1 = (upd_conn sid (\<lambda>c. c\<lparr>tc_read_buffer := b\<rparr>) r)\<lparr>rx_kernel := k\<rparr>"
  have inv1: "thread_inv {} r1"
    unfolding r1_def thread_inv_frame using l(2) by (intro thread_inv_upd_conn [OF inv]) (simp add: conn_ok_def)
  have c1: "rx_connections r1 sid = Some (c\<lparr>tc_read_buffer := b\<rparr>)" using c by (simp add: r1_def)
  have "d = (got \<noteq> [])" using l(4,5) by simp
  then have p: "(msgs, closed, rest) = (if d
      then parse_stream (pr_max pr) (pr_create pr) (pr_decode pr) (content (tc_read_buffer (c\<lparr>tc_read_buffer := b\<rparr>)))
      else ([], False, content (tc_read_buffer (c\<lparr>tc_read_buffer := b\<rparr>))))"
    using frames l(5) by auto
  obtain r' where r': "finish_read (nt_callbacks pr) sid d e r1 = Some (if e = Drained then 0 else -1, r')" "rx_kernel r' = k"
    "if \<exists>errn. e = ReadError errn then outcome r1 sid [] True rest r'
     else outcome r1 sid msgs (closed \<or> e = PeerClosed) rest r'"
    using finish_stage [OF inv1 c1 p, of e] by (auto simp: r1_def)
  have "onSocketRead (nt_callbacks pr) sid r = Some (if e = Drained then 0 else -1, r')"
    using c l(1) r'(1) by (simp add: onSocketRead_def r1_def)
  moreover have "k_incoming (rx_kernel r) sid = got @ k_incoming k sid" using l(3,5) by simp
  moreover have "outcome r1 = outcome r" by (intro ext) (simp add: outcome_def r1_def own_command_def)
  ultimately show ?thesis using r'(2,3) by auto
qed

text \<open>Five bytes are there: the message 7 with the byte 42, and its command.\<close>

theorem received_bytes_become_commands_witness:
  "\<exists>r'. onSocketRead (nt_callbacks example_protocol) 7
       (busy_thread ((example_kernel [] [Available 9] [0, 7, 0, 1, 42])\<lparr>k_readable := [5]\<rparr>) []) = Some (0, r')
     \<and> nt_emitted (ts r') = [command_of 1 7 (7, 42)] \<and> k_incoming (rx_kernel r') 7 = [] \<and> rx_connections r' 7 \<noteq> None"
proof -
  let ?k = "(example_kernel [] [Available 9] [0, 7, 0, 1, 42])\<lparr>k_readable := [5]\<rparr>"
  have room: "read_room 81920 (tc_read_buffer (example_connection [])) ?k"
    by (simp add: read_room_def example_connection_def example_kernel_def vec_max_def)
  have int: "int_answers ?k" by (simp add: int_answers_def example_kernel_def)
  note ok = busy_thread_ok [of "[]" ?k, simplified]
  have empty: "content (tc_read_buffer (example_connection [])) = []" by (simp add: example_ok)
  have gives: "kernel_gives 7 81920 0 False ?k = ([0, 7, 0, 1, 42], Drained, ?k\<lparr>k_readable := [], k_recvs := [], k_incoming := (k_incoming ?k)(7 := [])\<rparr>)"
    by (subst kernel_gives.simps, subst kernel_gives.simps) (simp add: example_kernel_def sock_readableBytes_def sock_recv_def Let_def)
  have frames: "parse_stream (pr_max example_protocol) (pr_create example_protocol) (pr_decode example_protocol) [0, 7, 0, 1, 42]
      = ([(7, 42)], False, [])"
    by (subst parse_stream.simps, subst parse_stream.simps)
      (simp add: example_protocol_def frame_length_def frame_message_def be_word16_def byte_create_def byte_decode_def)
  show ?thesis
    using received_bytes_become_commands [OF ok(1,3), where pr = example_protocol and msgs = "[(7, 42)]" and closed = False
        and rest = "[]" and got = "[0, 7, 0, 1, 42]" and e = Drained] room int ok(4-7) empty gives frames
    by (auto simp: outcome_def)
qed

subsection \<open>Attaching\<close>

text \<open>
  A connection is announced even when it is refused. When the reactor does not take a new socket - its id is in
  use, or epoll has no room - \<open>attach\<close> changes nothing else and still emits \<open>NEW\<close> for it, so that the
  service counts a connection that does not exist and whose \<open>CLOSE\<close> never comes.
\<close>
theorem refused_socket_announced:
  assumes "er_attachSocket peer r = Some (False, r1)" and "\<not> dev_attached peer" and "\<not> dev_write_cb peer"
  shows "\<exists>r'. nt_attach peer r = Some r' \<and> rx_sockets r' = rx_sockets r \<and> rx_connections r' = rx_connections r
    \<and> nt_emitted (ts r') = nt_emitted (ts r) @ [own_command NEW (dev_id peer) r]"
proof -
  have "r1 = r" using assms(2,3,1) by (cases rule: er_attachSocket_cases) auto
  then show ?thesis using assms(1) by (simp add: nt_attach_def sendNetCommandNew_def nt_emit_def)
qed

theorem refused_socket_announced_witness:
  "\<exists>r'. nt_attach ((IODevice 2000)\<lparr>dev_id := 7, dev_fd := 8\<rparr>) (busy_thread (example_kernel [] [] []) []) = Some r'
     \<and> map cmd_type (nt_emitted (ts r')) = [NEW]"
proof -
  let ?r = "busy_thread (example_kernel [] [] []) []" and ?peer = "(IODevice 2000)\<lparr>dev_id := 7, dev_fd := 8\<rparr>"
  have "rx_sockets ?r 7 \<noteq> None" by (simp add: busy_thread_def)
  then have "er_attachSocket ?peer ?r = Some (False, ?r)" by (auto simp: er_attachSocket_def IODevice_def)
  then show ?thesis
    using refused_socket_announced [of ?peer ?r ?r] busy_thread_ok(5) [of "[]" "example_kernel [] [] []"]
    by (auto simp: own_command_def NetCommand_def IODevice_def)
qed

end
