(* ===== verification/Epoll_Service.thy ===== *)
theory Epoll_Service
  imports Epoll_Reactor
begin

text \<open>
  \<open>IOService\<close> (\<open>net/io_service.h\<close>, \<open>.cc\<close>), \<open>EpollService\<close> (\<open>net/epoll_service.h\<close>, \<open>.cc\<close>) and the loop that it
  shares with the epoll acceptor (\<open>net/epoll_acceptor.cc\<close>).

  A service is a quit flag, a timer heap and, for epoll, the multiplexer. Its loop is a function of where these are
  in the state the callbacks work on (\<open>service_access\<close>), since the callbacks of devices and timers change
  the object the service belongs to.
\<close>

subsection \<open>\<open>IOService\<close> and \<open>EpollService\<close>\<close>

record 't io_service =
  is_quit :: bool
  is_timers :: "'t timer_heap"

definition IOService :: "'t io_service" where
  "IOService = \<lparr>is_quit = False, is_timers = TimerHeap\<rparr>"

definition ios_quit :: "('t, 'z) io_service_scheme \<Rightarrow> ('t, 'z) io_service_scheme" where
  "ios_quit s = s\<lparr>is_quit := True\<rparr>"

definition ios_startTimer ::
  "timestamp \<Rightarrow> int \<Rightarrow> 't \<Rightarrow> int \<Rightarrow> ('t, 'z) io_service_scheme \<Rightarrow> timer_id \<times> ('t, 'z) io_service_scheme" where
  "ios_startTimer now timeout_ms cb call_times s =
     (let (i, h) = addTimer now timeout_ms cb call_times (is_timers s) in (i, s\<lparr>is_timers := h\<rparr>))"

definition ios_stopTimer :: "timer_id \<Rightarrow> ('t, 'z) io_service_scheme \<Rightarrow> ('t, 'z) io_service_scheme" where
  "ios_stopTimer i s = s\<lparr>is_timers := removeTimer i (is_timers s)\<rparr>"

record 't epoll_service = "'t io_service" +
  es_epoller :: epoller

text \<open>\<open>fd\<close> and \<open>cloexec\<close> are the answers of \<open>epoll_create\<close> and \<open>fcntl\<close>.\<close>

definition EpollService :: "nat \<Rightarrow> int \<Rightarrow> bool \<Rightarrow> 't epoll_service" where
  "EpollService limit fd cloexec = \<lparr>is_quit = False, is_timers = TimerHeap, es_epoller = snd (ep_create fd cloexec (Epoller limit))\<rparr>"

definition es_addIODevice :: "io_device \<Rightarrow> 't epoll_service \<Rightarrow> bool \<times> 't epoll_service" where
  "es_addIODevice d s = (let (ok, e) = ep_add d (es_epoller s) in (ok, s\<lparr>es_epoller := e\<rparr>))"

definition es_removeIODevice :: "io_device \<Rightarrow> 't epoll_service \<Rightarrow> bool \<times> 't epoll_service" where
  "es_removeIODevice d s = (let (ok, e) = ep_del d (es_epoller s) in (ok, s\<lparr>es_epoller := e\<rparr>))"

subsection \<open>The loop\<close>

record 's service_access =
  sa_quit :: "'s \<Rightarrow> bool"
  sa_set_quit :: "bool \<Rightarrow> 's \<Rightarrow> 's"
  sa_next_timeout :: "timestamp \<Rightarrow> 's \<Rightarrow> int"
  sa_checkTimeout :: "timestamp \<Rightarrow> 's \<Rightarrow> 's option"

text \<open>Unlike the reactor's, this loop puts no bound on the time it waits.\<close>

definition es_wait_timeout :: "int \<Rightarrow> int" where
  "es_wait_timeout next =
     (let timer_timeout = sint (word_of_int next :: 32 word) in if timer_timeout = -1 then 0 else timer_timeout)"

definition es_round :: "'s dispatch \<Rightarrow> 's service_access \<Rightarrow> round \<Rightarrow> 's \<Rightarrow> dispatch_error + 's" where
  "es_round ds sa rd s =
     bind_sum (doEvent ds (rd_answer rd (es_wait_timeout (sa_next_timeout sa (rd_before rd) s))) s) (\<lambda>(ret, s1).
       if ret = -1 then Inr (sa_set_quit sa True s1)
       else case sa_checkTimeout sa (rd_after rd) s1 of None \<Rightarrow> Inl CallbackFailed | Some s2 \<Rightarrow> Inr s2)"

primrec es_rounds :: "'s dispatch \<Rightarrow> 's service_access \<Rightarrow> round list \<Rightarrow> 's \<Rightarrow> dispatch_error + 's" where
  "es_rounds ds sa [] s = Inr s"
| "es_rounds ds sa (rd # rds) s =
     (if sa_quit sa s then Inr s else bind_sum (es_round ds sa rd s) (es_rounds ds sa rds))"

definition es_loop :: "'s dispatch \<Rightarrow> 's service_access \<Rightarrow> round list \<Rightarrow> 's \<Rightarrow> dispatch_error + 's" where
  "es_loop ds sa rds s = es_rounds ds sa rds (sa_set_quit sa False s)"

subsection \<open>Rounds under an invariant\<close>

lemma checkTimeout_keeps:
  assumes step: "\<And>cb i hs. P (snd hs) \<Longrightarrow> P (snd (run cb i hs))" and "checkTimeout run now hs = Some out" and "P (snd hs)"
  shows "P (snd out)"
proof -
  from assms(2) have "run = run \<longrightarrow> P (snd hs) \<longrightarrow> P (snd out)"
  proof (rule checkTimeout.raw_induct [where P = "\<lambda>r n hs out. r = run \<longrightarrow> P (snd hs) \<longrightarrow> P (snd out)", rotated],
      intro impI, goal_cases)
    case (1 rec r n hs out)
    show ?case
    proof (cases "minHeapTop (fst hs) = None \<or> millisecondLess n (t_value (timer_of (fst hs) (the (minHeapTop (fst hs)))))")
      case True
      then show ?thesis using 1(2-5) by (auto split: option.splits)
    next
      case False
      then obtain i where i: "minHeapTop (fst hs) = Some i" by auto
      let ?hs = "run (t_cb (timer_of (fst hs) i)) i (fire_timer i (fst hs), snd hs)"
      have "rec run n ?hs = Some out" using 1(2-5) False i by simp
      from 1(1) [OF this] show ?thesis using step [of "(fire_timer i (fst hs), snd hs)"] 1(5) by simp
    qed
  qed
  then show ?thesis using assms(3) by simp
qed

text \<open>An event loop whose timers and quit flag keep the invariant as well: then so does the whole loop.\<close>

locale service_loop = event_loop ds inv reported
  for ds :: "'s dispatch" and inv reported +
  fixes sa :: "'s service_access"
  assumes inv_checkTimeout: "inv {} s \<Longrightarrow> sa_checkTimeout sa now s = Some s1 \<Longrightarrow> inv {} s1"
    and inv_set_quit: "inv {} s \<Longrightarrow> inv {} (sa_set_quit sa b s)"
begin

lemma round_ok:
  assumes "inv {} s" and "\<And>s t. inv {} s \<Longrightarrow> answered s (rd_answer rd t)"
  shows "case es_round ds sa rd s of Inl e \<Rightarrow> e = CallbackFailed | Inr s1 \<Rightarrow> inv {} s1"
  using doEvent_keeps [OF assms(1) assms(2) [OF assms(1), of "es_wait_timeout (sa_next_timeout sa (rd_before rd) s)"]]
    inv_checkTimeout inv_set_quit
  by (auto simp: es_round_def split: sum.splits option.splits if_splits)

lemma rounds_ok:
  "(\<And>rd s t. rd \<in> set rds \<Longrightarrow> inv {} s \<Longrightarrow> answered s (rd_answer rd t)) \<Longrightarrow> inv {} s \<Longrightarrow>
    case es_rounds ds sa rds s of Inl e \<Rightarrow> e = CallbackFailed | Inr s1 \<Rightarrow> inv {} s1"
proof (induction rds arbitrary: s)
  case Nil
  then show ?case by simp
next
  case (Cons rd rds)
  have "case es_round ds sa rd s of Inl e \<Rightarrow> e = CallbackFailed | Inr s1 \<Rightarrow> inv {} s1"
    using Cons.prems by (intro round_ok) simp_all
  then show ?case using Cons.IH Cons.prems by (cases "es_round ds sa rd s") auto
qed

lemma loop_ok:
  assumes "\<And>rd s t. rd \<in> set rds \<Longrightarrow> inv {} s \<Longrightarrow> answered s (rd_answer rd t)" and "inv {} s"
  shows "case es_loop ds sa rds s of Inl e \<Rightarrow> e = CallbackFailed | Inr s1 \<Rightarrow> inv {} s1"
  unfolding es_loop_def using assms by (intro rounds_ok inv_set_quit)

end

end
