(* ===== verification/Tcp_Service.thy ===== *)
theory Tcp_Service
  imports Epoll_Service Net_Thread
begin

text \<open>
  The service of the main thread (\<open>server/tcp_service.h\<close>, \<open>.cc\<close>, \<open>server/game_service.h\<close>, \<open>.cc\<close>), in its
  branch for systems other than Windows.

  It owns the network threads, the queue of the commands they send to the main thread, the table of connections and
  the table of message handlers. A handler is a name \<open>'h\<close>; what it does to the service is an argument
  of the operations that call it, and so are the callbacks of \<open>GameService\<close> and of the timers. The
  commands a network thread gives to \<open>new_net_cmd_cb_\<close> are in \<open>nt_emitted\<close>; \<open>deliver\<close> puts them into the
  service's queue, which is what the callback (\<open>pushClientNetCommand\<close>) does with each of them.
  Indexing \<open>net_threads_\<close> out of its range is \<open>None\<close>.
\<close>

subsection \<open>State\<close>

record connection_info =
  last_request_second :: int
  requst_per_second :: int

record ('u, 'm, 'h, 't, 'w) tcp_service =
  sv_thread_num :: nat
  sv_acceptor :: "nat option"
  sv_max_connection_num :: nat
  sv_threads :: "('u, 'm) net_thread list"
  sv_infos :: "net_id \<rightharpoonup> connection_info"
  sv_handlers :: "int \<rightharpoonup> 'h"
  sv_max_requests :: int
  sv_queue :: "'m net_command message_queue"
  sv_event_funcs :: "'t list"
  sv_own :: "'t io_service"
  sv_epoll :: "'t epoll_service option"
  sv_clock :: timestamp
  sv_user :: 'w

definition TcpService :: "nat \<Rightarrow> int \<Rightarrow> timestamp \<Rightarrow> 'w \<Rightarrow> ('u, 'm, 'h, 't, 'w) tcp_service" where
  "TcpService net_thread_num queue_ptr now w =
     \<lparr>sv_thread_num = net_thread_num mod 2 ^ 8, sv_acceptor = None, sv_max_connection_num = 0, sv_threads = [],
      sv_infos = Map.empty, sv_handlers = Map.empty, sv_max_requests = 0, sv_queue = MessageQueue 0 queue_ptr,
      sv_event_funcs = [], sv_own = IOService, sv_epoll = None, sv_clock = now, sv_user = w\<rparr>"

text \<open>The virtual callbacks; the defaults of \<open>TcpService\<close> and the ones of \<open>GameService\<close> are below.\<close>

record 's service_callbacks =
  sc_connect :: "(net_id \<Rightarrow> 's \<Rightarrow> 's) option"
  sc_disconnect :: "(net_id \<Rightarrow> 's \<Rightarrow> 's) option"
  sc_exceed :: "(net_id \<Rightarrow> 's \<Rightarrow> 's) option"

definition call_back :: "(net_id \<Rightarrow> 's \<Rightarrow> 's) option \<Rightarrow> net_id \<Rightarrow> 's \<Rightarrow> 's" where
  "call_back f n s = (case f of None \<Rightarrow> s | Some g \<Rightarrow> g n s)"

subsection \<open>Connections come and go\<close>

text \<open>\<open>insert\<close> on an unordered map leaves an entry that is there.\<close>

definition svc_onConnect :: "net_id \<Rightarrow> ('u, 'm, 'h, 't, 'w) tcp_service \<Rightarrow> ('u, 'm, 'h, 't, 'w) tcp_service" where
  "svc_onConnect n s =
     (if sv_infos s n \<noteq> None then s
      else s\<lparr>sv_infos := (sv_infos s)(n \<mapsto> \<lparr>last_request_second = 0, requst_per_second = 0\<rparr>)\<rparr>)"

definition svc_onDisconnect :: "net_id \<Rightarrow> ('u, 'm, 'h, 't, 'w) tcp_service \<Rightarrow> ('u, 'm, 'h, 't, 'w) tcp_service" where
  "svc_onDisconnect n s = s\<lparr>sv_infos := (sv_infos s)(n := None)\<rparr>"

definition game_onConnect ::
  "(('u, 'm, 'h, 't, 'w) tcp_service) service_callbacks \<Rightarrow> net_id \<Rightarrow> ('u, 'm, 'h, 't, 'w) tcp_service \<Rightarrow>
     ('u, 'm, 'h, 't, 'w) tcp_service" where
  "game_onConnect cbs n s = call_back (sc_connect cbs) n (svc_onConnect n s)"

definition game_onDisconnect ::
  "(('u, 'm, 'h, 't, 'w) tcp_service) service_callbacks \<Rightarrow> net_id \<Rightarrow> ('u, 'm, 'h, 't, 'w) tcp_service \<Rightarrow>
     ('u, 'm, 'h, 't, 'w) tcp_service" where
  "game_onDisconnect cbs n s = call_back (sc_disconnect cbs) n (svc_onDisconnect n s)"

definition game_onExceedRequestFrequencyLimit ::
  "(('u, 'm, 'h, 't, 'w) tcp_service) service_callbacks \<Rightarrow> net_id \<Rightarrow> ('u, 'm, 'h, 't, 'w) tcp_service \<Rightarrow>
     ('u, 'm, 'h, 't, 'w) tcp_service" where
  "game_onExceedRequestFrequencyLimit cbs n s = call_back (sc_exceed cbs) n s"

subsection \<open>Commands to the network threads\<close>

definition svc_push :: "'m net_command \<Rightarrow> ('u, 'm, 'h, 't, 'w) tcp_service \<Rightarrow> ('u, 'm, 'h, 't, 'w) tcp_service option" where
  "svc_push cmd s =
     (let i = reactor_id (cmd_id cmd) in
      if i < 0 \<or> int (length (sv_threads s)) \<le> i then None
      else do { r \<leftarrow> nt_push (Some cmd) (sv_threads s ! nat i); Some (s\<lparr>sv_threads := (sv_threads s)[nat i := r]\<rparr>) })"

definition svc_disconnect ::
  "(('u, 'm, 'h, 't, 'w) tcp_service) service_callbacks \<Rightarrow> net_id \<Rightarrow> ('u, 'm, 'h, 't, 'w) tcp_service \<Rightarrow>
     ('u, 'm, 'h, 't, 'w) tcp_service option" where
  "svc_disconnect cbs n s = do { s1 \<leftarrow> svc_push ((NetCommand CLOSE)\<lparr>cmd_id := n\<rparr>) s; Some (game_onDisconnect cbs n s1) }"

definition svc_sendMessage ::
  "net_id \<Rightarrow> int \<Rightarrow> 'm option \<Rightarrow> ('u, 'm, 'h, 't, 'w) tcp_service \<Rightarrow> ('u, 'm, 'h, 't, 'w) tcp_service option" where
  "svc_sendMessage n message_id message s =
     svc_push ((NetCommand MESSAGE)\<lparr>cmd_id := n, cmd_message_id := message_id, cmd_message := message\<rparr>) s"

definition enableBroadcast :: "net_id \<Rightarrow> ('u, 'm, 'h, 't, 'w) tcp_service \<Rightarrow> ('u, 'm, 'h, 't, 'w) tcp_service option" where
  "enableBroadcast n s = svc_push ((NetCommand ENABLE_BROADCAST)\<lparr>cmd_id := n\<rparr>) s"

definition disableBroadcast :: "net_id \<Rightarrow> ('u, 'm, 'h, 't, 'w) tcp_service \<Rightarrow> ('u, 'm, 'h, 't, 'w) tcp_service option" where
  "disableBroadcast n s = svc_push ((NetCommand DISABLE_BROADCAST)\<lparr>cmd_id := n\<rparr>) s"

text \<open>\<open>broadcastMessage\<close> sends a copy of the message (\<open>clone\<close> is the message's own) to every thread.\<close>

definition broadcast_command :: "int \<Rightarrow> 'm \<Rightarrow> nat \<Rightarrow> 'm net_command" where
  "broadcast_command message_id message i =
     (let cmd = NetCommand BROADCAST
      in cmd\<lparr>cmd_id := (cmd_id cmd)\<lparr>reactor_id := int i\<rparr>, cmd_message_id := message_id, cmd_message := Some message\<rparr>)"

primrec push_all :: "'m net_command list \<Rightarrow> ('u, 'm, 'h, 't, 'w) tcp_service \<Rightarrow> ('u, 'm, 'h, 't, 'w) tcp_service option" where
  "push_all [] s = Some s"
| "push_all (c # cs) s = do { s1 \<leftarrow> svc_push c s; push_all cs s1 }"

definition svc_broadcastMessage ::
  "('m \<Rightarrow> 'm) \<Rightarrow> int \<Rightarrow> 'm \<Rightarrow> ('u, 'm, 'h, 't, 'w) tcp_service \<Rightarrow> ('u, 'm, 'h, 't, 'w) tcp_service option" where
  "svc_broadcastMessage clone message_id message s =
     push_all (map (broadcast_command message_id (clone message)) [0..<length (sv_threads s)]) s"

subsection \<open>Messages from the network threads\<close>

definition checkRequestFrequencyLimit :: "int \<Rightarrow> int \<Rightarrow> connection_info \<Rightarrow> bool \<times> connection_info" where
  "checkRequestFrequencyLimit max_request_per_second now info =
     (let info1 = (if now = last_request_second info then info\<lparr>requst_per_second := requst_per_second info + 1\<rparr>
                   else info\<lparr>last_request_second := now, requst_per_second := 0\<rparr>)
      in (max_request_per_second < requst_per_second info1, info1))"

definition getMessageHandler :: "int \<Rightarrow> ('u, 'm, 'h, 't, 'w) tcp_service \<Rightarrow> 'h option" where
  "getMessageHandler message_id s = sv_handlers s message_id"

definition svc_setMessageHandler :: "int \<Rightarrow> 'h \<Rightarrow> ('u, 'm, 'h, 't, 'w) tcp_service \<Rightarrow> ('u, 'm, 'h, 't, 'w) tcp_service" where
  "svc_setMessageHandler message_id h s = s\<lparr>sv_handlers := (sv_handlers s)(message_id \<mapsto> h)\<rparr>"

text \<open>
  \<open>GameService::setMessageHandler\<close> keeps one handler per message type in a static variable: a type that has one is refused
  (\<open>wrappers\<close> maps the types to their handlers).
\<close>

definition game_setMessageHandler ::
  "'ty \<Rightarrow> int \<Rightarrow> 'h \<Rightarrow> ('ty \<rightharpoonup> 'h) \<times> ('u, 'm, 'h, 't, 'w) tcp_service \<Rightarrow> ('ty \<rightharpoonup> 'h) \<times> ('u, 'm, 'h, 't, 'w) tcp_service" where
  "game_setMessageHandler ty message_id h ws =
     (case ws of (wrappers, s) \<Rightarrow>
        if wrappers ty \<noteq> None then (wrappers, s)
        else (wrappers(ty \<mapsto> h), svc_setMessageHandler message_id h s))"

definition svc_onMessage ::
  "(('u, 'm, 'h, 't, 'w) tcp_service) service_callbacks \<Rightarrow>
   ('h \<Rightarrow> net_id \<Rightarrow> 'm option \<Rightarrow> ('u, 'm, 'h, 't, 'w) tcp_service \<Rightarrow> ('u, 'm, 'h, 't, 'w) tcp_service) \<Rightarrow>
     net_id \<Rightarrow> int \<Rightarrow> 'm option \<Rightarrow> ('u, 'm, 'h, 't, 'w) tcp_service \<Rightarrow> ('u, 'm, 'h, 't, 'w) tcp_service option" where
  "svc_onMessage cbs call n message_id message s =
     (case sv_infos s n of None \<Rightarrow> Some s
      | Some info \<Rightarrow>
          let (exceeded, info1) = (if 0 < sv_max_requests s
                then checkRequestFrequencyLimit (sv_max_requests s) (second (sv_clock s)) info else (False, info));
              s1 = s\<lparr>sv_infos := (sv_infos s)(n \<mapsto> info1)\<rparr>
          in if exceeded then svc_disconnect cbs n (game_onExceedRequestFrequencyLimit cbs n s1)
             else case getMessageHandler message_id s1 of None \<Rightarrow> Some s1
                  | Some h \<Rightarrow> Some (call h n message s1))"

definition processNetCommand ::
  "(('u, 'm, 'h, 't, 'w) tcp_service) service_callbacks \<Rightarrow>
   ('h \<Rightarrow> net_id \<Rightarrow> 'm option \<Rightarrow> ('u, 'm, 'h, 't, 'w) tcp_service \<Rightarrow> ('u, 'm, 'h, 't, 'w) tcp_service) \<Rightarrow>
     'm net_command \<Rightarrow> ('u, 'm, 'h, 't, 'w) tcp_service \<Rightarrow> ('u, 'm, 'h, 't, 'w) tcp_service option" where
  "processNetCommand cbs call cmd s =
     (case cmd_type cmd of
        NEW \<Rightarrow> Some (game_onConnect cbs (cmd_id cmd) s)
      | CLOSE \<Rightarrow> Some (game_onDisconnect cbs (cmd_id cmd) s)
      | MESSAGE \<Rightarrow> svc_onMessage cbs call (cmd_id cmd) (cmd_message_id cmd) (cmd_message cmd) s
      | _ \<Rightarrow> Some s)"

text \<open>
  The loop of \<open>onClientNetCommandQueueRead\<close>, with the number of commands it may still handle; \<open>clock\<close> is the time it finds
  the clock at when so many are left.
\<close>

primrec queue_read ::
  "(('u, 'm, 'h, 't, 'w) tcp_service) service_callbacks \<Rightarrow>
   ('h \<Rightarrow> net_id \<Rightarrow> 'm option \<Rightarrow> ('u, 'm, 'h, 't, 'w) tcp_service \<Rightarrow> ('u, 'm, 'h, 't, 'w) tcp_service) \<Rightarrow>
     (nat \<Rightarrow> timestamp) \<Rightarrow> nat \<Rightarrow> ('u, 'm, 'h, 't, 'w) tcp_service \<Rightarrow> ('u, 'm, 'h, 't, 'w) tcp_service option" where
  "queue_read cbs call clock 0 s = Some s"
| "queue_read cbs call clock (Suc n) s =
     (case mq_pop (sv_queue s) of
        (None, q) \<Rightarrow> Some (s\<lparr>sv_queue := q\<rparr>)
      | (Some cmd, q) \<Rightarrow> do { s1 \<leftarrow> processNetCommand cbs call cmd (s\<lparr>sv_queue := q, sv_clock := clock n\<rparr>);
                             queue_read cbs call clock n s1 })"

definition onClientNetCommandQueueRead ::
  "(('u, 'm, 'h, 't, 'w) tcp_service) service_callbacks \<Rightarrow>
   ('h \<Rightarrow> net_id \<Rightarrow> 'm option \<Rightarrow> ('u, 'm, 'h, 't, 'w) tcp_service \<Rightarrow> ('u, 'm, 'h, 't, 'w) tcp_service) \<Rightarrow>
     (nat \<Rightarrow> timestamp) \<Rightarrow> ('u, 'm, 'h, 't, 'w) tcp_service \<Rightarrow> ('u, 'm, 'h, 't, 'w) tcp_service option" where
  "onClientNetCommandQueueRead cbs call clock s = queue_read cbs call clock 100 s"

definition pushClientNetCommand ::
  "'m net_command \<Rightarrow> ('u, 'm, 'h, 't, 'w) tcp_service \<Rightarrow> ('u, 'm, 'h, 't, 'w) tcp_service option" where
  "pushClientNetCommand cmd s = map_option (\<lambda>q. s\<lparr>sv_queue := q\<rparr>) (mq_push cmd (sv_queue s))"

primrec push_client_commands ::
  "'m net_command list \<Rightarrow> ('u, 'm, 'h, 't, 'w) tcp_service \<Rightarrow> ('u, 'm, 'h, 't, 'w) tcp_service option" where
  "push_client_commands [] s = Some s"
| "push_client_commands (c # cs) s = do { s1 \<leftarrow> pushClientNetCommand c s; push_client_commands cs s1 }"

definition deliver :: "nat \<Rightarrow> ('u, 'm, 'h, 't, 'w) tcp_service \<Rightarrow> ('u, 'm, 'h, 't, 'w) tcp_service option" where
  "deliver i s =
     push_client_commands (nt_emitted (ts (sv_threads s ! i)))
       (s\<lparr>sv_threads := (sv_threads s)[i := upd_rest (\<lambda>t. t\<lparr>nt_emitted := []\<rparr>) (sv_threads s ! i)]\<rparr>)"

subsection \<open>New connections\<close>

text \<open>
  \<open>onNewConnCallback\<close>, which runs in the acceptor's thread: the loop that looks for the thread with the fewest connections,
  and the attachment.
\<close>

primrec least_from :: "nat list \<Rightarrow> nat \<Rightarrow> nat \<Rightarrow> nat \<Rightarrow> nat" where
  "least_from [] i min_connection_num min_connection_thread_index = min_connection_thread_index"
| "least_from (c # cs) i min_connection_num min_connection_thread_index =
     (if c < min_connection_num then least_from cs (Suc i) c i
      else least_from cs (Suc i) min_connection_num min_connection_thread_index)"

definition least_loaded :: "nat list \<Rightarrow> nat option" where
  "least_loaded counts = (case counts of [] \<Rightarrow> None | c # cs \<Rightarrow> Some (least_from cs 1 c 0))"

definition onNewConnCallback ::
  "tcp_socket \<Rightarrow> ('u, 'm, 'h, 't, 'w) tcp_service \<Rightarrow> ('u, 'm, 'h, 't, 'w) tcp_service option" where
  "onNewConnCallback peer_socket s =
     do { i \<leftarrow> least_loaded (map getConnectionNum (sv_threads s));
          r \<leftarrow> nt_attach peer_socket (sv_threads s ! i);
          deliver i (s\<lparr>sv_threads := (sv_threads s)[i := r]\<rparr>) }"

subsection \<open>Starting and stopping\<close>

text \<open>
  \<open>createService\<close>: \<open>opened\<close> is the outcome of \<open>passiveOpenNonblock\<close>, \<open>epoll\<close> what \<open>epoll_create\<close> and \<open>fcntl\<close> answer,
  \<open>fds\<close>, \<open>nonblock\<close> and \<open>cloexec\<close> the outcomes of the calls on the queue's pipe. That the queue cannot be attached is
  not reported.
\<close>

definition createService ::
  "bool \<Rightarrow> nat \<times> int \<times> bool \<Rightarrow> (int \<times> int) option \<Rightarrow> bool \<times> bool \<Rightarrow> bool \<times> bool \<Rightarrow> int \<Rightarrow> ('u, 'm, 'h, 't, 'w) tcp_service \<Rightarrow>
     bool \<times> ('u, 'm, 'h, 't, 'w) tcp_service" where
  "createService opened epoll fds nonblock cloexec max_clien_num s =
     (if \<not> opened then (False, s)
      else let n = nat (max_clien_num mod 2 ^ 16);
               (limit, fd, ce) = epoll;
               (ok, q, es) = mq_attach es_addIODevice es_removeIODevice fds nonblock cloexec (sv_queue s) (EpollService limit fd ce)
           in (True, s\<lparr>sv_acceptor := Some n, sv_max_connection_num := n, sv_queue := q, sv_epoll := Some es\<rparr>))"

text \<open>Before \<open>createService\<close> there is no service to attach a queue to.\<close>

definition attachNetCommandQueue ::
  "(int \<times> int) option \<Rightarrow> bool \<times> bool \<Rightarrow> bool \<times> bool \<Rightarrow> 'm net_command message_queue \<Rightarrow> ('u, 'm, 'h, 't, 'w) tcp_service \<Rightarrow>
     ('m net_command message_queue \<times> ('u, 'm, 'h, 't, 'w) tcp_service) option" where
  "attachNetCommandQueue fds nonblock cloexec q s =
     (case sv_epoll s of None \<Rightarrow> None
      | Some es \<Rightarrow> let (ok, q1, es1) = mq_attach es_addIODevice es_removeIODevice fds nonblock cloexec q es
                   in Some (q1, s\<lparr>sv_epoll := Some es1\<rparr>))"

definition addEventFunc :: "'t \<Rightarrow> ('u, 'm, 'h, 't, 'w) tcp_service \<Rightarrow> ('u, 'm, 'h, 't, 'w) tcp_service" where
  "addEventFunc f s = s\<lparr>sv_event_funcs := sv_event_funcs s @ [f]\<rparr>"

text \<open>What the kernel answers while a network thread is made: the addresses and outcomes \<open>nt_init\<close> and \<open>EpollReactor\<close> use.\<close>

record thread_env =
  te_pipe :: int
  te_fds :: "(int \<times> int) option"
  te_nonblock :: "bool \<times> bool"
  te_cloexec :: "bool \<times> bool"
  te_limit :: nat
  te_epoll_fd :: int
  te_epoll_cloexec :: bool
  te_now :: timestamp
  te_kernel :: kernel

definition make_thread :: "nat \<Rightarrow> nat \<Rightarrow> thread_env \<Rightarrow> (bool \<times> ('u, 'm) net_thread) option" where
  "make_thread i max_client_num e =
     do { t \<leftarrow> NetThread (te_pipe e) 40960;
          Some (nt_init (int i) 81920 409600 (te_fds e) (te_nonblock e) (te_cloexec e)
            (EpollReactor (int max_client_num) (te_now e) (te_kernel e) (te_limit e) (te_epoll_fd e) (te_epoll_cloexec e) t)) }"

text \<open>The threads that were made when the first failure ends the loop are kept.\<close>

primrec make_threads :: "nat \<Rightarrow> nat \<Rightarrow> thread_env list \<Rightarrow> (bool \<times> ('u, 'm) net_thread list) option" where
  "make_threads i max_client_num [] = Some (True, [])"
| "make_threads i max_client_num (e # es) =
     do { (ok, r) \<leftarrow> make_thread i max_client_num e;
          if \<not> ok then Some (False, [r])
          else do { (ok', rs) \<leftarrow> make_threads (Suc i) max_client_num es; Some (ok', r # rs) } }"

text \<open>
  \<open>init\<close>, with one environment per thread. With no threads the division in the log line before the loop fails: \<open>None\<close>.
\<close>

definition svc_init ::
  "(nat \<Rightarrow> thread_env) \<Rightarrow> int \<Rightarrow> ('u, 'm, 'h, 't, 'w) tcp_service \<Rightarrow> (bool \<times> ('u, 'm, 'h, 't, 'w) tcp_service) option" where
  "svc_init env max_request_per_second s =
     (if sv_acceptor s = None then Some (False, s)
      else if sv_thread_num s = 0 then None
      else do {
        (ok, rs) \<leftarrow> make_threads 0 (sv_max_connection_num s div sv_thread_num s + 1) (map env [0..<sv_thread_num s]);
        let s1 = s\<lparr>sv_threads := rs\<rparr>;
        Some (if \<not> ok then (False, s1) else (True, s1\<lparr>sv_max_requests := max_request_per_second\<rparr>)) })"

text \<open>\<open>stop\<close> pushes a null command to every thread; waiting for the threads, which do not end by it (\<open>reactor_quit\<close>), is not part of the model.\<close>

primrec push_quit :: "('u, 'm) net_thread list \<Rightarrow> ('u, 'm) net_thread list option" where
  "push_quit [] = Some []"
| "push_quit (r # rs) = do { r1 \<leftarrow> nt_push None r; rs1 \<leftarrow> push_quit rs; Some (r1 # rs1) }"

definition svc_stop :: "('u, 'm, 'h, 't, 'w) tcp_service \<Rightarrow> ('u, 'm, 'h, 't, 'w) tcp_service option" where
  "svc_stop s = map_option (\<lambda>rs. s\<lparr>sv_threads := rs\<rparr>) (push_quit (sv_threads s))"

subsection \<open>Timers\<close>

definition svc_startTimer ::
  "int \<Rightarrow> 't \<Rightarrow> int \<Rightarrow> ('u, 'm, 'h, 't, 'w) tcp_service \<Rightarrow> (timer_id \<times> ('u, 'm, 'h, 't, 'w) tcp_service) option" where
  "svc_startTimer timeout_ms cb call_times s =
     (case sv_epoll s of None \<Rightarrow> None
      | Some es \<Rightarrow> let (i, es1) = ios_startTimer (sv_clock s) timeout_ms cb call_times es
                   in Some (i, s\<lparr>sv_epoll := Some es1\<rparr>))"

definition svc_stopTimer :: "timer_id \<Rightarrow> ('u, 'm, 'h, 't, 'w) tcp_service \<Rightarrow> ('u, 'm, 'h, 't, 'w) tcp_service" where
  "svc_stopTimer i s = s\<lparr>sv_own := ios_stopTimer i (sv_own s)\<rparr>"

subsection \<open>The main loop\<close>

text \<open>
  \<open>start\<close> runs \<open>epoll_service_->loop()\<close>: its device is the queue's pipe, its timers are run on the whole service by
  \<open>user\<close>.
\<close>

definition svc_pipeRead ::
  "(('u, 'm, 'h, 't, 'w) tcp_service) service_callbacks \<Rightarrow>
   ('h \<Rightarrow> net_id \<Rightarrow> 'm option \<Rightarrow> ('u, 'm, 'h, 't, 'w) tcp_service \<Rightarrow> ('u, 'm, 'h, 't, 'w) tcp_service) \<Rightarrow>
     (nat \<Rightarrow> timestamp) \<Rightarrow> ('u, 'm, 'h, 't, 'w) tcp_service \<Rightarrow> ('u, 'm, 'h, 't, 'w) tcp_service option" where
  "svc_pipeRead cbs call clock s =
     do { q \<leftarrow> mq_drain (sv_queue s); onClientNetCommandQueueRead cbs call clock (s\<lparr>sv_queue := q\<rparr>) }"

definition svc_set_epoll :: "('t epoll_service \<Rightarrow> 't epoll_service) \<Rightarrow> ('u, 'm, 'h, 't, 'w) tcp_service \<Rightarrow> ('u, 'm, 'h, 't, 'w) tcp_service" where
  "svc_set_epoll f s = s\<lparr>sv_epoll := map_option f (sv_epoll s)\<rparr>"

definition svc_dispatch ::
  "(('u, 'm, 'h, 't, 'w) tcp_service) service_callbacks \<Rightarrow>
   ('h \<Rightarrow> net_id \<Rightarrow> 'm option \<Rightarrow> ('u, 'm, 'h, 't, 'w) tcp_service \<Rightarrow> ('u, 'm, 'h, 't, 'w) tcp_service) \<Rightarrow>
     (nat \<Rightarrow> timestamp) \<Rightarrow> (('u, 'm, 'h, 't, 'w) tcp_service) dispatch" where
  "svc_dispatch cbs call clock =
     \<lparr>ds_epoller = (\<lambda>s. case sv_epoll s of None \<Rightarrow> Epoller 0 | Some es \<Rightarrow> es_epoller es),
      ds_set_epoller = (\<lambda>e. svc_set_epoll (\<lambda>es. es\<lparr>es_epoller := e\<rparr>)),
      ds_device = (\<lambda>s p. let d = sp_device (mq_pipe (sv_queue s)) in if p = dev_ptr d then Some d else None),
      ds_write = (\<lambda>d s. Some s),
      ds_read = (\<lambda>d s. svc_pipeRead cbs call clock s),
      ds_error = (\<lambda>d s. Some s)\<rparr>"

definition svc_checkTimeout ::
  "('t \<Rightarrow> timer_id \<Rightarrow> ('u, 'm, 'h, 't, 'w) tcp_service \<Rightarrow> ('u, 'm, 'h, 't, 'w) tcp_service) \<Rightarrow> timestamp \<Rightarrow>
     ('u, 'm, 'h, 't, 'w) tcp_service \<Rightarrow> ('u, 'm, 'h, 't, 'w) tcp_service option" where
  "svc_checkTimeout user now s =
     (let timers_of = (\<lambda>s. case sv_epoll s of None \<Rightarrow> TimerHeap | Some es \<Rightarrow> is_timers es);
          put = (\<lambda>h. svc_set_epoll (\<lambda>es. es\<lparr>is_timers := h\<rparr>))
      in do { (h, s1) \<leftarrow> checkTimeout (\<lambda>cb i (h, s). let s1 = user cb i (put h s) in (timers_of s1, s1)) now (timers_of s, s);
              Some (put h s1) })"

definition svc_access ::
  "('t \<Rightarrow> timer_id \<Rightarrow> ('u, 'm, 'h, 't, 'w) tcp_service \<Rightarrow> ('u, 'm, 'h, 't, 'w) tcp_service) \<Rightarrow>
     (('u, 'm, 'h, 't, 'w) tcp_service) service_access" where
  "svc_access user =
     \<lparr>sa_quit = (\<lambda>s. case sv_epoll s of None \<Rightarrow> True | Some es \<Rightarrow> is_quit es),
      sa_set_quit = (\<lambda>b. svc_set_epoll (\<lambda>es. es\<lparr>is_quit := b\<rparr>)),
      sa_next_timeout = (\<lambda>now s. case sv_epoll s of None \<Rightarrow> -1 | Some es \<Rightarrow> getNextTimeoutMillisecond now (is_timers es)),
      sa_checkTimeout = svc_checkTimeout user\<rparr>"

definition svc_loop ::
  "(('u, 'm, 'h, 't, 'w) tcp_service) service_callbacks \<Rightarrow>
   ('h \<Rightarrow> net_id \<Rightarrow> 'm option \<Rightarrow> ('u, 'm, 'h, 't, 'w) tcp_service \<Rightarrow> ('u, 'm, 'h, 't, 'w) tcp_service) \<Rightarrow> (nat \<Rightarrow> timestamp) \<Rightarrow>
   ('t \<Rightarrow> timer_id \<Rightarrow> ('u, 'm, 'h, 't, 'w) tcp_service \<Rightarrow> ('u, 'm, 'h, 't, 'w) tcp_service) \<Rightarrow> round list \<Rightarrow>
     ('u, 'm, 'h, 't, 'w) tcp_service \<Rightarrow> dispatch_error + ('u, 'm, 'h, 't, 'w) tcp_service" where
  "svc_loop cbs call clock user rds s =
     (if sv_epoll s = None then Inl Dangling else es_loop (svc_dispatch cbs call clock) (svc_access user) rds s)"

end
