(* ===== verification/Service_Flow.thy ===== *)
theory Service_Flow
  imports Tcp_Service Net_Thread_Safety
begin

text \<open>
  What the main thread does with the commands of the network threads: every connection is served as if it were alone
  (\<open>messages_served\<close>), the limit on its requests (\<open>request_limit\<close>), and how connections are spread over the
  threads (\<open>connections_balanced\<close>).
\<close>

subsection \<open>One connection\<close>

text \<open>
  What the users of the service see of one connection, and the machine that one connection is: its entry in the table, or
  \<open>None\<close>, and a command with the time at which it is handled.
\<close>

datatype ('h, 'm) service_event =
  Connected net_id | Disconnected net_id | Exceeded net_id | Handled net_id 'h "'m option"

primrec event_id :: "('h, 'm) service_event \<Rightarrow> net_id" where
  "event_id (Connected n) = n"
| "event_id (Disconnected n) = n"
| "event_id (Exceeded n) = n"
| "event_id (Handled n h m) = n"

definition conn_step ::
  "int \<Rightarrow> (int \<rightharpoonup> 'h) \<Rightarrow> net_id \<Rightarrow> timestamp \<Rightarrow> 'm net_command \<Rightarrow> connection_info option \<Rightarrow>
     ('h, 'm) service_event list \<times> connection_info option" where
  "conn_step M handlers n t cmd st =
     (case cmd_type cmd of
        NEW \<Rightarrow> ([Connected n], Some (case st of None \<Rightarrow> \<lparr>last_request_second = 0, requst_per_second = 0\<rparr> | Some info \<Rightarrow> info))
      | CLOSE \<Rightarrow> ([Disconnected n], None)
      | MESSAGE \<Rightarrow> (case st of None \<Rightarrow> ([], None)
          | Some info \<Rightarrow>
              let (exceeded, info1) = (if 0 < M then checkRequestFrequencyLimit M (second t) info else (False, info))
              in if exceeded then ([Exceeded n, Disconnected n], None)
                 else (case handlers (cmd_message_id cmd) of None \<Rightarrow> [] | Some h \<Rightarrow> [Handled n h (cmd_message cmd)], Some info1))
      | _ \<Rightarrow> ([], st))"

primrec conn_trace ::
  "int \<Rightarrow> (int \<rightharpoonup> 'h) \<Rightarrow> net_id \<Rightarrow> (timestamp \<times> 'm net_command) list \<Rightarrow> connection_info option \<Rightarrow>
     ('h, 'm) service_event list \<times> connection_info option" where
  "conn_trace M handlers n [] st = ([], st)"
| "conn_trace M handlers n (tc # cs) st =
     (let (es, st1) = conn_step M handlers n (fst tc) (snd tc) st; (es', st2) = conn_trace M handlers n cs st1 in (es @ es', st2))"

lemma conn_step_ids: "e \<in> set (fst (conn_step M handlers n t cmd st)) \<Longrightarrow> event_id e = n"
  by (cases "cmd_type cmd") (auto simp: conn_step_def Let_def split: option.splits prod.splits if_splits)

subsection \<open>The callbacks\<close>

text \<open>
  The callbacks and handlers may change the user's state as \<open>act\<close> says, send messages and use the timers, but leave the
  table of connections, the handlers, the limit and the queue alone (\<open>keeps\<close>): they do not disconnect.
\<close>

definition keeps :: "('u, 'm, 'h, 't, 'w) tcp_service \<Rightarrow> ('u, 'm, 'h, 't, 'w) tcp_service \<Rightarrow> bool" where
  "keeps s s' \<longleftrightarrow> sv_infos s' = sv_infos s \<and> sv_handlers s' = sv_handlers s \<and> sv_max_requests s' = sv_max_requests s
     \<and> sv_queue s' = sv_queue s \<and> length (sv_threads s') = length (sv_threads s)
     \<and> (\<forall>i < length (sv_threads s). cq_bounded (mq_queue (nt_queue (ts (sv_threads s' ! i))))
                                     = cq_bounded (mq_queue (nt_queue (ts (sv_threads s ! i)))))"

definition well_behaved ::
  "(('u, 'm, 'h, 't, 'w) tcp_service) service_callbacks \<Rightarrow>
   ('h \<Rightarrow> net_id \<Rightarrow> 'm option \<Rightarrow> ('u, 'm, 'h, 't, 'w) tcp_service \<Rightarrow> ('u, 'm, 'h, 't, 'w) tcp_service) \<Rightarrow>
   (('h, 'm) service_event \<Rightarrow> 'w \<Rightarrow> 'w) \<Rightarrow> bool" where
  "well_behaved cbs call act \<longleftrightarrow>
     (\<forall>n s. keeps s (call_back (sc_connect cbs) n s) \<and> sv_user (call_back (sc_connect cbs) n s) = act (Connected n) (sv_user s)) \<and>
     (\<forall>n s. keeps s (call_back (sc_disconnect cbs) n s) \<and> sv_user (call_back (sc_disconnect cbs) n s) = act (Disconnected n) (sv_user s)) \<and>
     (\<forall>n s. keeps s (call_back (sc_exceed cbs) n s) \<and> sv_user (call_back (sc_exceed cbs) n s) = act (Exceeded n) (sv_user s)) \<and>
     (\<forall>h n m s. keeps s (call h n m s) \<and> sv_user (call h n m s) = act (Handled n h m) (sv_user s))"

definition unbounded :: "('u, 'm, 'h, 't, 'w) tcp_service \<Rightarrow> bool" where
  "unbounded s \<longleftrightarrow> (\<forall>i < length (sv_threads s). \<not> cq_bounded (mq_queue (nt_queue (ts (sv_threads s ! i)))))"

definition in_range :: "('u, 'm, 'h, 't, 'w) tcp_service \<Rightarrow> 'm net_command \<Rightarrow> bool" where
  "in_range s cmd \<longleftrightarrow> 0 \<le> reactor_id (cmd_id cmd) \<and> reactor_id (cmd_id cmd) < int (length (sv_threads s))"

text \<open>The state after a step of the service: the steps of one connection, everything else as it was.\<close>

definition served ::
  "(('h, 'm) service_event \<Rightarrow> 'w \<Rightarrow> 'w) \<Rightarrow> net_id \<Rightarrow> ('h, 'm) service_event list \<times> connection_info option \<Rightarrow>
     ('u, 'm, 'h, 't, 'w) tcp_service \<Rightarrow> ('u, 'm, 'h, 't, 'w) tcp_service \<Rightarrow> bool" where
  "served act n out s s' \<longleftrightarrow> keeps (s\<lparr>sv_infos := (sv_infos s)(n := snd out)\<rparr>) s' \<and> sv_user s' = fold act (fst out) (sv_user s)"

lemma keeps_trans: "keeps s1 s2 \<Longrightarrow> keeps s2 s3 \<Longrightarrow> keeps s1 s3"
  by (auto simp: keeps_def)

lemma keeps_infos: "keeps s s' \<Longrightarrow> keeps (s\<lparr>sv_infos := f\<rparr>) (s'\<lparr>sv_infos := f\<rparr>)"
  by (simp add: keeps_def)

lemma unbounded_keeps: "keeps s s' \<Longrightarrow> unbounded s' = unbounded s"
  by (auto simp: keeps_def unbounded_def)

lemma ts_set_queue [simp]: "ts (set_queue q r) = (ts r)\<lparr>nt_queue := q\<rparr>"
  by (simp add: set_queue_def upd_rest_def ts_def)

lemma svc_push_ok:
  assumes "unbounded s" and "in_range s cmd"
  shows "\<exists>s'. svc_push cmd s = Some s' \<and> keeps s s' \<and> sv_user s' = sv_user s \<and> sv_infos s' = sv_infos s"
proof -
  let ?i = "nat (reactor_id (cmd_id cmd))"
  have i: "?i < length (sv_threads s)" using assms(2) by (simp add: in_range_def nat_less_iff)
  then have "\<not> cq_bounded (mq_queue (nt_queue (ts (sv_threads s ! ?i))))" using assms(1) by (simp add: unbounded_def)
  then obtain r where r: "nt_push (Some cmd) (sv_threads s ! ?i) = Some r"
      "cq_bounded (mq_queue (nt_queue (ts r))) = cq_bounded (mq_queue (nt_queue (ts (sv_threads s ! ?i))))"
    by (auto simp: nt_push_def mq_push_def cq_push_def fullNoLock_def)
  have "svc_push cmd s = Some (s\<lparr>sv_threads := (sv_threads s)[?i := r]\<rparr>)"
    using r(1) assms(2) by (simp add: svc_push_def Let_def in_range_def)
  then show ?thesis using r(2) i by (auto simp: keeps_def nth_list_update)
qed

lemma processNetCommand_served:
  assumes wb: "well_behaved cbs call act" and "unbounded s" and "in_range s cmd"
  shows "\<exists>s'. processNetCommand cbs call cmd s = Some s'
    \<and> served act (cmd_id cmd) (conn_step (sv_max_requests s) (sv_handlers s) (cmd_id cmd) (sv_clock s) cmd (sv_infos s (cmd_id cmd))) s s'"
proof (cases "cmd_type cmd")
  case NEW
  then show ?thesis
    using wb
    by (cases "sv_infos s (cmd_id cmd)")
      (auto simp: processNetCommand_def game_onConnect_def svc_onConnect_def conn_step_def served_def well_behaved_def
        keeps_def fun_upd_idem)
next
  case CLOSE
  then show ?thesis
    using wb by (simp add: processNetCommand_def game_onDisconnect_def svc_onDisconnect_def conn_step_def served_def well_behaved_def)
next
  case MESSAGE
  let ?n = "cmd_id cmd" and ?M = "sv_max_requests s"
  show ?thesis
  proof (cases "sv_infos s ?n")
    case None
    then show ?thesis
      using MESSAGE by (simp add: processNetCommand_def svc_onMessage_def conn_step_def served_def keeps_def fun_upd_idem)
  next
    case (Some info)
    define chk where "chk = (if 0 < ?M then checkRequestFrequencyLimit ?M (second (sv_clock s)) info else (False, info))"
    define s1 where "s1 = s\<lparr>sv_infos := (sv_infos s)(?n \<mapsto> snd chk)\<rparr>"
    define s2 where "s2 = call_back (sc_exceed cbs) ?n s1"
    have s2: "keeps s1 s2" "sv_user s2 = act (Exceeded ?n) (sv_user s)"
      using wb by (simp_all add: well_behaved_def s2_def s1_def)
    have "unbounded s2" "in_range s2 ((NetCommand CLOSE)\<lparr>cmd_id := ?n\<rparr>)"
      using assms(2,3) s2(1) by (auto simp: unbounded_def in_range_def keeps_def s1_def)
    then obtain s3 where s3: "svc_push ((NetCommand CLOSE)\<lparr>cmd_id := ?n\<rparr>) s2 = Some s3" "keeps s2 s3" "sv_user s3 = sv_user s2"
      using svc_push_ok by blast
    define s4 where "s4 = call_back (sc_disconnect cbs) ?n (svc_onDisconnect ?n s3)"
    have s4: "keeps (svc_onDisconnect ?n s3) s4" "sv_user s4 = act (Disconnected ?n) (sv_user s3)"
      using wb by (simp_all add: well_behaved_def s4_def svc_onDisconnect_def)
    have "keeps s1 s3" using s2(1) s3(2) by (rule keeps_trans)
    then have "keeps (s\<lparr>sv_infos := (sv_infos s)(?n := None)\<rparr>) (svc_onDisconnect ?n s3)"
      by (simp add: keeps_def s1_def svc_onDisconnect_def)
    then have out: "keeps (s\<lparr>sv_infos := (sv_infos s)(?n := None)\<rparr>) s4" using s4(1) by (rule keeps_trans)
    have run: "processNetCommand cbs call cmd s = (if fst chk then Some s4
        else case sv_handlers s (cmd_message_id cmd) of None \<Rightarrow> Some s1 | Some h \<Rightarrow> Some (call h ?n (cmd_message cmd) s1))"
      using MESSAGE Some s3(1)
      by (simp add: processNetCommand_def svc_onMessage_def Let_def chk_def [symmetric] s1_def [symmetric] split_beta
          svc_disconnect_def game_onExceedRequestFrequencyLimit_def s2_def [symmetric] game_onDisconnect_def s4_def
          getMessageHandler_def) (simp add: s1_def split: option.split)
    have "conn_step ?M (sv_handlers s) ?n (sv_clock s) cmd (sv_infos s ?n) =
       (if fst chk then ([Exceeded ?n, Disconnected ?n], None)
        else (case sv_handlers s (cmd_message_id cmd) of None \<Rightarrow> [] | Some h \<Rightarrow> [Handled ?n h (cmd_message cmd)], Some (snd chk)))"
      using MESSAGE Some by (simp add: conn_step_def Let_def chk_def [symmetric] split_beta)
    then show ?thesis
      using run out wb s4(2) s3(3) s2(2)
      by (auto simp: served_def well_behaved_def s1_def keeps_def split: option.splits)
  qed
qed (simp_all add: processNetCommand_def conn_step_def served_def keeps_def fun_upd_idem)

subsection \<open>The queue\<close>

text \<open>The commands that one wake-up handles, with the times the clock shows.\<close>

definition batch :: "(nat \<Rightarrow> timestamp) \<Rightarrow> nat \<Rightarrow> 'm net_command list \<Rightarrow> (timestamp \<times> 'm net_command) list" where
  "batch clock n items = zip (map clock (rev [0..<n])) items"

lemma batch_simps [simp]:
  "batch clock 0 items = []" "batch clock n [] = []"
  "batch clock (Suc n) (c # cs) = (clock n, c) # batch clock n cs"
  by (simp_all add: batch_def)

lemma keeps_queue: "keeps s s' \<Longrightarrow> sv_queue s' = sv_queue s"
  by (simp add: keeps_def)

definition sane :: "('u, 'm, 'h, 't, 'w) tcp_service \<Rightarrow> bool" where
  "sane s \<longleftrightarrow> unbounded s \<and> (\<forall>cmd \<in> set (cq_items (mq_queue (sv_queue s))). in_range s cmd)"

lemma serve_one:
  assumes wb: "well_behaved cbs call act" and sane: "sane s" and items: "cq_items (mq_queue (sv_queue s)) = cmd # items"
  obtains q s1 where "mq_pop (sv_queue s) = (Some cmd, q)" "cq_items (mq_queue q) = items"
    "processNetCommand cbs call cmd (s\<lparr>sv_queue := q, sv_clock := t\<rparr>) = Some s1" "sane s1" "sv_queue s1 = q"
    "sv_handlers s1 = sv_handlers s" "sv_max_requests s1 = sv_max_requests s"
    "sv_user s1 = fold act (fst (conn_step (sv_max_requests s) (sv_handlers s) (cmd_id cmd) t cmd (sv_infos s (cmd_id cmd)))) (sv_user s)"
    "sv_infos s1 = (sv_infos s)(cmd_id cmd :=
       snd (conn_step (sv_max_requests s) (sv_handlers s) (cmd_id cmd) t cmd (sv_infos s (cmd_id cmd))))"
proof -
  define q where "q = (sv_queue s)\<lparr>mq_queue := (mq_queue (sv_queue s))\<lparr>cq_items := items\<rparr>\<rparr>"
  define s0 where "s0 = s\<lparr>sv_queue := q, sv_clock := t\<rparr>"
  have ok: "unbounded s0" "in_range s0 cmd"
    using sane items by (simp_all add: sane_def unbounded_def in_range_def s0_def)
  obtain s1 where s1: "processNetCommand cbs call cmd s0 = Some s1"
      "served act (cmd_id cmd) (conn_step (sv_max_requests s0) (sv_handlers s0) (cmd_id cmd) (sv_clock s0) cmd (sv_infos s0 (cmd_id cmd))) s0 s1"
    using processNetCommand_served [OF wb ok] by blast
  have "mq_pop (sv_queue s) = (Some cmd, q)" by (simp add: mq_pop_def popIfNotEmpty_def items q_def)
  moreover have "cq_items (mq_queue q) = items" by (simp add: q_def)
  moreover have "sane s1"
    using s1(2) sane items by (auto simp: sane_def served_def keeps_def unbounded_def in_range_def s0_def q_def)
  ultimately show thesis using s1 by (intro that [of q s1]) (simp_all add: s0_def served_def keeps_def)
qed

lemma conn_step_other:
  "n \<noteq> cmd_id cmd \<Longrightarrow> filter (\<lambda>e. event_id e = n) (fst (conn_step M handlers (cmd_id cmd) t cmd st)) = []"
  using conn_step_ids by (fastforce simp: filter_empty_conv)

lemma conn_step_own: "filter (\<lambda>e. event_id e = n) (fst (conn_step M handlers n t cmd st)) = fst (conn_step M handlers n t cmd st)"
  using conn_step_ids by (fastforce simp: filter_id_conv)

lemma queue_read_served:
  assumes wb: "well_behaved cbs call act"
  shows "sane s \<Longrightarrow> \<exists>s' es. queue_read cbs call clock k s = Some s'
     \<and> cq_items (mq_queue (sv_queue s')) = drop k (cq_items (mq_queue (sv_queue s)))
     \<and> sv_user s' = fold act es (sv_user s)
     \<and> (\<forall>n. (filter (\<lambda>e. event_id e = n) es, sv_infos s' n) =
         conn_trace (sv_max_requests s) (sv_handlers s) n
           (filter (\<lambda>tc. cmd_id (snd tc) = n) (batch clock k (cq_items (mq_queue (sv_queue s))))) (sv_infos s n))"
proof (induction k arbitrary: s)
  case 0
  then show ?case by (intro exI [of _ s] exI [of _ "[]"]) simp
next
  case (Suc k)
  let ?M = "sv_max_requests s" and ?H = "sv_handlers s"
  show ?case
  proof (cases "cq_items (mq_queue (sv_queue s))")
    case Nil
    then show ?thesis by (simp add: mq_pop_def popIfNotEmpty_def) (intro exI [of _ "[]"], simp)
  next
    case (Cons cmd items)
    let ?n = "cmd_id cmd"
    let ?out = "conn_step ?M ?H ?n (clock k) cmd (sv_infos s ?n)"
    obtain q s1 where s1: "mq_pop (sv_queue s) = (Some cmd, q)" "cq_items (mq_queue q) = items"
        "processNetCommand cbs call cmd (s\<lparr>sv_queue := q, sv_clock := clock k\<rparr>) = Some s1" "sane s1" "sv_queue s1 = q"
        "sv_handlers s1 = ?H" "sv_max_requests s1 = ?M" "sv_user s1 = fold act (fst ?out) (sv_user s)"
        "sv_infos s1 = (sv_infos s)(?n := snd ?out)"
      by (rule serve_one [OF wb Suc.prems Cons, of "clock k"])
    obtain s' es where ih: "queue_read cbs call clock k s1 = Some s'"
        "cq_items (mq_queue (sv_queue s')) = drop k items" "sv_user s' = fold act es (sv_user s1)"
        "\<And>n. (filter (\<lambda>e. event_id e = n) es, sv_infos s' n) =
           conn_trace ?M ?H n (filter (\<lambda>tc. cmd_id (snd tc) = n) (batch clock k items)) (sv_infos s1 n)"
      using Suc.IH [OF s1(4)] s1(2,5-7) by auto
    have "(filter (\<lambda>e. event_id e = n) (fst ?out @ es), sv_infos s' n) =
        conn_trace ?M ?H n (filter (\<lambda>tc. cmd_id (snd tc) = n) (batch clock (Suc k) (cmd # items))) (sv_infos s n)" for n
    proof (cases "n = ?n")
      case True
      obtain es0 st0 where out: "?out = (es0, st0)" by (cases ?out)
      then have "filter (\<lambda>e. event_id e = ?n) es0 = es0" using conn_step_own [of ?n ?M ?H "clock k" cmd "sv_infos s ?n"] by simp
      then show ?thesis using ih(4) [of ?n, symmetric] True out by (simp add: s1(9))
    next
      case False
      then have "filter (\<lambda>e. event_id e = n) (fst ?out) = []" by (rule conn_step_other)
      then show ?thesis using ih(4) [of n] False by (simp add: s1(9))
    qed
    then show ?thesis
      using s1(1,3) ih(1-3) s1(8) Cons by (intro exI [of _ s'] exI [of _ "fst ?out @ es"]) auto
  qed
qed

text \<open>
  C4: the main thread serves every connection as if it were alone. With well-behaved callbacks, one wake-up handles the
  first 100 commands of the queue, in order; what the users see of a connection (connected, its messages given to
  their handlers, the request limit exceeded, disconnected) and its entry in the table are those of the
  machine \<open>conn_trace\<close> on that connection's own commands: a message before NEW or after the end is
  dropped, a connection that exceeds the limit is cut off.
\<close>
theorem messages_served:
  assumes "well_behaved cbs call act" and "sane s"
  shows "\<exists>s' es. onClientNetCommandQueueRead cbs call clock s = Some s'
     \<and> cq_items (mq_queue (sv_queue s')) = drop 100 (cq_items (mq_queue (sv_queue s)))
     \<and> sv_user s' = fold act es (sv_user s)
     \<and> (\<forall>n. (filter (\<lambda>e. event_id e = n) es, sv_infos s' n) =
         conn_trace (sv_max_requests s) (sv_handlers s) n
           (filter (\<lambda>tc. cmd_id (snd tc) = n) (batch clock 100 (cq_items (mq_queue (sv_queue s))))) (sv_infos s n))"
  unfolding onClientNetCommandQueueRead_def by (rule queue_read_served [OF assms])

text \<open>A service with one thread and one handler, which keeps the messages it is given.\<close>

definition example_callbacks :: "((unit, byte, unit, unit, byte option list) tcp_service) service_callbacks" where
  "example_callbacks = \<lparr>sc_connect = None, sc_disconnect = None, sc_exceed = None\<rparr>"

definition example_handler ::
  "unit \<Rightarrow> net_id \<Rightarrow> byte option \<Rightarrow> (unit, byte, unit, unit, byte option list) tcp_service \<Rightarrow>
     (unit, byte, unit, unit, byte option list) tcp_service" where
  "example_handler h n m s = s\<lparr>sv_user := sv_user s @ [m]\<rparr>"

definition example_act :: "(unit, byte) service_event \<Rightarrow> byte option list \<Rightarrow> byte option list" where
  "example_act e w = (case e of Handled n h m \<Rightarrow> w @ [m] | _ \<Rightarrow> w)"

definition example_peer :: net_id where
  "example_peer = \<lparr>reactor_id = 0, socket_id = 4294967303\<rparr>"

definition example_commands :: "byte net_command list" where
  "example_commands =
     (let cmd = (\<lambda>typ m. (NetCommand typ)\<lparr>cmd_id := example_peer, cmd_message_id := 1, cmd_message := m\<rparr>)
      in [cmd MESSAGE (Some 4), cmd NEW None, cmd MESSAGE (Some 5), cmd MESSAGE (Some 6), cmd CLOSE None, cmd MESSAGE (Some 7)])"

definition example_service :: "(unit, byte, unit, unit, byte option list) tcp_service" where
  "example_service =
     (let s = TcpService 1 8 (Timestamp 0 0) []
      in s\<lparr>sv_threads := [example_thread (example_kernel [] [] [])], sv_handlers := [1 \<mapsto> ()],
           sv_queue := (sv_queue s)\<lparr>mq_queue := (mq_queue (sv_queue s))\<lparr>cq_items := example_commands\<rparr>\<rparr>\<rparr>)"

lemma example_well_behaved: "well_behaved example_callbacks example_handler example_act"
  by (simp add: well_behaved_def example_callbacks_def call_back_def example_act_def example_handler_def keeps_def)

lemma example_sane: "sane example_service"
  by (simp add: sane_def unbounded_def in_range_def example_service_def example_commands_def example_peer_def Let_def
      example_thread_def example_queue_def ConcurrentQueue_def set_queue_def upd_rest_def ts_def object_at_def set_epoller_def)

text \<open>Handled are the two messages between NEW and CLOSE.\<close>

theorem messages_served_witness:
  "\<exists>s'. onClientNetCommandQueueRead example_callbacks example_handler (\<lambda>_. Timestamp 9 0) example_service = Some s'
     \<and> sv_user s' = [Some 5, Some 6]"
proof -
  let ?H = "[1 \<mapsto> ()] :: int \<rightharpoonup> unit"
  obtain s' es where s': "onClientNetCommandQueueRead example_callbacks example_handler (\<lambda>_. Timestamp 9 0) example_service = Some s'"
      "sv_user s' = fold example_act es []"
      "\<And>n. (filter (\<lambda>e. event_id e = n) es, sv_infos s' n) = conn_trace 0 ?H n
         (filter (\<lambda>tc. cmd_id (snd tc) = n) (batch (\<lambda>_. Timestamp 9 0) 100 example_commands)) None"
    using messages_served [OF example_well_behaved example_sane, of "\<lambda>_. Timestamp 9 0"]
    by (auto simp: example_service_def TcpService_def)
  have items: "batch (\<lambda>_. Timestamp 9 0) 100 example_commands = map (Pair (Timestamp 9 0)) example_commands"
    by (simp add: example_commands_def Let_def numeral_eq_Suc)
  have "filter (\<lambda>e. event_id e = n) es = []" if "n \<noteq> example_peer" for n
  proof -
    have "filter (\<lambda>tc. cmd_id (snd tc) = n) (map (Pair (Timestamp 9 0)) example_commands) = []"
      using that by (simp add: example_commands_def Let_def NetCommand_def)
    then show ?thesis using s'(3) [of n] by (simp add: items)
  qed
  then have "filter (\<lambda>e. event_id e = example_peer) es = es" by (auto simp: filter_id_conv filter_empty_conv)
  moreover have "filter (\<lambda>tc. cmd_id (snd tc) = example_peer) (map (Pair (Timestamp 9 0)) example_commands)
      = map (Pair (Timestamp 9 0)) example_commands"
    by (simp add: example_commands_def Let_def NetCommand_def)
  then have "fst (conn_trace 0 ?H example_peer
      (filter (\<lambda>tc. cmd_id (snd tc) = example_peer) (batch (\<lambda>_. Timestamp 9 0) 100 example_commands)) None)
    = [Connected example_peer, Handled example_peer () (Some 5), Handled example_peer () (Some 6), Disconnected example_peer]"
    by (simp add: items) (simp add: example_commands_def Let_def NetCommand_def conn_step_def)
  ultimately have "es = [Connected example_peer, Handled example_peer () (Some 5), Handled example_peer () (Some 6), Disconnected example_peer]"
    using s'(3) [of example_peer] by (metis fst_conv)
  then show ?thesis using s'(1,2) by (simp add: example_act_def)
qed

subsection \<open>The request limit\<close>

text \<open>Some request among those of one connection exceeds the limit.\<close>

primrec some_exceeds :: "int \<Rightarrow> int list \<Rightarrow> connection_info \<Rightarrow> bool" where
  "some_exceeds M [] info = False"
| "some_exceeds M (t # xs) info =
     (let (exceeded, info1) = checkRequestFrequencyLimit M t info in exceeded \<or> some_exceeds M xs info1)"

lemma some_exceeds_counts:
  assumes "0 \<le> M"
  shows "sorted xs \<Longrightarrow> (\<forall>t \<in> set xs. last_request_second info \<le> t) \<Longrightarrow>
    some_exceeds M xs info \<longleftrightarrow>
      (last_request_second info \<in> set xs \<and> M < requst_per_second info + int (count_list xs (last_request_second info)))
      \<or> (\<exists>t. t \<noteq> last_request_second info \<and> M + 1 < int (count_list xs t))"
proof (induction xs arbitrary: info)
  case Nil
  then show ?case using assms by simp
next
  case (Cons t xs)
  show ?case
  proof (cases "t = last_request_second info")
    case True
    let ?info = "info\<lparr>requst_per_second := requst_per_second info + 1\<rparr>"
    have "some_exceeds M xs ?info \<longleftrightarrow> (t \<in> set xs \<and> M < requst_per_second info + 1 + int (count_list xs t))
        \<or> (\<exists>u. u \<noteq> t \<and> M + 1 < int (count_list xs u))"
      using Cons.prems True by (subst Cons.IH) auto
    moreover have "(\<exists>u. u \<noteq> t \<and> M + 1 < int (count_list (t # xs) u)) \<longleftrightarrow> (\<exists>u. u \<noteq> t \<and> M + 1 < int (count_list xs u))"
      by (simp cong: conj_cong)
    moreover have "M < requst_per_second info + 1 \<or> (t \<in> set xs \<and> M < requst_per_second info + 1 + int (count_list xs t))
        \<longleftrightarrow> M < requst_per_second info + 1 + int (count_list xs t)"
      by (cases "t \<in> set xs") (auto simp: count_notin)
    ultimately show ?thesis
      using True by (simp add: checkRequestFrequencyLimit_def Let_def add.assoc) argo
  next
    case False
    let ?info = "info\<lparr>last_request_second := t, requst_per_second := 0\<rparr>"
    have none: "last_request_second info \<notin> set xs" using Cons.prems False by force
    have "some_exceeds M xs ?info \<longleftrightarrow> (t \<in> set xs \<and> M < int (count_list xs t)) \<or> (\<exists>u. u \<noteq> t \<and> M + 1 < int (count_list xs u))"
      using Cons.prems by (subst Cons.IH) auto
    also have "\<dots> \<longleftrightarrow> (\<exists>u. u \<noteq> last_request_second info \<and> M + 1 < int (count_list (t # xs) u))"
    proof -
      have "u \<noteq> last_request_second info \<and> M + 1 < int (count_list (t # xs) u) \<longleftrightarrow>
          (if u = t then t \<in> set xs \<and> M < int (count_list xs t) else M + 1 < int (count_list xs u))" for u
        using False none assms by (cases "u = t"; cases "u \<in> set xs") (auto simp: count_notin)
      then show ?thesis by auto
    qed
    finally show ?thesis using False none assms by (simp add: checkRequestFrequencyLimit_def Let_def)
  qed
qed

text \<open>
  C24: what the limit on requests allows. For a new connection whose requests come at the seconds \<open>xs\<close> of a clock
  that does not run backwards, some request exceeds the limit if and only if more than \<open>M + 1\<close> of them fall in the
  same second: one more than \<open>max_request_per_second\<close> is let through.
\<close>
theorem request_limit:
  assumes "0 < M" and "sorted xs" and "\<forall>t \<in> set xs. 0 < t"
  shows "some_exceeds M xs \<lparr>last_request_second = 0, requst_per_second = 0\<rparr> \<longleftrightarrow> (\<exists>t. M + 1 < int (count_list xs t))"
proof -
  have "0 \<notin> set xs" using assms(3) by auto
  then have "\<not> M + 1 < int (count_list xs 0)" using assms(1) by (simp add: count_notin)
  then have "(\<exists>t. t \<noteq> 0 \<and> M + 1 < int (count_list xs t)) \<longleftrightarrow> (\<exists>t. M + 1 < int (count_list xs t))" by metis
  then show ?thesis
    using assms \<open>0 \<notin> set xs\<close> by (subst some_exceeds_counts) (auto intro: less_imp_le)
qed

theorem request_limit_witness:
  "some_exceeds 2 [7, 7, 7, 7] \<lparr>last_request_second = 0, requst_per_second = 0\<rparr>
   \<and> \<not> some_exceeds 2 [7, 7, 7] \<lparr>last_request_second = 0, requst_per_second = 0\<rparr>"
proof -
  have "count_list [7, 7, 7] t \<le> 3" for t :: int by simp
  then have "\<not> (\<exists>t :: int. 2 + 1 < int (count_list [7, 7, 7] t))" by (auto simp: not_less simp del: count_list.simps)
  moreover have "\<exists>t :: int. 2 + 1 < int (count_list [7, 7, 7, 7] t)" by (rule exI [of _ 7]) simp
  ultimately show ?thesis using request_limit [of 2 "[7, 7, 7, 7]"] request_limit [of 2 "[7, 7, 7]"] by simp
qed

subsection \<open>Spreading the connections\<close>

lemma least_from_spec:
  assumes "i = length done_counts" and "k < i" and "done_counts ! k = least"
    and "\<forall>j < i. least \<le> done_counts ! j" and "\<forall>j < k. least < done_counts ! j"
  shows "least_from cs i least k < length (done_counts @ cs)
    \<and> (\<forall>j < length (done_counts @ cs). (done_counts @ cs) ! least_from cs i least k \<le> (done_counts @ cs) ! j)
    \<and> (\<forall>j < least_from cs i least k. (done_counts @ cs) ! least_from cs i least k < (done_counts @ cs) ! j)"
  using assms
proof (induction cs arbitrary: done_counts i k least)
  case Nil
  then show ?case by simp
next
  case (Cons c cs)
  have split: "done_counts @ c # cs = (done_counts @ [c]) @ cs" by simp
  have i: "Suc i = length (done_counts @ [c])" using Cons.prems(1) by simp
  show ?case
  proof (cases "c < least")
    case True
    have "least_from cs (Suc i) c i < length ((done_counts @ [c]) @ cs)
      \<and> (\<forall>j < length ((done_counts @ [c]) @ cs). ((done_counts @ [c]) @ cs) ! least_from cs (Suc i) c i \<le> ((done_counts @ [c]) @ cs) ! j)
      \<and> (\<forall>j < least_from cs (Suc i) c i. ((done_counts @ [c]) @ cs) ! least_from cs (Suc i) c i < ((done_counts @ [c]) @ cs) ! j)"
    proof (rule Cons.IH [OF i])
      show "\<forall>j < Suc i. c \<le> (done_counts @ [c]) ! j" "\<forall>j < i. c < (done_counts @ [c]) ! j"
        using True Cons.prems(1,4) by (force simp: nth_append)+
    qed (use Cons.prems(1) in simp_all)
    moreover have "least_from (c # cs) i least k = least_from cs (Suc i) c i" using True by simp
    ultimately show ?thesis unfolding split by metis
  next
    case False
    have "least_from cs (Suc i) least k < length ((done_counts @ [c]) @ cs)
      \<and> (\<forall>j < length ((done_counts @ [c]) @ cs). ((done_counts @ [c]) @ cs) ! least_from cs (Suc i) least k \<le> ((done_counts @ [c]) @ cs) ! j)
      \<and> (\<forall>j < least_from cs (Suc i) least k. ((done_counts @ [c]) @ cs) ! least_from cs (Suc i) least k < ((done_counts @ [c]) @ cs) ! j)"
    proof (rule Cons.IH [OF i])
      show "\<forall>j < Suc i. least \<le> (done_counts @ [c]) ! j" "\<forall>j < k. least < (done_counts @ [c]) ! j"
        using False Cons.prems by (force simp: nth_append less_Suc_eq)+
    qed (use Cons.prems in \<open>simp_all add: nth_append\<close>)
    moreover have "least_from (c # cs) i least k = least_from cs (Suc i) least k" using False by simp
    ultimately show ?thesis unfolding split by metis
  qed
qed

lemma least_loaded_first_minimum:
  assumes "least_loaded counts = Some i"
  shows "i < length counts" "\<forall>j < length counts. counts ! i \<le> counts ! j" "\<forall>j < i. counts ! i < counts ! j"
proof -
  obtain c cs where counts: "counts = c # cs" and i: "i = least_from cs 1 c 0"
    using assms by (auto simp: least_loaded_def split: list.splits)
  show "i < length counts" "\<forall>j < length counts. counts ! i \<le> counts ! j" "\<forall>j < i. counts ! i < counts ! j"
    using least_from_spec [of 1 "[c]" 0 c cs] by (simp_all add: counts i)
qed

lemma nt_attach_count:
  assumes "nt_attach peer r = Some r'"
  shows "getConnectionNum r \<le> getConnectionNum r'" "getConnectionNum r' \<le> Suc (getConnectionNum r)"
proof -
  obtain ok r1 where r1: "er_attachSocket peer r = Some (ok, r1)" and r': "r' = sendNetCommandNew (dev_id peer) r1"
    using assms by (auto simp: nt_attach_def split: bind_splits)
  have "getConnectionNum r' = getConnectionNum r1"
    by (simp add: r' sendNetCommandNew_def nt_emit_def upd_rest_def getConnectionNum_def)
  moreover have "rx_connections r1 = rx_connections r \<or>
      (\<exists>c. rx_connections r (dev_id peer) = None \<and> rx_connections r1 = (rx_connections r)(dev_id peer \<mapsto> c))"
    using r1
    by (auto simp: er_attachSocket_def attachIOService_def detachIOService_def er_addIODevice_def er_removeIODevice_def
        ep_add_def ep_del_def ctl_add_def ctl_del_def set_epoller_def object_at_def Let_def
        split: if_splits prod.splits bind_splits)
  moreover have "card (dom m) \<le> card (dom (m(x \<mapsto> c))) \<and> card (dom (m(x \<mapsto> c))) \<le> Suc (card (dom m))"
    if "m x = None" for m :: "int \<rightharpoonup> tcp_connection" and x c
    by (cases "finite (dom m)") (simp_all add: card_insert_if)
  ultimately show "getConnectionNum r \<le> getConnectionNum r'" "getConnectionNum r' \<le> Suc (getConnectionNum r)"
    by (auto simp: getConnectionNum_def)
qed

definition balanced :: "nat list \<Rightarrow> bool" where
  "balanced counts \<longleftrightarrow> (\<forall>i < length counts. \<forall>j < length counts. counts ! i \<le> Suc (counts ! j))"

abbreviation counts_of :: "('u, 'm, 'h, 't, 'w) tcp_service \<Rightarrow> nat list" where
  "counts_of s \<equiv> map getConnectionNum (sv_threads s)"

lemma getConnectionNum_rest [simp]: "getConnectionNum (upd_rest f r) = getConnectionNum r"
  by (simp add: getConnectionNum_def upd_rest_def)

lemma push_client_commands_threads: "push_client_commands cs s = Some s' \<Longrightarrow> sv_threads s' = sv_threads s"
  by (induction cs arbitrary: s) (auto simp: pushClientNetCommand_def split: bind_splits)

lemma push_client_commands_queue:
  "push_client_commands cs s = Some s' \<Longrightarrow> cq_items (mq_queue (sv_queue s')) = cq_items (mq_queue (sv_queue s)) @ cs"
  by (induction cs arbitrary: s)
    (auto simp: pushClientNetCommand_def mq_push_def cq_push_def split: bind_splits if_splits)

lemma onNewConnCallback_threads:
  assumes "onNewConnCallback peer s = Some s'"
  obtains i r where "least_loaded (counts_of s) = Some i" "nt_attach peer (sv_threads s ! i) = Some r"
    "sv_threads s' = (sv_threads s)[i := upd_rest (\<lambda>t. t\<lparr>nt_emitted := []\<rparr>) r]"
    "cq_items (mq_queue (sv_queue s')) = cq_items (mq_queue (sv_queue s)) @ nt_emitted (ts r)"
proof -
  obtain i r where i: "least_loaded (counts_of s) = Some i" and r: "nt_attach peer (sv_threads s ! i) = Some r"
      and s': "deliver i (s\<lparr>sv_threads := (sv_threads s)[i := r]\<rparr>) = Some s'"
    using assms by (auto simp: onNewConnCallback_def split: bind_splits)
  have "i < length (sv_threads s)" using least_loaded_first_minimum(1) [OF i] by simp
  then show thesis
    using push_client_commands_threads s' push_client_commands_queue [OF s' [unfolded deliver_def]]
    by (intro that [OF i r]) (fastforce simp: deliver_def, simp)
qed

text \<open>A thread takes a new socket when no socket of it has the id and its multiplexer has room for the descriptor.\<close>

definition takes_socket :: "tcp_socket \<Rightarrow> ('u, 'm, 'z) net_thread_scheme \<Rightarrow> bool" where
  "takes_socket peer r \<longleftrightarrow> rx_sockets r (dev_id peer) = None \<and> ep_fd (the_epoller r) \<noteq> -1 \<and> 0 \<le> dev_fd peer
     \<and> ek_interest (the_epoller r) (dev_fd peer) = None \<and> card (dom (ek_interest (the_epoller r))) < ek_max_watches (the_epoller r)"

lemma nt_attach_effect:
  assumes peer: "\<not> dev_attached peer" "\<not> dev_write_cb peer" and r: "nt_attach peer r = Some r'"
    and inv: "thread_inv {} r" "finite (dom (rx_connections r))"
  shows "nt_emitted (ts r') = nt_emitted (ts r) @ [own_command NEW (dev_id peer) r]"
    "if takes_socket peer r
     then rx_sockets r' = (rx_sockets r)(dev_id peer \<mapsto> peer\<lparr>dev_read_cb := True, dev_error_cb := True, dev_attached := True\<rparr>)
       \<and> (\<exists>c. rx_connections r' = (rx_connections r)(dev_id peer \<mapsto> c) \<and> tc_status c = CONNECTED)
       \<and> ek_interest (the_epoller r') = (ek_interest (the_epoller r))(dev_fd peer \<mapsto> (dev_ptr peer, {EPOLLIN, EPOLLPRI}))
       \<and> getConnectionNum r' = Suc (getConnectionNum r)
     else rx_sockets r' = rx_sockets r \<and> rx_connections r' = rx_connections r \<and> the_epoller r' = the_epoller r"
proof -
  obtain ok r1 where r1: "er_attachSocket peer r = Some (ok, r1)" and r': "r' = sendNetCommandNew (dev_id peer) r1"
    using r by (auto simp: nt_attach_def split: bind_splits)
  have ok: "ok = takes_socket peer r"
    using r1 peer by (auto simp: er_attachSocket_def attachIOService_def er_addIODevice_def ep_add_def ctl_add_def takes_socket_def
        simp del: not_None_eq split: if_splits bind_splits)
  have none: "rx_connections r (dev_id peer) = None" if "rx_sockets r (dev_id peer) = None"
    using inv(1) that by (auto simp: thread_inv_def reactor_inv_def)
  from peer r1 have "nt_emitted (ts r') = nt_emitted (ts r) @ [own_command NEW (dev_id peer) r]
    \<and> (if takes_socket peer r
     then rx_sockets r' = (rx_sockets r)(dev_id peer \<mapsto> peer\<lparr>dev_read_cb := True, dev_error_cb := True, dev_attached := True\<rparr>)
       \<and> (\<exists>c. rx_connections r' = (rx_connections r)(dev_id peer \<mapsto> c) \<and> tc_status c = CONNECTED)
       \<and> ek_interest (the_epoller r') = (ek_interest (the_epoller r))(dev_fd peer \<mapsto> (dev_ptr peer, {EPOLLIN, EPOLLPRI}))
       \<and> getConnectionNum r' = Suc (getConnectionNum r)
     else rx_sockets r' = rx_sockets r \<and> rx_connections r' = rx_connections r \<and> the_epoller r' = the_epoller r)"
  proof (cases rule: er_attachSocket_cases)
    case refused
    then show ?thesis using ok by (simp add: r' sendNetCommandNew_def nt_emit_def own_command_def)
  next
    case (attached connection)
    have "card (insert (dev_id peer) (dom (rx_connections r))) = Suc (card (dom (rx_connections r)))"
      using none [OF attached(2)] inv(2) by (simp add: card_insert_if domIff)
    then show ?thesis using ok attached(1,6-10) none [OF attached(2)]
      by (auto simp: r' sendNetCommandNew_def nt_emit_def own_command_def getConnectionNum_def)
  qed
  then show "nt_emitted (ts r') = nt_emitted (ts r) @ [own_command NEW (dev_id peer) r]"
    "if takes_socket peer r
     then rx_sockets r' = (rx_sockets r)(dev_id peer \<mapsto> peer\<lparr>dev_read_cb := True, dev_error_cb := True, dev_attached := True\<rparr>)
       \<and> (\<exists>c. rx_connections r' = (rx_connections r)(dev_id peer \<mapsto> c) \<and> tc_status c = CONNECTED)
       \<and> ek_interest (the_epoller r') = (ek_interest (the_epoller r))(dev_fd peer \<mapsto> (dev_ptr peer, {EPOLLIN, EPOLLPRI}))
       \<and> getConnectionNum r' = Suc (getConnectionNum r)
     else rx_sockets r' = rx_sockets r \<and> rx_connections r' = rx_connections r \<and> the_epoller r' = the_epoller r" by blast+
qed

lemma least_plus_one_balanced:
  assumes "balanced counts" and "i < length counts" and "\<forall>j < length counts. counts ! i \<le> counts ! j"
    and new: "n = counts ! i \<or> n = Suc (counts ! i)"
  shows "balanced (counts[i := n])"
  unfolding balanced_def
proof (intro allI impI)
  fix a b
  assume "a < length (counts[i := n])" "b < length (counts[i := n])"
  then have ab: "a < length counts" "b < length counts" by simp_all
  then have "counts ! a \<le> Suc (counts ! b)" "counts ! i \<le> counts ! b" "counts ! a \<le> Suc (counts ! i)"
    using assms(1-3) by (auto simp: balanced_def)
  then show "counts[i := n] ! a \<le> Suc (counts[i := n] ! b)"
    using new ab assms(2) by (auto simp: nth_list_update)
qed

text \<open>
  C25: connections are spread evenly. \<open>onNewConnCallback\<close> attaches a new socket to the first of the threads with the fewest
  connections and leaves the other threads alone. If that thread takes it - the id is not in use there, and its multiplexer
  has room - the socket is one of its sockets with its callbacks set, is watched, and has a connection that is
  \<open>CONNECTED\<close>, one more than the thread had; otherwise the thread is as it was. In both cases the command \<open>NEW\<close> of that
  thread for the socket goes to the service's queue, behind whatever the thread had to say before. If the numbers of
  connections differed by at most one before, they do afterwards.
\<close>
theorem connections_balanced:
  assumes "onNewConnCallback peer s = Some s'" and "balanced (counts_of s)"
    and peer: "\<not> dev_attached peer" "\<not> dev_write_cb peer"
    and inv: "\<forall>r \<in> set (sv_threads s). thread_inv {} r \<and> finite (dom (rx_connections r))"
  shows "balanced (counts_of s')
    \<and> (\<exists>i < length (sv_threads s). (\<forall>j < length (sv_threads s). counts_of s ! i \<le> counts_of s ! j)
         \<and> (\<forall>j < i. counts_of s ! i < counts_of s ! j)
         \<and> length (sv_threads s') = length (sv_threads s)
         \<and> (\<forall>j < length (sv_threads s). j \<noteq> i \<longrightarrow> sv_threads s' ! j = sv_threads s ! j)
         \<and> (let r = sv_threads s ! i; r' = sv_threads s' ! i in
            (if takes_socket peer r
             then rx_sockets r' = (rx_sockets r)(dev_id peer \<mapsto> peer\<lparr>dev_read_cb := True, dev_error_cb := True, dev_attached := True\<rparr>)
               \<and> (\<exists>c. rx_connections r' = (rx_connections r)(dev_id peer \<mapsto> c) \<and> tc_status c = CONNECTED)
               \<and> ek_interest (the_epoller r') = (ek_interest (the_epoller r))(dev_fd peer \<mapsto> (dev_ptr peer, {EPOLLIN, EPOLLPRI}))
               \<and> counts_of s' ! i = Suc (counts_of s ! i)
             else rx_sockets r' = rx_sockets r \<and> rx_connections r' = rx_connections r \<and> the_epoller r' = the_epoller r)
            \<and> cq_items (mq_queue (sv_queue s'))
              = cq_items (mq_queue (sv_queue s)) @ nt_emitted (ts r) @ [own_command NEW (dev_id peer) r]))"
proof (rule onNewConnCallback_threads [OF assms(1)])
  fix i r
  assume i: "least_loaded (counts_of s) = Some i" and r: "nt_attach peer (sv_threads s ! i) = Some r"
    and threads: "sv_threads s' = (sv_threads s)[i := upd_rest (\<lambda>t. t\<lparr>nt_emitted := []\<rparr>) r]"
    and queue: "cq_items (mq_queue (sv_queue s')) = cq_items (mq_queue (sv_queue s)) @ nt_emitted (ts r)"
  note least = least_loaded_first_minimum [OF i]
  have len: "i < length (sv_threads s)" using least(1) by simp
  then have "thread_inv {} (sv_threads s ! i)" "finite (dom (rx_connections (sv_threads s ! i)))" using inv by auto
  note eff = nt_attach_effect [OF peer r this]
  have counts: "counts_of s' = (counts_of s)[i := getConnectionNum r]" by (simp add: threads map_update)
  have "getConnectionNum r = counts_of s ! i \<or> getConnectionNum r = Suc (counts_of s ! i)"
    using nt_attach_count [OF r] len by auto
  from least_plus_one_balanced [OF assms(2) least(1,2) this] have "balanced (counts_of s')" unfolding counts .
  moreover have "length (sv_threads s') = length (sv_threads s)"
    "\<forall>j < length (sv_threads s). j \<noteq> i \<longrightarrow> sv_threads s' ! j = sv_threads s ! j"
    "sv_threads s' ! i = upd_rest (\<lambda>t. t\<lparr>nt_emitted := []\<rparr>) r" using len by (simp_all add: threads)
  ultimately show ?thesis using least(2,3) len eff queue
    by (intro conjI exI [of _ i]) (simp_all add: Let_def split: if_splits)
qed

text \<open>Two threads without connections.\<close>

definition two_threads :: "(unit, byte, unit, unit, unit) tcp_service" where
  "two_threads = (TcpService 2 8 (Timestamp 0 0) ())\<lparr>sv_threads := [example_thread (example_kernel [] [] []), example_thread (example_kernel [] [] [])]\<rparr>"

lemma push_client_commands_some: "\<not> cq_bounded (mq_queue (sv_queue s)) \<Longrightarrow> \<exists>s'. push_client_commands cs s = Some s'"
  by (induction cs arbitrary: s) (simp_all add: pushClientNetCommand_def mq_push_def cq_push_def fullNoLock_def)

lemma sizes_frame [simp]:
  "rx_read_init (set_epoller e r) = rx_read_init r" "rx_read_init (upd_rest f r) = rx_read_init r" "rx_read_init (object_at p x r) = rx_read_init r"
  "rx_read_expand (set_epoller e r) = rx_read_expand r" "rx_read_expand (upd_rest f r) = rx_read_expand r" "rx_read_expand (object_at p x r) = rx_read_expand r"
  "rx_write_init (set_epoller e r) = rx_write_init r" "rx_write_init (upd_rest f r) = rx_write_init r" "rx_write_init (object_at p x r) = rx_write_init r"
  "rx_write_expand (set_epoller e r) = rx_write_expand r" "rx_write_expand (upd_rest f r) = rx_write_expand r" "rx_write_expand (object_at p x r) = rx_write_expand r"
  by (simp_all add: set_epoller_def upd_rest_def object_at_def)

lemma example_attach: "\<exists>r. nt_attach ((IODevice 12)\<lparr>dev_id := 7, dev_fd := 7\<rparr>) (example_thread k) = Some r"
proof -
  have sizes: "rx_read_init (example_base k) = 1024" "rx_read_expand (example_base k) = 1024"
      "rx_write_init (example_base k) = 1024" "rx_write_expand (example_base k) = 1024"
    by (simp_all add: example_base_def setRecvBufferInitSize_def setRecvBufferExpandSize_def setRecvBufferMaxSize_def
        setSendBufferInitSize_def setSendBufferExpandSize_def setSendBufferMaxSize_def)
  show ?thesis
    by (simp add: nt_attach_def er_attachSocket_def example_thread_def attachIOService_def er_addIODevice_def ep_add_def ctl_add_def
        TcpConnection_def DynamicBuffer_def vec_alloc_def vec_max_def IODevice_def set_queue_def sizes)
qed

lemma example_thread_state:
  "thread_inv {} (example_thread k)" "rx_sockets (example_thread k) = Map.empty" "rx_connections (example_thread k) = Map.empty"
  "nt_emitted (ts (example_thread k)) = []" "ep_fd (the_epoller (example_thread k)) = 3"
  "ek_interest (the_epoller (example_thread k)) = [5 \<mapsto> (9, {EPOLLIN, EPOLLPRI})]" "ek_max_watches (the_epoller (example_thread k)) = 10"
  "nt_id (ts (example_thread k)) = 1"
proof -
  show "thread_inv {} (example_thread k)"
    by (rule nt_init_inv [OF _ example_thread_init(2)]) (simp add: example_state_def)
qed (simp_all add: example_thread_def example_state_def set_queue_def)

text \<open>Two threads without connections: the first takes the socket, and \<open>NEW\<close> waits for the service.\<close>

theorem connections_balanced_witness:
  "\<exists>s'. onNewConnCallback ((IODevice 12)\<lparr>dev_id := 7, dev_fd := 7\<rparr>) two_threads = Some s' \<and> balanced (counts_of s')
     \<and> counts_of s' = [1, 0] \<and> rx_connections (sv_threads s' ! 0) 7 \<noteq> None \<and> rx_sockets (sv_threads s' ! 0) 7 \<noteq> None
     \<and> map cmd_type (cq_items (mq_queue (sv_queue s'))) = [NEW]"
proof -
  let ?peer = "(IODevice 12)\<lparr>dev_id := 7, dev_fd := 7\<rparr>" and ?t = "example_thread (example_kernel [] [] []) :: (unit, byte) net_thread"
  have threads: "sv_threads two_threads = [?t, ?t]" by (simp add: two_threads_def)
  have counts: "counts_of two_threads = [0, 0]" by (simp add: threads getConnectionNum_def example_thread_state)
  obtain r where r: "nt_attach ?peer ?t = Some r" using example_attach by blast
  have "\<exists>s'. onNewConnCallback ?peer two_threads = Some s'"
    unfolding onNewConnCallback_def counts
    by (simp add: least_loaded_def two_threads_def r deliver_def TcpService_def MessageQueue_def ConcurrentQueue_def
        push_client_commands_some)
  then obtain s' where s': "onNewConnCallback ?peer two_threads = Some s'" by blast
  have "balanced (counts_of two_threads)" by (simp add: counts balanced_def less_Suc_eq)
  note result = connections_balanced [OF s' this]
  have hyps: "\<not> dev_attached ?peer" "\<not> dev_write_cb ?peer"
    "\<forall>r \<in> set (sv_threads two_threads). thread_inv {} r \<and> finite (dom (rx_connections r))"
    by (simp_all add: IODevice_def threads example_thread_state)
  have takes: "takes_socket ?peer ?t" by (simp add: takes_socket_def example_thread_state IODevice_def)
  have nth: "sv_threads two_threads ! j = ?t" if "j < 2" for j
    using that by (auto simp: threads nth_Cons' less_2_cases_iff)
  obtain i where i': "i < length (sv_threads two_threads)" "\<forall>j < i. counts_of two_threads ! i < counts_of two_threads ! j"
    "length (sv_threads s') = length (sv_threads two_threads)"
    "\<forall>j < length (sv_threads two_threads). j \<noteq> i \<longrightarrow> sv_threads s' ! j = sv_threads two_threads ! j"
    and new: "let r = sv_threads two_threads ! i; r' = sv_threads s' ! i in
            (if takes_socket ?peer r
             then rx_sockets r' = (rx_sockets r)(dev_id ?peer \<mapsto> ?peer\<lparr>dev_read_cb := True, dev_error_cb := True, dev_attached := True\<rparr>)
               \<and> (\<exists>c. rx_connections r' = (rx_connections r)(dev_id ?peer \<mapsto> c) \<and> tc_status c = CONNECTED)
               \<and> ek_interest (the_epoller r') = (ek_interest (the_epoller r))(dev_fd ?peer \<mapsto> (dev_ptr ?peer, {EPOLLIN, EPOLLPRI}))
               \<and> counts_of s' ! i = Suc (counts_of two_threads ! i)
             else rx_sockets r' = rx_sockets r \<and> rx_connections r' = rx_connections r \<and> the_epoller r' = the_epoller r)
            \<and> cq_items (mq_queue (sv_queue s'))
              = cq_items (mq_queue (sv_queue two_threads)) @ nt_emitted (ts r) @ [own_command NEW (dev_id ?peer) r]"
    using result [OF hyps] by blast
  have two: "length (sv_threads two_threads) = 2" by (simp add: threads)
  have i: "i < 2" "\<forall>j < i. counts_of two_threads ! i < counts_of two_threads ! j" "length (sv_threads s') = 2"
    "\<forall>j < 2. j \<noteq> i \<longrightarrow> sv_threads s' ! j = ?t" and same: "sv_threads two_threads ! i = ?t"
    using i' nth unfolding two by auto
  have zero: "counts_of two_threads ! i = 0" using i(1) by (auto simp: counts nth_Cons' less_2_cases_iff)
  have i5: "rx_sockets (sv_threads s' ! i) 7 \<noteq> None" "rx_connections (sv_threads s' ! i) 7 \<noteq> None" "counts_of s' ! i = 1"
    "cq_items (mq_queue (sv_queue s')) = [own_command NEW 7 ?t]"
    using new takes unfolding same zero
    by (auto simp: Let_def example_thread_state two_threads_def TcpService_def MessageQueue_def ConcurrentQueue_def IODevice_def)
  have i0: "i = 0" using i(1,2) by (cases i) (auto simp: counts)
  have "sv_threads s' ! 1 = ?t" using i(4) i0 by simp
  then have "counts_of s' = [1, 0]"
    using i(3) i5(3) i0 by (cases "sv_threads s'"; cases "tl (sv_threads s')") (auto simp: getConnectionNum_def example_thread_state)
  then show ?thesis using result [OF hyps] s' i5(1,2,4) i0 by (intro exI [of _ s']) (simp add: own_command_def NetCommand_def)
qed

end
