(* ===== verification/Service_Loop.thy ===== *)
theory Service_Loop
  imports Service_Flow
begin

text \<open>
  The event loop of the main thread: its multiplexer has one device, the pipe of the command queue, and with callbacks that
  leave the multiplexer and that pipe alone the loop never uses a device or a callback that is not there.
\<close>

subsection \<open>The invariant\<close>

definition svc_inv :: "('u, 'm, 'h, 't, 'w) tcp_service \<Rightarrow> bool" where
  "svc_inv s \<longleftrightarrow> dev_read_cb (sp_device (mq_pipe (sv_queue s))) \<and>
     (case sv_epoll s of None \<Rightarrow> False
      | Some es \<Rightarrow> \<forall>fd p w. ek_interest (es_epoller es) fd = Some (p, w) \<longrightarrow>
          p = dev_ptr (sp_device (mq_pipe (sv_queue s))) \<and> w \<subseteq> {EPOLLIN, EPOLLPRI})"

text \<open>The registrations and the device, which is all the invariant looks at, and a part \<open>v\<close> of the user's state.\<close>

definition same_loop :: "('w \<Rightarrow> 'v) \<Rightarrow> ('u, 'm, 'h, 't, 'w) tcp_service \<Rightarrow> ('u, 'm, 'h, 't, 'w) tcp_service \<Rightarrow> bool" where
  "same_loop v s s' \<longleftrightarrow> map_option (\<lambda>es. ek_interest (es_epoller es)) (sv_epoll s') = map_option (\<lambda>es. ek_interest (es_epoller es)) (sv_epoll s)
     \<and> sp_device (mq_pipe (sv_queue s')) = sp_device (mq_pipe (sv_queue s)) \<and> v (sv_user s') = v (sv_user s)"

lemma same_loop_refl [simp]: "same_loop v s s"
  by (simp add: same_loop_def)

lemma same_loop_trans: "same_loop v s s1 \<Longrightarrow> same_loop v s1 s2 \<Longrightarrow> same_loop v s s2"
  by (simp add: same_loop_def)

lemma svc_inv_same: "same_loop v s s' \<Longrightarrow> svc_inv s \<Longrightarrow> svc_inv s'"
  by (cases "sv_epoll s"; cases "sv_epoll s'") (auto simp: same_loop_def svc_inv_def)

definition quiet ::
  "('w \<Rightarrow> 'v) \<Rightarrow> (('u, 'm, 'h, 't, 'w) tcp_service) service_callbacks \<Rightarrow>
   ('h \<Rightarrow> net_id \<Rightarrow> 'm option \<Rightarrow> ('u, 'm, 'h, 't, 'w) tcp_service \<Rightarrow> ('u, 'm, 'h, 't, 'w) tcp_service) \<Rightarrow>
   ('t \<Rightarrow> timer_id \<Rightarrow> ('u, 'm, 'h, 't, 'w) tcp_service \<Rightarrow> ('u, 'm, 'h, 't, 'w) tcp_service) \<Rightarrow> bool" where
  "quiet v cbs call user \<longleftrightarrow> (\<forall>n s. same_loop v s (call_back (sc_connect cbs) n s)) \<and> (\<forall>n s. same_loop v s (call_back (sc_disconnect cbs) n s))
     \<and> (\<forall>n s. same_loop v s (call_back (sc_exceed cbs) n s)) \<and> (\<forall>h n m s. same_loop v s (call h n m s))
     \<and> (\<forall>cb i s. same_loop v s (user cb i s))"

lemma same_loop_infos [simp]: "same_loop v s (s'\<lparr>sv_infos := f\<rparr>) = same_loop v s s'" "same_loop v s (s'\<lparr>sv_threads := rs\<rparr>) = same_loop v s s'"
  "same_loop v s (s'\<lparr>sv_clock := t\<rparr>) = same_loop v s s'" "same_loop v (s\<lparr>sv_infos := f\<rparr>) s' = same_loop v s s'"
  by (simp_all add: same_loop_def)

lemma same_loop_push: "svc_push cmd s = Some s' \<Longrightarrow> same_loop v s s'"
  by (auto simp: svc_push_def Let_def split: if_splits bind_splits)

lemma same_loop_connect: "quiet v cbs call user \<Longrightarrow> same_loop v s (game_onConnect cbs n s)"
  by (rule same_loop_trans [of _ _ "svc_onConnect n s"]) (simp add: svc_onConnect_def, simp add: game_onConnect_def quiet_def)

lemma same_loop_disconnect: "quiet v cbs call user \<Longrightarrow> same_loop v s (game_onDisconnect cbs n s)"
  by (rule same_loop_trans [of _ _ "svc_onDisconnect n s"]) (simp add: svc_onDisconnect_def, simp add: game_onDisconnect_def quiet_def)

lemma same_loop_close:
  assumes "quiet v cbs call user" and "svc_disconnect cbs n s = Some s'"
  shows "same_loop v s s'"
proof -
  obtain s1 where "svc_push ((NetCommand CLOSE)\<lparr>cmd_id := n\<rparr>) s = Some s1" "s' = game_onDisconnect cbs n s1"
    using assms(2) by (auto simp: svc_disconnect_def split: bind_splits)
  then show ?thesis using same_loop_trans [OF same_loop_push same_loop_disconnect [OF assms(1)]] by blast
qed

lemma same_loop_process:
  assumes q: "quiet v cbs call user" and "processNetCommand cbs call cmd s = Some s'"
  shows "same_loop v s s'"
proof (cases "cmd_type cmd")
  case MESSAGE
  let ?n = "cmd_id cmd"
  show ?thesis
  proof (cases "sv_infos s ?n")
    case None
    then show ?thesis using assms(2) MESSAGE by (simp add: processNetCommand_def svc_onMessage_def)
  next
    case (Some info)
    define chk where "chk = (if 0 < sv_max_requests s then checkRequestFrequencyLimit (sv_max_requests s) (second (sv_clock s)) info
      else (False, info))"
    define s1 where "s1 = s\<lparr>sv_infos := (sv_infos s)(?n \<mapsto> snd chk)\<rparr>"
    have s1: "same_loop v s s1" by (simp add: s1_def)
    have "processNetCommand cbs call cmd s =
        (if fst chk then svc_disconnect cbs ?n (game_onExceedRequestFrequencyLimit cbs ?n s1)
         else case getMessageHandler (cmd_message_id cmd) s1 of None \<Rightarrow> Some s1 | Some h \<Rightarrow> Some (call h ?n (cmd_message cmd) s1))"
      using MESSAGE Some
      by (simp add: processNetCommand_def svc_onMessage_def Let_def chk_def [symmetric] split_beta s1_def split: option.split)
    then have run: "(if fst chk then svc_disconnect cbs ?n (game_onExceedRequestFrequencyLimit cbs ?n s1)
        else case getMessageHandler (cmd_message_id cmd) s1 of None \<Rightarrow> Some s1 | Some h \<Rightarrow> Some (call h ?n (cmd_message cmd) s1)) = Some s'"
      using assms(2) by simp
    have called: "same_loop v s (game_onExceedRequestFrequencyLimit cbs ?n s1)" "same_loop v s (call h ?n m s1)" for h m
      using q by (auto simp: game_onExceedRequestFrequencyLimit_def quiet_def intro: same_loop_trans [OF s1])
    show ?thesis
    proof (cases "fst chk")
      case True
      then show ?thesis using run same_loop_trans [OF called(1) same_loop_close [OF q]] by simp
    next
      case False
      then show ?thesis using run s1 called(2) by (auto split: option.splits)
    qed
  qed
qed (use assms same_loop_connect [OF q] same_loop_disconnect [OF q] in \<open>auto simp: processNetCommand_def\<close>)

lemma same_loop_queue_read:
  assumes q: "quiet v cbs call user"
  shows "queue_read cbs call clock k s = Some s' \<Longrightarrow> same_loop v s s'"
proof (induction k arbitrary: s)
  case 0
  then show ?case by simp
next
  case (Suc k)
  obtain x items where pop: "mq_pop (sv_queue s) = (x, items)" by (cases "mq_pop (sv_queue s)")
  have dev: "sp_device (mq_pipe items) = sp_device (mq_pipe (sv_queue s))"
    using pop by (auto simp: mq_pop_def split: prod.splits)
  show ?case
  proof (cases x)
    case None
    then show ?thesis using Suc.prems pop dev by (auto simp: same_loop_def)
  next
    case (Some cmd)
    let ?s = "s\<lparr>sv_queue := items, sv_clock := clock k\<rparr>"
    obtain s1 where s1: "processNetCommand cbs call cmd ?s = Some s1" "queue_read cbs call clock k s1 = Some s'"
      using Suc.prems pop Some by (auto split: bind_splits)
    have "same_loop v s ?s" using dev by (simp add: same_loop_def)
    then show ?thesis using same_loop_trans same_loop_process [OF q s1(1)] Suc.IH [OF s1(2)] by blast
  qed
qed

lemma mq_drain_device: "mq_drain q = Some q' \<Longrightarrow> sp_device (mq_pipe q') = sp_device (mq_pipe q)"
proof -
  have "sp_drain q = Some q1 \<Longrightarrow> sp_device q1 = sp_device q" for q q1
  proof (induction q rule: sp_drain.induct)
    case (1 q)
    then show ?case
      by (subst (asm) (2) sp_drain.simps) (auto simp: sp_read_def split: option.splits if_splits)
  qed
  then show "mq_drain q = Some q' \<Longrightarrow> sp_device (mq_pipe q') = sp_device (mq_pipe q)" by (auto simp: mq_drain_def)
qed

lemma same_loop_pipe:
  assumes "quiet v cbs call user" and "svc_pipeRead cbs call clock s = Some s'"
  shows "same_loop v s s'"
proof -
  obtain q where q: "mq_drain (sv_queue s) = Some q" "queue_read cbs call clock 100 (s\<lparr>sv_queue := q\<rparr>) = Some s'"
    using assms(2) by (auto simp: svc_pipeRead_def onClientNetCommandQueueRead_def split: bind_splits)
  have "same_loop v s (s\<lparr>sv_queue := q\<rparr>)" using mq_drain_device [OF q(1)] by (simp add: same_loop_def)
  then show ?thesis using same_loop_queue_read [OF assms(1) q(2)] by (rule same_loop_trans)
qed

lemma same_loop_put [simp]: "same_loop v s (svc_set_epoll (\<lambda>es. es\<lparr>is_timers := h\<rparr>) s') = same_loop v s s'"
  "same_loop v s (svc_set_epoll (\<lambda>es. es\<lparr>is_quit := b\<rparr>) s') = same_loop v s s'"
  by (cases "sv_epoll s'"; simp add: same_loop_def svc_set_epoll_def)+

lemma same_loop_checkTimeout:
  fixes s s' :: "('u, 'm, 'h, 't, 'w) tcp_service"
  assumes q: "quiet v cbs call user" and "svc_checkTimeout user now s = Some s'"
  shows "same_loop v s s'"
proof -
  define tm where "tm = (\<lambda>s :: ('u, 'm, 'h, 't, 'w) tcp_service. case sv_epoll s of None \<Rightarrow> TimerHeap | Some es \<Rightarrow> is_timers es)"
  define run where "run = (\<lambda>cb i (h, s). let s1 = user cb i (svc_set_epoll (\<lambda>es. es\<lparr>is_timers := h\<rparr>) s) in (tm s1, s1))"
  have step: "same_loop v s0 (snd (run cb i hs))" if "same_loop v s0 (snd hs)" for s0 cb i hs
  proof -
    have "same_loop v s0 (svc_set_epoll (\<lambda>es. es\<lparr>is_timers := fst hs\<rparr>) (snd hs))" using that by simp
    moreover have "same_loop v (svc_set_epoll (\<lambda>es. es\<lparr>is_timers := fst hs\<rparr>) (snd hs)) (snd (run cb i hs))"
      using q by (simp add: run_def Let_def split_beta quiet_def)
    ultimately show ?thesis by (rule same_loop_trans)
  qed
  have keep: "same_loop v s0 (snd out)" if "checkTimeout run now hs = Some out" and "same_loop v s0 (snd hs)" for hs out s0
    by (rule checkTimeout_keeps [OF step that])
  obtain h s1 where "checkTimeout run now (tm s, s) = Some (h, s1)" "s' = svc_set_epoll (\<lambda>es. es\<lparr>is_timers := h\<rparr>) s1"
    using assms(2) by (auto simp: svc_checkTimeout_def Let_def run_def tm_def split: bind_splits)
  then show ?thesis using keep [of "(tm s, s)" "(h, s1)" s] by simp
qed

subsection \<open>The loop\<close>

text \<open>
  What the kernel answers: a failure, or events of the pipe at \<open>p\<close>, none of them an error, as its write end stays open.
\<close>

definition pipe_events :: "int \<Rightarrow> (int \<times> epoll_events) set" where
  "pipe_events p = {(q, fl). q = p \<and> fl \<subseteq> {EPOLLIN, EPOLLPRI}}"

definition pipe_answer :: "int \<Rightarrow> wait_answer \<Rightarrow> bool" where
  "pipe_answer p answer \<longleftrightarrow> (case answer of WaitFailed e \<Rightarrow> True | Events evs \<Rightarrow> set evs \<subseteq> pipe_events p)"

definition svc_at :: "int \<Rightarrow> ('u, 'm, 'h, 't, 'w) tcp_service \<Rightarrow> bool" where
  "svc_at p s \<longleftrightarrow> svc_inv s \<and> dev_ptr (sp_device (mq_pipe (sv_queue s))) = p"

lemma svc_at_same: "same_loop v s s' \<Longrightarrow> svc_at p s \<Longrightarrow> svc_at p s'"
  using svc_inv_same [of v s s'] by (simp add: svc_at_def same_loop_def)

lemma svc_dispatch_simps [simp]:
  "ds_read (svc_dispatch cbs call clock) d s = svc_pipeRead cbs call clock s"
  "ds_write (svc_dispatch cbs call clock) d s = Some s" "ds_error (svc_dispatch cbs call clock) d s = Some s"
  "ds_device (svc_dispatch cbs call clock) s p =
     (if p = dev_ptr (sp_device (mq_pipe (sv_queue s))) then Some (sp_device (mq_pipe (sv_queue s))) else None)"
  "ds_set_epoller (svc_dispatch cbs call clock) e s = svc_set_epoll (\<lambda>es. es\<lparr>es_epoller := e\<rparr>) s"
  by (simp_all add: svc_dispatch_def Let_def)

definition svc_safe ::
  "('w \<Rightarrow> 'v) \<Rightarrow> (('u, 'm, 'h, 't, 'w) tcp_service) service_callbacks \<Rightarrow>
   ('h \<Rightarrow> net_id \<Rightarrow> 'm option \<Rightarrow> ('u, 'm, 'h, 't, 'w) tcp_service \<Rightarrow> ('u, 'm, 'h, 't, 'w) tcp_service) \<Rightarrow>
   ('t \<Rightarrow> timer_id \<Rightarrow> ('u, 'm, 'h, 't, 'w) tcp_service \<Rightarrow> ('u, 'm, 'h, 't, 'w) tcp_service) \<Rightarrow> int \<Rightarrow> (int \<times> epoll_events) set \<Rightarrow>
     ('u, 'm, 'h, 't, 'w) tcp_service \<Rightarrow> bool" where
  "svc_safe v cbs call user p bt s \<longleftrightarrow> quiet v cbs call user \<and> svc_at p s \<and> bt \<subseteq> pipe_events p"

lemma svc_safe_same: "same_loop v s s' \<Longrightarrow> svc_safe v cbs call user p bt s \<Longrightarrow> svc_safe v cbs call user p bt s'"
  by (auto simp: svc_safe_def intro: svc_at_same)

lemma svc_at_set_epoller:
  assumes "svc_at p s" and "ek_interest e = ek_interest (ds_epoller (svc_dispatch cbs call clock) s)"
  shows "svc_at p (svc_set_epoll (\<lambda>es. es\<lparr>es_epoller := e\<rparr>) s)"
  using assms by (cases "sv_epoll s") (auto simp: svc_at_def svc_inv_def svc_set_epoll_def svc_dispatch_def)

interpretation svc_rounds: service_loop "svc_dispatch cbs call clock" "svc_safe v cbs call user p" "\<lambda>s evs. set evs \<subseteq> pipe_events p"
    "svc_access user"
  for cbs :: "(('u, 'm, 'h, 't, 'w) tcp_service) service_callbacks" and call clock user p
proof (unfold_locales, goal_cases)
  case (2 bt s q d s1)
  then show ?case using svc_at_same [OF same_loop_pipe] by (auto simp: svc_safe_def)
next
  case (4 bt s q fl)
  then have "dev_ptr (sp_device (mq_pipe (sv_queue s))) = q" "dev_read_cb (sp_device (mq_pipe (sv_queue s)))" "fl \<subseteq> {EPOLLIN, EPOLLPRI}"
    by (auto simp: pipe_events_def svc_safe_def svc_at_def svc_inv_def)
  then show ?case by (auto simp: answers_def)
next
  case (6 bt s e)
  then show ?case using svc_at_set_epoller [of p s e cbs call clock] by (simp add: svc_safe_def)
next
  case (7 bt s e)
  then show ?case
    by (cases "sv_epoll s") (auto simp: svc_safe_def svc_at_def svc_inv_def svc_dispatch_def svc_set_epoll_def)
next
  case (8 s now s1)
  then show ?case using svc_at_same [OF same_loop_checkTimeout] by (auto simp: svc_access_def svc_safe_def)
next
  case (9 s b)
  then show ?case using svc_safe_same [of v s "svc_set_epoll (\<lambda>es. es\<lparr>is_quit := b\<rparr>) s"] by (simp add: svc_access_def)
qed (auto simp: svc_safe_def)

text \<open>A queue that has been attached, and a multiplexer that watches its pipe.\<close>

definition opened_queue :: "nat \<Rightarrow> int \<Rightarrow> int \<Rightarrow> int \<Rightarrow> 'a message_queue" where
  "opened_queue n p rd wr = \<lparr>mq_queue = ConcurrentQueue n,
     mq_pipe = \<lparr>sp_device = (IODevice p)\<lparr>dev_fd := rd, dev_read_cb := True, dev_attached := True\<rparr>,
                sp_fd1 = wr, sp_bytes = 0, sp_nonblock = True\<rparr>\<rparr>"

definition watching :: "int \<Rightarrow> int \<Rightarrow> 't epoll_service \<Rightarrow> 't epoll_service" where
  "watching rd p es = es\<lparr>es_epoller := (es_epoller es)
     \<lparr>ek_interest := (ek_interest (es_epoller es))(rd \<mapsto> (p, {EPOLLIN, EPOLLPRI}))\<rparr>\<rparr>"

lemma attach_opens_and_watches:
  assumes "0 \<le> rd" "ep_fd (es_epoller es) \<noteq> -1" "ek_interest (es_epoller es) rd = None"
    and "card (dom (ek_interest (es_epoller es))) < ek_max_watches (es_epoller es)"
  shows "mq_attach es_addIODevice es_removeIODevice (Some (rd, wr)) (True, True) (True, True) (MessageQueue n p) es
    = (True, opened_queue n p rd wr, watching rd p es)"
proof -
  have "es_addIODevice ((IODevice p)\<lparr>dev_fd := rd, dev_read_cb := True\<rparr>) es = (True, watching rd p es)"
    using assms by (simp add: es_addIODevice_def ep_add_def ctl_add_def IODevice_def wanted_events_def watching_def)
  from mq_attach_new_ok [where add = es_addIODevice, OF this] show ?thesis by (simp add: opened_queue_def)
qed

lemma EpollService_fresh [simp]:
  "ek_interest (es_epoller (EpollService limit fd ce)) = Map.empty" "ep_fd (es_epoller (EpollService limit fd ce)) = fd"
  "ek_max_watches (es_epoller (EpollService limit fd ce)) = limit"
  by (simp_all add: EpollService_def ep_create_def Epoller_def Let_def)

lemma createService_watches:
  fixes s s' :: "('u, 'm, 'h, 't, 'w) tcp_service"
  assumes "createService opened (limit, fd, ce) (Some (rd, wr)) nb cx n s = (True, s')"
    and "sv_queue s = MessageQueue k p" and "0 \<le> rd" "fd \<noteq> -1" "0 < limit" "nb = (True, True)" "cx = (True, True)"
  shows "sv_queue s' = opened_queue k p rd wr" "sv_epoll s' = Some (watching rd p (EpollService limit fd ce))"
proof -
  have "mq_attach es_addIODevice es_removeIODevice (Some (rd, wr)) nb cx (sv_queue s) (EpollService limit fd ce :: 't epoll_service)
      = (True, opened_queue k p rd wr, watching rd p (EpollService limit fd ce))"
    unfolding assms(2,6,7) by (rule attach_opens_and_watches) (simp_all add: assms(3-5))
  then show "sv_queue s' = opened_queue k p rd wr" "sv_epoll s' = Some (watching rd p (EpollService limit fd ce))"
    using assms(1) by (auto simp: createService_def Let_def split: if_splits)
qed

lemma watching_svc_at:
  assumes "sv_queue s = opened_queue k p rd wr" "sv_epoll s = Some (watching rd p (EpollService limit fd ce))"
  shows "svc_at p s"
  by (auto simp: svc_at_def svc_inv_def assms opened_queue_def watching_def IODevice_def split: if_splits)

text \<open>
  The main loop of the server is safe. After \<open>createService\<close>, and with callbacks and timers that leave the multiplexer
  and the queue's pipe alone, the loop never reaches a device that is gone or a callback that is not set, however many
  rounds it makes; its invariant holds at the end.
\<close>
theorem service_loop_safe:
  fixes s :: "('u, 'm, 'h, 't, 'w) tcp_service"
  assumes "quiet v cbs call user" and "svc_at p s" and "\<forall>rd \<in> set rds. \<forall>t. pipe_answer p (rd_answer rd t)"
  shows "case svc_loop cbs call clock user rds s of Inl e \<Rightarrow> e = CallbackFailed | Inr s' \<Rightarrow> svc_at p s'"
proof -
  have "case es_loop (svc_dispatch cbs call clock) (svc_access user) rds s of Inl e \<Rightarrow> e = CallbackFailed
      | Inr s1 \<Rightarrow> svc_safe v cbs call user p {} s1"
    using assms by (intro svc_rounds.loop_ok) (auto simp: svc_safe_def svc_rounds.answered_def pipe_answer_def)
  moreover have "sv_epoll s \<noteq> None" using assms(2) by (auto simp: svc_at_def svc_inv_def simp del: not_None_eq split: option.splits)
  ultimately show ?thesis by (auto simp: svc_loop_def svc_safe_def split: sum.splits)
qed

text \<open>A server after \<open>createService\<close>, without users, for one round in which a command has come.\<close>

definition example_round :: round where
  "example_round = \<lparr>rd_before = Timestamp 1 0, rd_answer = (\<lambda>_. Events [(8, {EPOLLIN})]), rd_after = Timestamp 1 0\<rparr>"

theorem service_loop_safe_witness:
  "\<exists>s :: (unit, byte, unit, unit, byte option list) tcp_service.
     createService True (16, 3, True) (Some (5, 6)) (True, True) (True, True) 100 (TcpService 1 8 (Timestamp 0 0) []) = (True, s)
     \<and> (case svc_loop example_callbacks example_handler (\<lambda>_. Timestamp 1 0) (\<lambda>_ _ s. s) [example_round] s of
          Inl e \<Rightarrow> e = CallbackFailed | Inr s' \<Rightarrow> svc_at 8 s')"
proof -
  let ?s0 = "TcpService 1 8 (Timestamp 0 0) [] :: (unit, byte, unit, unit, byte option list) tcp_service"
  have "fst (createService True (16, 3, True) (Some (5, 6)) (True, True) (True, True) 100 ?s0)"
    by (simp add: createService_def Let_def split: prod.split)
  then obtain s where s: "createService True (16, 3, True) (Some (5, 6)) (True, True) (True, True) 100 ?s0 = (True, s)"
    by (cases "createService True (16, 3, True) (Some (5, 6)) (True, True) (True, True) 100 ?s0") auto
  have at: "svc_at 8 s" by (rule watching_svc_at [OF createService_watches [OF s]]) (simp_all add: TcpService_def)
  have quiet: "quiet (\<lambda>_. ()) example_callbacks example_handler (\<lambda>_ _ s. s)"
    by (simp add: quiet_def example_callbacks_def call_back_def example_handler_def same_loop_def)
  have "\<forall>rd \<in> set [example_round]. \<forall>t. pipe_answer 8 (rd_answer rd t)"
    by (simp add: example_round_def pipe_answer_def pipe_events_def)
  from service_loop_safe [OF quiet at this, of "\<lambda>_. Timestamp 1 0"] s show ?thesis by blast
qed

end
