(* ===== verification/Game_Server.thy ===== *)
theory Game_Server
  imports Service_Loop
begin

text \<open>
  The game server (\<open>server/game_server.h\<close>, \<open>.cc\<close>): its set-up, the registration of message handlers, and its members that pass
  on to the service (\<open>server/game_service.h\<close>).

  The service is made by the constructor and never given away, so that the tests of \<open>pGameService_\<close> for a null pointer are
  always passed; it is a member here, as are the callbacks of \<open>GameService\<close>. A message class is a name \<open>'ty\<close>, which stands for its
  function \<open>create\<close>; a handler is one for the message class it was written for, as the wrapper of \<open>TcpService\<close> casts every
  message to that class without a check. The wrappers are static variables of the program, one for each class.
\<close>

subsection \<open>State and set-up\<close>

record ('ty, 's) game_server =
  main_log_inited :: bool
  net_log_inited :: bool
  message_create_func_map :: "int \<rightharpoonup> 'ty"
  game_service :: 's
  game_callbacks :: "'s service_callbacks"

type_synonym ('u, 'm, 'ty, 'h, 't, 'w) typed_service = "('u, 'm, 'ty \<times> 'h, 't, 'w) tcp_service"

definition GameServer :: "nat \<Rightarrow> int \<Rightarrow> timestamp \<Rightarrow> 'w \<Rightarrow> ('ty, ('u, 'm, 'h, 't, 'w) tcp_service) game_server" where
  "GameServer reactor_num queue_ptr now w =
     \<lparr>main_log_inited = False, net_log_inited = False, message_create_func_map = Map.empty,
      game_service = TcpService reactor_num queue_ptr now w,
      game_callbacks = \<lparr>sc_connect = None, sc_disconnect = None, sc_exceed = None\<rparr>\<rparr>"

definition game_check :: "('ty, 's) game_server \<Rightarrow> bool" where
  "game_check g \<longleftrightarrow> main_log_inited g \<and> net_log_inited g"

text \<open>\<open>ok\<close>: whether the log manager could make the logger.\<close>

definition initMainLogger :: "bool \<Rightarrow> ('ty, 's) game_server \<Rightarrow> bool \<times> ('ty, 's) game_server" where
  "initMainLogger ok g = (if \<not> ok then (False, g) else (True, g\<lparr>main_log_inited := True\<rparr>))"

definition initNetLogger :: "bool \<Rightarrow> ('ty, 's) game_server \<Rightarrow> bool \<times> ('ty, 's) game_server" where
  "initNetLogger ok g = (if \<not> ok then (False, g) else (True, g\<lparr>net_log_inited := True\<rparr>))"

text \<open>\<open>init\<close> passes no request limit to the service, so the default of 0 is used.\<close>

definition game_init ::
  "bool \<Rightarrow> nat \<times> int \<times> bool \<Rightarrow> (int \<times> int) option \<Rightarrow> bool \<times> bool \<Rightarrow> bool \<times> bool \<Rightarrow> (nat \<Rightarrow> thread_env) \<Rightarrow>
   (('u, 'm, 'h, 't, 'w) tcp_service) service_callbacks \<Rightarrow> int \<Rightarrow> ('ty, ('u, 'm, 'h, 't, 'w) tcp_service) game_server \<Rightarrow>
     (bool \<times> ('ty, ('u, 'm, 'h, 't, 'w) tcp_service) game_server) option" where
  "game_init opened epoll fds nonblock cloexec env cbs max_conn_num g =
     (if \<not> game_check g then Some (False, g)
      else let (created, s1) = createService opened epoll fds nonblock cloexec max_conn_num (game_service g)
           in if \<not> created then Some (False, g\<lparr>game_service := s1\<rparr>)
              else do {
                (ok, s2) \<leftarrow> svc_init env 0 s1;
                Some (if \<not> ok then (False, g\<lparr>game_service := s2\<rparr>)
                      else (True, g\<lparr>game_service := s2, game_callbacks := cbs\<rparr>)) })"

text \<open>\<open>start\<close> runs the main loop, with the callbacks that \<open>init\<close> has set.\<close>

definition game_start ::
  "('h \<Rightarrow> net_id \<Rightarrow> 'm option \<Rightarrow> ('u, 'm, 'h, 't, 'w) tcp_service \<Rightarrow> ('u, 'm, 'h, 't, 'w) tcp_service) \<Rightarrow> (nat \<Rightarrow> timestamp) \<Rightarrow>
   ('t \<Rightarrow> timer_id \<Rightarrow> ('u, 'm, 'h, 't, 'w) tcp_service \<Rightarrow> ('u, 'm, 'h, 't, 'w) tcp_service) \<Rightarrow> round list \<Rightarrow>
     ('ty, ('u, 'm, 'h, 't, 'w) tcp_service) game_server \<Rightarrow> dispatch_error + ('ty, ('u, 'm, 'h, 't, 'w) tcp_service) game_server" where
  "game_start call clock user rds g =
     bind_sum (svc_loop (game_callbacks g) call clock user rds (game_service g)) (\<lambda>s. Inr (g\<lparr>game_service := s\<rparr>))"

subsection \<open>Messages and their handlers\<close>

text \<open>\<open>AnyType::create\<close> is known by the class; the result of \<open>registerMessageCreateFunc\<close> is ignored.\<close>

definition registerMessageHandlerFunc ::
  "'ty \<Rightarrow> int \<Rightarrow> 'h \<Rightarrow> ('ty \<rightharpoonup> 'ty \<times> 'h) \<times> ('ty, ('u, 'm, 'ty, 'h, 't, 'w) typed_service) game_server \<Rightarrow>
     ('ty \<rightharpoonup> 'ty \<times> 'h) \<times> ('ty, ('u, 'm, 'ty, 'h, 't, 'w) typed_service) game_server" where
  "registerMessageHandlerFunc ty message_id h wg =
     (case wg of (wrappers, g) \<Rightarrow>
        let (ok, m) = registerMessageCreateFunc message_id ty (message_create_func_map g);
            (wrappers1, s) = game_setMessageHandler ty message_id (ty, h) (wrappers, game_service g)
        in (wrappers1, g\<lparr>message_create_func_map := m, game_service := s\<rparr>))"

text \<open>The messages the server makes, and the protocol it gives to its network threads.\<close>

definition game_createMessageMap :: "('ty \<Rightarrow> unit \<Rightarrow> 'm) \<Rightarrow> ('ty, 's) game_server \<Rightarrow> int \<Rightarrow> 'm option" where
  "game_createMessageMap create g = createMessageMap (\<lambda>i. map_option create (message_create_func_map g i))"

definition game_protocol ::
  "('ty \<Rightarrow> unit \<Rightarrow> 'm) \<Rightarrow> ('m \<Rightarrow> bytes \<Rightarrow> 'm \<times> int) \<Rightarrow> ('m \<Rightarrow> nat \<Rightarrow> bytes option) \<Rightarrow> ('ty, 's) game_server \<Rightarrow> 'm protocol" where
  "game_protocol create decode encode g =
     \<lparr>pr_max = 40960, pr_create = game_createMessageMap create g, pr_decode = decode, pr_encode = encode\<rparr>"

subsection \<open>Members that pass on\<close>

definition on_service :: "('s \<Rightarrow> 's option) \<Rightarrow> ('ty, 's) game_server \<Rightarrow> ('ty, 's) game_server option" where
  "on_service f g = map_option (\<lambda>s. g\<lparr>game_service := s\<rparr>) (f (game_service g))"

text \<open>The templates of \<open>GameService\<close> turn the typed message into a \<open>BaseStruct\<close>.\<close>

definition service_sendMessage ::
  "int \<Rightarrow> net_id \<Rightarrow> 'm option \<Rightarrow> ('u, 'm, 'h, 't, 'w) tcp_service \<Rightarrow> ('u, 'm, 'h, 't, 'w) tcp_service option" where
  "service_sendMessage message_id n message = svc_sendMessage n message_id message"

definition service_broadcastMessage ::
  "('m \<Rightarrow> 'm) \<Rightarrow> int \<Rightarrow> 'm \<Rightarrow> ('u, 'm, 'h, 't, 'w) tcp_service \<Rightarrow> ('u, 'm, 'h, 't, 'w) tcp_service option" where
  "service_broadcastMessage clone message_id message = svc_broadcastMessage clone message_id message"

definition server_sendMessage ::
  "net_id \<Rightarrow> int \<Rightarrow> 'm option \<Rightarrow> ('ty, ('u, 'm, 'h, 't, 'w) tcp_service) game_server \<Rightarrow>
     ('ty, ('u, 'm, 'h, 't, 'w) tcp_service) game_server option" where
  "server_sendMessage n message_id message = on_service (service_sendMessage message_id n message)"

definition server_broadcastMessage ::
  "('m \<Rightarrow> 'm) \<Rightarrow> int \<Rightarrow> 'm \<Rightarrow> ('ty, ('u, 'm, 'h, 't, 'w) tcp_service) game_server \<Rightarrow>
     ('ty, ('u, 'm, 'h, 't, 'w) tcp_service) game_server option" where
  "server_broadcastMessage clone message_id message = on_service (service_broadcastMessage clone message_id message)"

definition server_startTimer ::
  "int \<Rightarrow> 't \<Rightarrow> int \<Rightarrow> ('ty, ('u, 'm, 'h, 't, 'w) tcp_service) game_server \<Rightarrow>
     (timer_id \<times> ('ty, ('u, 'm, 'h, 't, 'w) tcp_service) game_server) option" where
  "server_startTimer timeout_ms timer_cb call_times g =
     map_option (\<lambda>(i, s). (i, g\<lparr>game_service := s\<rparr>)) (svc_startTimer timeout_ms timer_cb call_times (game_service g))"

definition server_stopTimer ::
  "timer_id \<Rightarrow> ('ty, ('u, 'm, 'h, 't, 'w) tcp_service) game_server \<Rightarrow> ('ty, ('u, 'm, 'h, 't, 'w) tcp_service) game_server" where
  "server_stopTimer i g = g\<lparr>game_service := svc_stopTimer i (game_service g)\<rparr>"

definition server_attachNetCommandQueue ::
  "(int \<times> int) option \<Rightarrow> bool \<times> bool \<Rightarrow> bool \<times> bool \<Rightarrow> 'm net_command message_queue \<Rightarrow>
   ('ty, ('u, 'm, 'h, 't, 'w) tcp_service) game_server \<Rightarrow>
     ('m net_command message_queue \<times> ('ty, ('u, 'm, 'h, 't, 'w) tcp_service) game_server) option" where
  "server_attachNetCommandQueue fds nonblock cloexec q g =
     map_option (\<lambda>(q1, s). (q1, g\<lparr>game_service := s\<rparr>)) (attachNetCommandQueue fds nonblock cloexec q (game_service g))"

definition server_addEventFunc ::
  "'t \<Rightarrow> ('ty, ('u, 'm, 'h, 't, 'w) tcp_service) game_server \<Rightarrow> ('ty, ('u, 'm, 'h, 't, 'w) tcp_service) game_server" where
  "server_addEventFunc f g = g\<lparr>game_service := addEventFunc f (game_service g)\<rparr>"

subsection \<open>What registering does\<close>

text \<open>
  A list of registrations (class, message id, handler). The handlers that get set are those of classes that had none before, in
  \<open>wrappers\<close> or earlier in the list.
\<close>

definition register_all ::
  "('ty \<times> int \<times> 'h) list \<Rightarrow> ('ty \<rightharpoonup> 'ty \<times> 'h) \<times> ('ty, ('u, 'm, 'ty, 'h, 't, 'w) typed_service) game_server \<Rightarrow>
     ('ty \<rightharpoonup> 'ty \<times> 'h) \<times> ('ty, ('u, 'm, 'ty, 'h, 't, 'w) typed_service) game_server" where
  "register_all regs = fold (\<lambda>(ty, i, h). registerMessageHandlerFunc ty i h) regs"

primrec new_handlers :: "('ty \<rightharpoonup> 'ty \<times> 'h) \<Rightarrow> ('ty \<times> int \<times> 'h) list \<Rightarrow> (int \<times> 'ty \<times> 'h) list" where
  "new_handlers wrappers [] = []"
| "new_handlers wrappers (r # regs) =
     (case r of (ty, i, h) \<Rightarrow> if wrappers ty \<noteq> None then new_handlers wrappers regs
                             else (i, ty, h) # new_handlers (wrappers(ty \<mapsto> (ty, h))) regs)"

lemma new_handlers_sub: "(i, ty, h) \<in> set (new_handlers wrappers regs) \<Longrightarrow> (ty, i, h) \<in> set regs"
  by (induction regs arbitrary: wrappers) (auto split: if_splits prod.splits)

lemma registered_tables:
  "message_create_func_map (snd (register_all regs (wrappers, g)))
     = map_of (map (\<lambda>(ty, i, h). (i, ty)) regs) ++ message_create_func_map g
   \<and> sv_handlers (game_service (snd (register_all regs (wrappers, g))))
     = sv_handlers (game_service g) ++ map_of (rev (new_handlers wrappers regs))"
proof (induction regs arbitrary: wrappers g)
  case Nil
  then show ?case by (simp add: register_all_def)
next
  case (Cons r regs)
  obtain ty i h where r: "r = (ty, i, h)" by (cases r)
  obtain w1 g1 where s: "registerMessageHandlerFunc ty i h (wrappers, g) = (w1, g1)" by fastforce
  then have g1: "message_create_func_map g1
        = (if message_create_func_map g i = None then (message_create_func_map g)(i \<mapsto> ty) else message_create_func_map g)"
      "w1 = (if wrappers ty = None then wrappers(ty \<mapsto> (ty, h)) else wrappers)"
      "sv_handlers (game_service g1)
        = (if wrappers ty = None then (sv_handlers (game_service g))(i \<mapsto> (ty, h)) else sv_handlers (game_service g))"
    by (auto simp: registerMessageHandlerFunc_def registerMessageCreateFunc_def game_setMessageHandler_def svc_setMessageHandler_def
        split: prod.splits if_splits)
  have "register_all (r # regs) (wrappers, g) = register_all regs (w1, g1)" by (simp add: register_all_def r s)
  then show ?case
    using Cons.IH [of w1 g1] by (auto simp: g1 r map_add_def split: option.splits)
qed

text \<open>
  Registering decides two tables on its own terms: the message created for an id is that of the first class registered under
  it, its handler the one of the last class that had not been registered before.
\<close>

lemma registered_first:
  assumes "message_create_func_map g = Map.empty" "sv_handlers (game_service g) = Map.empty"
  shows "message_create_func_map (snd (register_all regs (wrappers, g))) i = map_of (map (\<lambda>(ty, i, h). (i, ty)) regs) i"
    "sv_handlers (game_service (snd (register_all regs (wrappers, g)))) i = map_of (rev (new_handlers wrappers regs)) i"
  using registered_tables [of regs wrappers g] by (simp_all add: assms)

text \<open>With two classes under one id they differ: the messages of the first class go to the handler of the second.\<close>

lemma second_class_confused:
  assumes "message_create_func_map g = Map.empty" "sv_handlers (game_service g) = Map.empty"
    and "wrappers a = None" "wrappers b = None" "a \<noteq> b"
  shows "message_create_func_map (snd (register_all [(a, i, h), (b, i, h')] (wrappers, g))) i = Some a"
    "sv_handlers (game_service (snd (register_all [(a, i, h), (b, i, h')] (wrappers, g)))) i = Some (b, h')"
  using assms by (simp_all add: registered_first)

text \<open>One class under two ids gets a handler for the first id only.\<close>

lemma second_id_unhandled:
  assumes "message_create_func_map g = Map.empty" "sv_handlers (game_service g) = Map.empty" "wrappers a = None" "i \<noteq> j"
  shows "message_create_func_map (snd (register_all [(a, i, h), (a, j, h')] (wrappers, g))) j = Some a"
    "sv_handlers (game_service (snd (register_all [(a, i, h), (a, j, h')] (wrappers, g)))) j = None"
  using assms by (simp_all add: registered_first)

lemma registered_class_agrees:
  assumes "distinct (map (\<lambda>(ty, i, h). i) regs)" and "message_create_func_map g = Map.empty" "sv_handlers (game_service g) = Map.empty"
    and "message_create_func_map (snd (register_all regs (wrappers, g))) i = Some ty"
    and "sv_handlers (game_service (snd (register_all regs (wrappers, g)))) i = Some (ty', h)"
  shows "ty' = ty"
proof -
  have "(i, ty', h) \<in> set (new_handlers wrappers regs)"
    using assms(5) map_of_SomeD by (fastforce simp: registered_first [OF assms(2,3)])
  then have "(i, ty') \<in> set (map (\<lambda>(ty, i, h). (i, ty)) regs)" by (force dest: new_handlers_sub)
  moreover have "distinct (map fst (map (\<lambda>(ty, i, h). (i, ty)) regs))"
    using assms(1) by (simp add: comp_def case_prod_unfold)
  ultimately have "map_of (map (\<lambda>(ty, i, h). (i, ty)) regs) i = Some ty'" by simp
  then show ?thesis using assms(4) by (simp add: registered_first [OF assms(2,3)])
qed

subsection \<open>From the network to the handlers\<close>

text \<open>Every message that comes out of the receive loop was made for its id and filled by its own \<open>decode\<close>.\<close>

lemma recvMessage_made:
  assumes "recvMessage mx create decode b = Some (MESSAGE_READY i m, b1)"
  shows "\<exists>m0 bs. create i = Some m0 \<and> m = fst (decode m0 bs)"
  using assms
  by (auto simp: recvMessage_def Let_def split: bind_splits option.splits if_splits prod.splits intro: exI) (metis fst_conv)+

lemma onRecvMessage_made:
  assumes "onRecvMessage mx create decode tid sid b = Some (cmds, closed, b')" and "cmd \<in> set cmds"
  shows "\<exists>m0 bs. create (cmd_message_id cmd) = Some m0 \<and> cmd_message cmd = Some (fst (decode m0 bs))"
proof -
  have "\<forall>cmd \<in> set (fst out). \<exists>m0 bs. create (cmd_message_id cmd) = Some m0 \<and> cmd_message cmd = Some (fst (decode m0 bs))"
    if "onRecvMessage mx create decode tid sid b = Some out" for out
  proof (rule onRecvMessage.raw_induct [OF _ that], goal_cases)
    case (1 rec mx create decode tid sid b out)
    obtain rc b1 where r: "recvMessage mx create decode b = Some (rc, b1)" using 1(2) by (cases "recvMessage mx create decode b") auto
    show ?case
    proof (cases rc)
      case (MESSAGE_READY i m)
      then obtain cmds closed b2 where
        c: "rec mx create decode tid sid b1 = Some (cmds, closed, b2)" "fst out = (NetCommand MESSAGE)
           \<lparr>cmd_id := \<lparr>reactor_id = tid, socket_id = sid\<rparr>, cmd_message_id := i, cmd_message := Some m\<rparr> # cmds"
        using 1(2) r by (auto split: bind_splits)
      obtain m0 bs where "create i = Some m0" "m = fst (decode m0 bs)"
        using recvMessage_made [of mx create decode b i m b1] r MESSAGE_READY by auto
      then show ?thesis using 1(1) [OF c(1)] c(2) by auto
    qed (use 1(2) r in auto)
  qed
  from this [OF assms(1)] assms(2) show ?thesis by simp
qed

text \<open>A handler is called for a MESSAGE command with its message, and it is the one of the table.\<close>

lemma conn_trace_handled:
  "Handled n h m \<in> set (fst (conn_trace M H k cs st)) \<Longrightarrow>
     \<exists>cmd \<in> snd ` set cs. cmd_type cmd = MESSAGE \<and> H (cmd_message_id cmd) = Some h \<and> cmd_message cmd = m"
proof (induction cs arbitrary: st)
  case (Cons tc cs)
  obtain es st1 where s: "conn_step M H k (fst tc) (snd tc) st = (es, st1)" by fastforce
  obtain es' st2 where r: "conn_trace M H k cs st1 = (es', st2)" by fastforce
  show ?case
  proof (cases "Handled n h m \<in> set es")
    case True
    then have "cmd_type (snd tc) = MESSAGE \<and> H (cmd_message_id (snd tc)) = Some h \<and> cmd_message (snd tc) = m"
      using s by (cases "cmd_type (snd tc)") (auto simp: conn_step_def Let_def split: option.splits prod.splits if_splits)
    then show ?thesis by simp
  next
    case False
    then show ?thesis using Cons.IH [of st1] Cons.prems r s by auto
  qed
qed simp

lemma queue_read_handled:
  assumes "well_behaved cbs call act" and "sane s"
  shows "\<exists>s' es. onClientNetCommandQueueRead cbs call clock s = Some s' \<and> sv_user s' = fold act es (sv_user s)
    \<and> (\<forall>n h m. Handled n h m \<in> set es \<longrightarrow> (\<exists>cmd \<in> set (cq_items (mq_queue (sv_queue s))).
         cmd_type cmd = MESSAGE \<and> sv_handlers s (cmd_message_id cmd) = Some h \<and> cmd_message cmd = m))"
proof -
  obtain s' es where x: "onClientNetCommandQueueRead cbs call clock s = Some s'" "sv_user s' = fold act es (sv_user s)"
    "\<And>n. (filter (\<lambda>e. event_id e = n) es, sv_infos s' n) = conn_trace (sv_max_requests s) (sv_handlers s) n
       (filter (\<lambda>tc. cmd_id (snd tc) = n) (batch clock 100 (cq_items (mq_queue (sv_queue s))))) (sv_infos s n)"
    using messages_served [OF assms, of clock] by blast
  have "\<exists>cmd \<in> set (cq_items (mq_queue (sv_queue s))).
         cmd_type cmd = MESSAGE \<and> sv_handlers s (cmd_message_id cmd) = Some h \<and> cmd_message cmd = m"
    if "Handled n h m \<in> set es" for n h m
  proof -
    have "Handled n h m \<in> set (filter (\<lambda>e. event_id e = n) es)" using that by simp
    then have "Handled n h m \<in> set (fst (conn_trace (sv_max_requests s) (sv_handlers s) n
       (filter (\<lambda>tc. cmd_id (snd tc) = n) (batch clock 100 (cq_items (mq_queue (sv_queue s))))) (sv_infos s n)))"
      by (simp flip: x(3))
    from conn_trace_handled [OF this] show ?thesis by (auto simp: batch_def dest: set_zip_rightD)
  qed
  then show ?thesis using x(1,2) by blast
qed

text \<open>
  C5: a handler gets messages of its own class. When every message id is registered once, with whatever classes and handlers,
  and the commands that wait for the main thread came out of the receive loop of the server, then every message that a
  handler is called with is of the class that the handler was written for, so that the unchecked cast of the wrapper is right. (With two
  classes under one id it is not: \<open>second_class_confused\<close>.)
\<close>
theorem handlers_get_their_class:
  fixes g0 :: "('ty, ('u, 'm, 'ty, 'h, 't, 'w) typed_service) game_server"
  assumes regs: "distinct (map (\<lambda>(ty, i, h). i) regs)" "message_create_func_map g0 = Map.empty" "sv_handlers (game_service g0) = Map.empty"
    and g: "g = snd (register_all regs (wrappers, g0))" "sv_handlers s = sv_handlers (game_service g)"
    and classes: "\<And>ty. class_of (create ty ()) = ty" "\<And>m bs. class_of (fst (decode m bs)) = class_of m"
    and received: "\<And>cmd. cmd \<in> set (cq_items (mq_queue (sv_queue s))) \<Longrightarrow> cmd_type cmd = MESSAGE \<Longrightarrow>
      \<exists>tid sid b cmds closed b'. onRecvMessage 40960 (game_createMessageMap create g) decode tid sid b = Some (cmds, closed, b') \<and> cmd \<in> set cmds"
    and ok: "well_behaved cbs call act" "sane s"
  shows "\<exists>s' es. onClientNetCommandQueueRead cbs call clock s = Some s' \<and> sv_user s' = fold act es (sv_user s)
    \<and> (\<forall>n ty h message. Handled n (ty, h) message \<in> set es \<longrightarrow> (\<exists>m. message = Some m \<and> class_of m = ty))"
proof -
  have "\<exists>m. message = Some m \<and> class_of m = ty"
    if c: "cmd \<in> set (cq_items (mq_queue (sv_queue s)))" "cmd_type cmd = MESSAGE" "sv_handlers s (cmd_message_id cmd) = Some (ty, h)"
      "cmd_message cmd = message" for cmd ty h message
  proof -
    obtain m0 bs where m: "game_createMessageMap create g (cmd_message_id cmd) = Some m0" "message = Some (fst (decode m0 bs))"
      using received [OF c(1,2)] onRecvMessage_made c(4) by metis
    then obtain ty' where ty': "message_create_func_map g (cmd_message_id cmd) = Some ty'" "m0 = create ty' ()"
      by (auto simp: game_createMessageMap_def createMessageMap_def split: option.splits)
    have "ty = ty'"
      using registered_class_agrees [OF regs ty'(1) [unfolded g(1)]] c(3) unfolding g by blast
    then show ?thesis using m(2) ty'(2) classes by simp
  qed
  then show ?thesis using queue_read_handled [OF ok, of clock] by (metis (no_types, lifting))
qed

text \<open>Two classes of messages without data, under the ids 7 and 8; a message of the second class waits.\<close>

definition two_classes :: "bool \<Rightarrow> unit \<Rightarrow> byte" where
  "two_classes ty u = (if ty then 1 else 0)"

definition two_class_server :: "(bool, (unit, byte, bool, unit, unit, (bool \<times> byte) list) typed_service) game_server" where
  "two_class_server = snd (register_all [(True, 7, ()), (False, 8, ())] (Map.empty, GameServer 1 8 (Timestamp 0 0) []))"

definition two_class_service :: "(unit, byte, bool, unit, unit, (bool \<times> byte) list) typed_service" where
  "two_class_service =
     (let s = game_service two_class_server
      in s\<lparr>sv_threads := [example_thread (example_kernel [] [] [])], sv_infos := [\<lparr>reactor_id = 0, socket_id = 5\<rparr> \<mapsto> \<lparr>last_request_second = 0, requst_per_second = 0\<rparr>],
           sv_queue := (sv_queue s)\<lparr>mq_queue := (mq_queue (sv_queue s))\<lparr>cq_items := [command_of 0 5 (8, 0)]\<rparr>\<rparr>\<rparr>)"

definition note_class ::
  "bool \<times> unit \<Rightarrow> net_id \<Rightarrow> byte option \<Rightarrow> (unit, byte, bool, unit, unit, (bool \<times> byte) list) typed_service \<Rightarrow>
     (unit, byte, bool, unit, unit, (bool \<times> byte) list) typed_service" where
  "note_class h n m s = s\<lparr>sv_user := (case m of None \<Rightarrow> sv_user s | Some x \<Rightarrow> sv_user s @ [(fst h, x)])\<rparr>"

definition note_act :: "(bool \<times> unit, byte) service_event \<Rightarrow> (bool \<times> byte) list \<Rightarrow> (bool \<times> byte) list" where
  "note_act e w = (case e of Handled n h (Some x) \<Rightarrow> w @ [(fst h, x)] | _ \<Rightarrow> w)"

theorem handlers_get_their_class_witness:
  "\<exists>s' es. onClientNetCommandQueueRead (game_callbacks two_class_server) note_class (\<lambda>_. Timestamp 0 0) two_class_service = Some s'
    \<and> sv_user s' = fold note_act es []
    \<and> (\<forall>n ty h message. Handled n (ty, h) message \<in> set es \<longrightarrow> (\<exists>m. message = Some m \<and> (m = 1) = ty))"
proof -
  let ?f = "frame 8 []" and ?d = "\<lambda>m (bs :: bytes). (m :: byte, 1 :: int)"
  define b where "b = small_buffer\<lparr>db_buffer := ?f @ replicate 12 0, db_write_index := 4\<rparr>"
  have create: "game_createMessageMap two_classes two_class_server 8 = Some 0"
    by (simp add: game_createMessageMap_def createMessageMap_def two_class_server_def registered_first GameServer_def TcpService_def
        two_classes_def)
  have b: "buffer_ok b" "content b = ?f"
    by (simp_all add: b_def small_buffer_def buffer_ok_def content_def vec_max_def frame_def word16_bytes_def)
  have "parse_stream 40960 (game_createMessageMap two_classes two_class_server) ?d [] = ([], False, [])"
    by (subst parse_stream.simps) simp
  then have "parse_stream 40960 (game_createMessageMap two_classes two_class_server) ?d ?f = ([(8, 0)], False, [])"
    by (subst parse_stream.simps)
      (simp add: frame_def word16_bytes_def frame_length_def frame_message_def be_word16_def create)
  then have recv: "\<exists>b'. onRecvMessage 40960 (game_createMessageMap two_classes two_class_server) ?d 0 5 b = Some ([command_of 0 5 (8, 0)], False, b')"
    using recv_loop_parses [OF b(1), of 40960 "game_createMessageMap two_classes two_class_server" ?d 0 5] b(2) by auto
  have s: "sv_handlers two_class_service = sv_handlers (game_service two_class_server)" "sv_user two_class_service = []"
    "cq_items (mq_queue (sv_queue two_class_service)) = [command_of 0 5 (8, 0)]"
    by (simp_all add: two_class_service_def two_class_server_def Let_def register_all_def registerMessageHandlerFunc_def
        registerMessageCreateFunc_def game_setMessageHandler_def svc_setMessageHandler_def GameServer_def TcpService_def)
  have ok: "well_behaved (game_callbacks two_class_server) note_class note_act"
    by (auto simp: well_behaved_def two_class_server_def register_all_def registerMessageHandlerFunc_def registerMessageCreateFunc_def
        game_setMessageHandler_def GameServer_def call_back_def note_act_def note_class_def keeps_def split: option.splits)
  have sane: "sane two_class_service"
    by (simp add: sane_def unbounded_def in_range_def s two_class_service_def Let_def command_of_def example_thread_def example_queue_def ConcurrentQueue_def
        set_queue_def upd_rest_def ts_def object_at_def set_epoller_def)
  show ?thesis
  proof (rule handlers_get_their_class [where regs = "[(True, 7, ()), (False, 8, ())]" and class_of = "\<lambda>m. m = 1" and create = two_classes
        and decode = ?d and act = note_act and s = two_class_service and g = two_class_server and wrappers = Map.empty
        and g0 = "GameServer 1 8 (Timestamp 0 0) []", unfolded s(2)], goal_cases)
    case (8 cmd)
    then have "cmd \<in> set [command_of 0 5 (8, 0)]" by (simp add: s(3))
    then show ?case using recv by blast
  next
    show "two_class_server = snd (register_all [(True, 7, ()), (False, 8, ())] (Map.empty, GameServer 1 8 (Timestamp 0 0) []))"
      by (rule two_class_server_def)
  qed (simp_all add: s(1) ok sane two_classes_def GameServer_def TcpService_def)
qed

subsection \<open>A server that starts\<close>

lemma make_threads_nth:
  "make_threads i n es = Some (True, rs) \<Longrightarrow> length rs = length es \<and> (\<forall>j < length es. make_thread (i + j) n (es ! j) = Some (True, rs ! j))"
proof (induction es arbitrary: i rs)
  case (Cons e es)
  then obtain r rs1 where r: "make_thread i n e = Some (True, r)" "make_threads (Suc i) n es = Some (True, rs1)" "rs = r # rs1"
    by (auto split: bind_splits if_splits)
  show ?case
  proof (intro conjI allI impI)
    show "length rs = length (e # es)" using Cons.IH [OF r(2)] r(3) by simp
    show "make_thread (i + j) n ((e # es) ! j) = Some (True, rs ! j)" if "j < length (e # es)" for j
      using Cons.IH [OF r(2)] r that by (cases j) auto
  qed
qed simp

lemma made_thread_reachable: "make_thread i n e = Some (True, r) \<Longrightarrow> nt_reachable pr errs r"
  by (auto simp: make_thread_def split: bind_splits intro: nt_reachable.initial)

lemma svc_init_threads:
  assumes "svc_init env m s = Some (True, s')"
  shows "length (sv_threads s') = sv_thread_num s" "list_all (nt_reachable pr errs) (sv_threads s')" "sv_max_requests s' = m"
    "same_loop (\<lambda>_. ()) s s'"
proof -
  obtain rs where rs: "make_threads 0 (sv_max_connection_num s div sv_thread_num s + 1) (map env [0..<sv_thread_num s]) = Some (True, rs)"
    and s': "s' = s\<lparr>sv_threads := rs, sv_max_requests := m\<rparr>"
    using assms by (auto simp: svc_init_def Let_def split: bind_splits if_splits)
  show "length (sv_threads s') = sv_thread_num s" "sv_max_requests s' = m" "same_loop (\<lambda>_. ()) s s'"
    using make_threads_nth [OF rs] by (simp_all add: s' same_loop_def)
  show "list_all (nt_reachable pr errs) (sv_threads s')"
    using make_threads_nth [OF rs] by (fastforce simp: s' list_all_length intro: made_thread_reachable)
qed

lemma game_init_ok:
  fixes g g' :: "('ty, ('u, 'm, 'h, 't, 'w) tcp_service) game_server"
  assumes init: "game_init opened (limit, fd, True) (Some (rd, wr)) (True, True) (True, True) env cbs n g = Some (True, g')"
    and new: "sv_queue (game_service g) = MessageQueue k p" and fds: "0 \<le> rd" "fd \<noteq> -1" "0 < limit"
  shows "game_check g" "length (sv_threads (game_service g')) = sv_thread_num (game_service g)"
    "list_all (nt_reachable pr errs) (sv_threads (game_service g'))" "sv_max_requests (game_service g') = 0" "svc_at p (game_service g')"
    "game_callbacks g' = cbs" "sv_handlers (game_service g') = sv_handlers (game_service g)"
    "message_create_func_map g' = message_create_func_map g"
    "sv_queue (game_service g') = opened_queue k p rd wr" "sv_epoll (game_service g') = Some (watching rd p (EpollService limit fd True))"
    "sv_user (game_service g') = sv_user (game_service g)"
proof -
  obtain s1 s2 where s1: "createService opened (limit, fd, True) (Some (rd, wr)) (True, True) (True, True) n (game_service g) = (True, s1)"
    and s2: "svc_init env 0 s1 = Some (True, s2)" and g': "g' = g\<lparr>game_service := s2, game_callbacks := cbs\<rparr>" and "game_check g"
    using init by (auto simp: game_init_def Let_def split: bind_splits if_splits prod.splits)
  note threads = svc_init_threads [OF s2]
  note watches = createService_watches [OF s1 new fds refl refl]
  have "sv_thread_num s1 = sv_thread_num (game_service g)" "sv_handlers s1 = sv_handlers (game_service g)"
    "sv_user s1 = sv_user (game_service g)"
    using s1 by (auto simp: createService_def Let_def split: if_splits prod.splits)
  moreover have "sv_handlers s2 = sv_handlers s1" "sv_queue s2 = sv_queue s1" "sv_epoll s2 = sv_epoll s1" "sv_user s2 = sv_user s1"
    using s2 by (auto simp: svc_init_def Let_def split: bind_splits if_splits)
  moreover have "svc_at p s2" by (rule svc_at_same [OF threads(4) watching_svc_at [OF watches]])
  ultimately show "game_check g" "length (sv_threads (game_service g')) = sv_thread_num (game_service g)"
    "list_all (nt_reachable pr errs) (sv_threads (game_service g'))" "sv_max_requests (game_service g') = 0" "svc_at p (game_service g')"
    "game_callbacks g' = cbs" "sv_handlers (game_service g') = sv_handlers (game_service g)"
    "message_create_func_map g' = message_create_func_map g"
    "sv_queue (game_service g') = opened_queue k p rd wr" "sv_epoll (game_service g') = Some (watching rd p (EpollService limit fd True))"
    "sv_user (game_service g') = sv_user (game_service g)"
    using threads watches \<open>game_check g\<close> by (simp_all add: g')
qed

text \<open>
  C26: a server that starts is safe. When \<open>init\<close> succeeds, both loggers were set up before, every network thread there is to be was
  made and is in a reachable state of \<open>NetThread\<close>, no limit on requests is in force, and \<open>start\<close> runs the main loop with the callbacks
  given to \<open>init\<close>, without ever reaching a device that is gone or a device callback that is not set.
\<close>
theorem server_starts_safe:
  fixes g g' :: "('ty, ('u, 'm, 'h, 't, 'w) tcp_service) game_server"
  assumes init: "game_init opened (limit, fd, True) (Some (rd, wr)) (True, True) (True, True) env cbs n g = Some (True, g')"
    and new: "sv_queue (game_service g) = MessageQueue k p" and fds: "0 \<le> rd" "fd \<noteq> -1" "0 < limit"
    and users: "quiet v cbs call user" and answers: "\<forall>rd \<in> set rds. \<forall>t. pipe_answer p (rd_answer rd t)"
  shows "game_check g \<and> length (sv_threads (game_service g')) = sv_thread_num (game_service g)
    \<and> list_all (nt_reachable pr errs) (sv_threads (game_service g')) \<and> sv_max_requests (game_service g') = 0 \<and> game_callbacks g' = cbs
    \<and> (case game_start call clock user rds g' of Inl e \<Rightarrow> e = CallbackFailed | Inr g'' \<Rightarrow> svc_at p (game_service g''))"
proof -
  note ok = game_init_ok [OF init new fds]
  from service_loop_safe [OF users ok(5) answers, of clock] show ?thesis
    using ok by (cases "svc_loop cbs call clock user rds (game_service g')") (simp_all add: game_start_def)
qed

lemma nt_init_made:
  fixes t :: "('m, 'z) thread_state_scheme"
  assumes q: "nt_queue t = MessageQueue 0 ptr" and k: "0 \<le> rd" "fd \<noteq> -1" "0 < limit"
  shows "fst (nt_init i mr ms (Some (rd, wr)) (True, True) (True, True)
    (EpollReactor n now k limit fd True t :: ('u, ('m, 'z) thread_state_scheme) epoll_reactor))"
proof -
  define r1 :: "('u, ('m, 'z) thread_state_scheme) epoll_reactor" where "r1 = setSendBufferInitSize 1024 (setRecvBufferInitSize 1024 (setSendBufferExpandSize 1024
      (setRecvBufferExpandSize 1024 (setSendBufferMaxSize ms
        (setRecvBufferMaxSize mr (EpollReactor n now k limit fd True t))))))"
  have r1: "ts r1 = t" "ek_interest (the_epoller r1) = Map.empty" "ep_fd (the_epoller r1) = fd" "ek_max_watches (the_epoller r1) = limit"
    using k by (simp_all add: r1_def setRecvBufferInitSize_def setRecvBufferExpandSize_def setRecvBufferMaxSize_def
      setSendBufferInitSize_def setSendBufferExpandSize_def setSendBufferMaxSize_def EpollReactor_def Reactor_def ts_def
      the_epoller_def ep_create_def Epoller_def)
  have "fst (er_addIODevice ((IODevice ptr)\<lparr>dev_fd := rd, dev_read_cb := True\<rparr>) r1)"
    using k r1 by (simp add: er_addIODevice_def ep_add_def ctl_add_def IODevice_def wanted_events_def)
  then obtain r2 where r2: "er_addIODevice ((IODevice ptr)\<lparr>dev_fd := rd, dev_read_cb := True\<rparr>) r1 = (True, r2)"
    by (cases "er_addIODevice ((IODevice ptr)\<lparr>dev_fd := rd, dev_read_cb := True\<rparr>) r1") auto
  show ?thesis
    unfolding nt_init_def r1_def [symmetric] Let_def r1(1) q by (subst mq_attach_new_ok [where add = er_addIODevice, OF r2]) simp
qed

text \<open>A server with one network thread.\<close>

definition one_thread_env :: thread_env where
  "one_thread_env = \<lparr>te_pipe = 9, te_fds = Some (5, 6), te_nonblock = (True, True), te_cloexec = (True, True), te_limit = 10,
     te_epoll_fd = 3, te_epoll_cloexec = True, te_now = Timestamp 0 0, te_kernel = example_kernel [] [] []\<rparr>"

lemma one_thread_made: "\<exists>r :: (unit, byte) net_thread. make_thread i n one_thread_env = Some (True, r)"
proof -
  obtain t :: "byte thread_state" where t: "NetThread 9 40960 = Some t"
    by (simp add: NetThread_def DynamicBuffer_def vec_alloc_def vec_max_def)
  let ?init = "nt_init (int i) 81920 409600 (Some (5, 6)) (True, True) (True, True)
    (EpollReactor (int n) (Timestamp 0 0) (example_kernel [] [] []) 10 3 True t) :: bool \<times> (unit, byte) net_thread"
  have "fst ?init" by (rule nt_init_made [OF NetThread_queue [OF t]]) simp_all
  then show ?thesis by (cases ?init) (auto simp: make_thread_def one_thread_env_def t)
qed

lemma threads_made: "\<exists>rs :: (unit, byte) net_thread list. make_threads i n (replicate k one_thread_env) = Some (True, rs)"
proof (induction k arbitrary: i)
  case (Suc k)
  obtain r :: "(unit, byte) net_thread" where "make_thread i n one_thread_env = Some (True, r)" using one_thread_made by blast
  moreover obtain rs :: "(unit, byte) net_thread list" where "make_threads (Suc i) n (replicate k one_thread_env) = Some (True, rs)"
    using Suc by blast
  ultimately show ?case by simp
qed simp

lemma example_init:
  fixes g :: "('ty, (unit, byte, 'h, 't, 'w) tcp_service) game_server"
  assumes "game_check g" "game_service g = TcpService k p now w" "k mod 256 \<noteq> 0"
  shows "\<exists>g'. game_init True (limit, fd, True) fds nb cx (\<lambda>_. one_thread_env) cbs n g = Some (True, g')"
proof -
  obtain ok q es where "mq_attach es_addIODevice es_removeIODevice fds nb cx (MessageQueue 0 p :: byte net_command message_queue)
      (EpollService limit fd True :: 't epoll_service) = (ok, q, es)"
    by (metis prod.exhaust)
  moreover obtain rs :: "(unit, byte) net_thread list" where
    "make_threads 0 (nat (n mod 65536) div (k mod 256) + 1) (replicate (k mod 256) one_thread_env) = Some (True, rs)"
    using threads_made by blast
  ultimately show ?thesis
    using assms by (simp add: game_init_def createService_def svc_init_def TcpService_def Let_def map_replicate_trivial)
qed

definition logged_server :: "(unit, (unit, byte, unit, unit, byte option list) tcp_service) game_server" where
  "logged_server = snd (initNetLogger True (snd (initMainLogger True (GameServer 1 8 (Timestamp 0 0) []))))"

theorem server_starts_safe_witness:
  "\<exists>g'. game_init True (16, 3, True) (Some (5, 6)) (True, True) (True, True) (\<lambda>_. one_thread_env) example_callbacks 100 logged_server = Some (True, g')
     \<and> length (sv_threads (game_service g')) = 1
     \<and> (case game_start example_handler (\<lambda>_. Timestamp 1 0) (\<lambda>_ _ s. s) [example_round] g' of
          Inl e \<Rightarrow> e = CallbackFailed | Inr g'' \<Rightarrow> svc_at 8 (game_service g''))"
proof -
  have check: "game_check logged_server" "game_service logged_server = TcpService 1 8 (Timestamp 0 0) []"
    by (simp_all add: logged_server_def initNetLogger_def initMainLogger_def game_check_def GameServer_def)
  then obtain g' where g': "game_init True (16, 3, True) (Some (5, 6)) (True, True) (True, True) (\<lambda>_. one_thread_env) example_callbacks 100 logged_server = Some (True, g')"
    using example_init [OF check, of 16 3 "Some (5, 6)" "(True, True)" "(True, True)" example_callbacks 100] by auto
  have "quiet (\<lambda>_. ()) example_callbacks example_handler (\<lambda>_ _ s. s)"
    by (simp add: quiet_def example_callbacks_def call_back_def example_handler_def same_loop_def)
  from server_starts_safe [OF g' _ _ _ _ this, of 0 8 "[example_round]" example_protocol "\<lambda>_. (0, 0)" "\<lambda>_. Timestamp 1 0"] check g'
  show ?thesis by (simp add: TcpService_def example_round_def pipe_answer_def pipe_events_def)
qed

end
