(* ===== verification/Socket_Address.thy ===== *)
theory Socket_Address
  imports Zb_Prelude
begin

text \<open>
  Socket addresses (\<open>net/socket_address.h\<close>, \<open>.cc\<close>): a host as text and a port, or the system's binary form, each computed
  from the other when it is first asked for and kept in mutable members.

  A binary address is its family, its port in network byte order, the bytes of the host (4 or 16) and the 8 bytes that are left:
  \<open>sin_zero\<close> in a \<open>sockaddr_in\<close>, \<open>sin6_flowinfo\<close> followed by \<open>sin6_scope_id\<close> in a \<open>sockaddr_in6\<close>. The conversions of
  \<open>inet_pton\<close> and \<open>inet_ntop\<close> are the record \<open>inet\<close>: \<open>None\<close> is their failure.
\<close>

subsection \<open>State\<close>

datatype protocol_type = UNKNOWN | IP_V4 | IP_V6

definition AF_INET :: int where "AF_INET = 2"
definition AF_INET6 :: int where "AF_INET6 = 10"

record inet =
  inet_pton4 :: "string \<Rightarrow> bytes option"
  inet_ntop4 :: "bytes \<Rightarrow> string option"
  inet_pton6 :: "string \<Rightarrow> bytes option"
  inet_ntop6 :: "bytes \<Rightarrow> string option"

record sockaddr =
  sa_family :: int
  sa_port :: bytes
  sa_host :: bytes
  sa_rest :: bytes

definition sin6_flowinfo :: "sockaddr \<Rightarrow> bytes" where
  "sin6_flowinfo n = take 4 (sa_rest n)"

definition sin6_scope_id :: "sockaddr \<Rightarrow> bytes" where
  "sin6_scope_id n = drop 4 (sa_rest n)"

text \<open>All bytes zero, as \<open>memset\<close> leaves them.\<close>

definition no_rest :: bytes where
  "no_rest = replicate 8 0"

definition no_sockaddr :: sockaddr where
  "no_sockaddr = \<lparr>sa_family = 0, sa_port = [0, 0], sa_host = [], sa_rest = no_rest\<rparr>"

definition htons :: "16 word \<Rightarrow> bytes" where
  "htons w = [ucast (drop_bit 8 w), ucast w]"

definition ntohs :: "bytes \<Rightarrow> 16 word" where
  "ntohs bs = (case bs of [hi, lo] \<Rightarrow> ucast lo OR push_bit 8 (ucast hi) | _ \<Rightarrow> 0)"

record socket_address =
  has_addr :: bool
  sk_ip :: string
  sk_port :: "16 word"
  has_native_addr :: bool
  sk_protocol :: protocol_type
  native_addr :: sockaddr
  native_addr_size :: nat

subsection \<open>Operations\<close>

definition SocketAddress :: socket_address where
  "SocketAddress = \<lparr>has_addr = False, sk_ip = '''', sk_port = 0, has_native_addr = False, sk_protocol = UNKNOWN,
     native_addr = no_sockaddr, native_addr_size = 0\<rparr>"

definition SocketAddress_of :: "string \<Rightarrow> 16 word \<Rightarrow> socket_address" where
  "SocketAddress_of ip port = SocketAddress\<lparr>has_addr := True, sk_ip := ip, sk_port := port\<rparr>"

definition translateNativeAddressToAddress :: "inet \<Rightarrow> socket_address \<Rightarrow> socket_address" where
  "translateNativeAddressToAddress net a =
     (let a1 = a\<lparr>sk_ip := '''', sk_port := 0\<rparr>;
          n = native_addr a;
          found = (\<lambda>text. case text of None \<Rightarrow> a1
                     | Some ip \<Rightarrow> a1\<lparr>sk_ip := ip, sk_port := ntohs (sa_port n), has_addr := True\<rparr>)
      in case sk_protocol a of
           IP_V4 \<Rightarrow> found (inet_ntop4 net (sa_host n))
         | IP_V6 \<Rightarrow> found (inet_ntop6 net (sa_host n))
         | UNKNOWN \<Rightarrow> a1)"

definition translateAddressToNativeAddress :: "inet \<Rightarrow> socket_address \<Rightarrow> socket_address" where
  "translateAddressToNativeAddress net a =
     (let a1 = a\<lparr>native_addr := no_sockaddr, sk_protocol := UNKNOWN, native_addr_size := 0\<rparr>;
          found = (\<lambda>family pr len host. case host of None \<Rightarrow> a1
                     | Some h \<Rightarrow> a1\<lparr>native_addr := \<lparr>sa_family = family, sa_port = htons (sk_port a), sa_host = h,
                                     sa_rest = sa_rest no_sockaddr\<rparr>,
                                   sk_protocol := pr, native_addr_size := len, has_native_addr := True\<rparr>)
      in if CHR ''.'' \<in> set (sk_ip a) then found AF_INET IP_V4 16 (inet_pton4 net (sk_ip a))
         else if CHR '':'' \<in> set (sk_ip a) then found AF_INET6 IP_V6 28 (inet_pton6 net (sk_ip a))
         else a1)"

definition text_known :: "inet \<Rightarrow> socket_address \<Rightarrow> socket_address" where
  "text_known net a = (if \<not> has_addr a \<and> has_native_addr a then translateNativeAddressToAddress net a else a)"

definition native_known :: "inet \<Rightarrow> socket_address \<Rightarrow> socket_address" where
  "native_known net a = (if \<not> has_native_addr a \<and> has_addr a then translateAddressToNativeAddress net a else a)"

definition getIp :: "inet \<Rightarrow> socket_address \<Rightarrow> string \<times> socket_address" where
  "getIp net a = (let a1 = text_known net a in (sk_ip a1, a1))"

definition getPort :: "inet \<Rightarrow> socket_address \<Rightarrow> 16 word \<times> socket_address" where
  "getPort net a = (let a1 = text_known net a in (sk_port a1, a1))"

definition getProtocol :: "inet \<Rightarrow> socket_address \<Rightarrow> protocol_type \<times> socket_address" where
  "getProtocol net a = (let a1 = native_known net a in (sk_protocol a1, a1))"

definition setAddress :: "string \<Rightarrow> 16 word \<Rightarrow> socket_address \<Rightarrow> socket_address" where
  "setAddress ip port a = a\<lparr>sk_ip := ip, sk_port := port, has_addr := True, has_native_addr := False\<rparr>"

definition getNativeAddress :: "inet \<Rightarrow> socket_address \<Rightarrow> sockaddr option \<times> socket_address" where
  "getNativeAddress net a =
     (let a1 = native_known net a
      in (if sk_protocol a1 = IP_V4 then Some (native_addr a1)
          else if sk_protocol a1 = IP_V6 then Some (native_addr a1) else None, a1))"

definition getNativeAddressSize :: "inet \<Rightarrow> socket_address \<Rightarrow> nat \<times> socket_address" where
  "getNativeAddressSize net a = (let a1 = native_known net a in (native_addr_size a1, a1))"

definition setNativeAddress :: "sockaddr \<Rightarrow> socket_address \<Rightarrow> bool \<times> socket_address" where
  "setNativeAddress n a =
     (let taken = (\<lambda>pr len. a\<lparr>sk_protocol := pr, native_addr_size := len, native_addr := n,
                             has_addr := False, has_native_addr := True\<rparr>)
      in if sa_family n = AF_INET then (True, taken IP_V4 16)
         else if sa_family n = AF_INET6 then (True, taken IP_V6 28)
         else (False, a))"

text \<open>\<open>res\<close> is what \<open>getaddrinfo\<close> finds; an address of another family is appended empty.\<close>

definition getAddressByDomain :: "sockaddr list option \<Rightarrow> socket_address list \<Rightarrow> bool \<times> socket_address list" where
  "getAddressByDomain res addr_list =
     (case res of None \<Rightarrow> (False, addr_list)
      | Some ns \<Rightarrow> (True, addr_list @ map (\<lambda>n. snd (setNativeAddress n SocketAddress)) ns))"

text \<open>\<open>ntohl\<close> and \<open>htonl\<close> read and write the four bytes of the host in order.\<close>

definition ntohl :: "bytes \<Rightarrow> 32 word" where
  "ntohl bs = (case bs of [a, b, c, d] \<Rightarrow> ucast d OR push_bit 8 (ucast c) OR push_bit 16 (ucast b) OR push_bit 24 (ucast a) | _ \<Rightarrow> 0)"

definition htonl :: "32 word \<Rightarrow> bytes" where
  "htonl w = [ucast (drop_bit 24 w), ucast (drop_bit 16 w), ucast (drop_bit 8 w), ucast w]"

definition ipV4TextToBin :: "inet \<Rightarrow> string \<Rightarrow> 32 word option" where
  "ipV4TextToBin net text = map_option ntohl (inet_pton4 net text)"

definition ipV4BinToText :: "inet \<Rightarrow> 32 word \<Rightarrow> string \<Rightarrow> string" where
  "ipV4BinToText net binary text = (case inet_ntop4 net (htonl binary) of None \<Rightarrow> text | Some ip \<Rightarrow> ip)"

definition ipV6TextToBin :: "inet \<Rightarrow> string \<Rightarrow> bytes option" where
  "ipV6TextToBin net text = inet_pton6 net text"

text \<open>\<open>ipV6BinToText\<close> asks \<open>inet_ntop\<close> for the family \<open>AF_INET\<close>, which looks at the first four bytes only.\<close>

definition ipV6BinToText :: "inet \<Rightarrow> bytes \<Rightarrow> string \<Rightarrow> string" where
  "ipV6BinToText net binary text = (case inet_ntop4 net (take 4 binary) of None \<Rightarrow> text | Some ip \<Rightarrow> ip)"

subsection \<open>What an address denotes\<close>

text \<open>
  The values the observers should return: for the text and port last set, or for the binary address last set,
  whatever has been asked before.
\<close>

datatype address_value = TextAddress string "16 word" | NativeAddress sockaddr

fun native_of :: "inet \<Rightarrow> address_value \<Rightarrow> sockaddr option" where
  "native_of net (TextAddress ip port) =
     (if CHR ''.'' \<in> set ip
      then map_option (\<lambda>h. \<lparr>sa_family = AF_INET, sa_port = htons port, sa_host = h, sa_rest = no_rest\<rparr>) (inet_pton4 net ip)
      else if CHR '':'' \<in> set ip
      then map_option (\<lambda>h. \<lparr>sa_family = AF_INET6, sa_port = htons port, sa_host = h, sa_rest = no_rest\<rparr>) (inet_pton6 net ip)
      else None)"
| "native_of net (NativeAddress n) = Some n"

definition protocol_of :: "sockaddr option \<Rightarrow> protocol_type" where
  "protocol_of n = (case n of None \<Rightarrow> UNKNOWN | Some n \<Rightarrow> if sa_family n = AF_INET then IP_V4 else IP_V6)"

definition size_of :: "sockaddr option \<Rightarrow> nat" where
  "size_of n = (case n of None \<Rightarrow> 0 | Some n \<Rightarrow> if sa_family n = AF_INET then 16 else 28)"

fun text_of :: "inet \<Rightarrow> address_value \<Rightarrow> string \<times> 16 word" where
  "text_of net (TextAddress ip port) = (ip, port)"
| "text_of net (NativeAddress n) =
     (case (if sa_family n = AF_INET then inet_ntop4 net (sa_host n) else inet_ntop6 net (sa_host n)) of
        None \<Rightarrow> ('''', 0) | Some ip \<Rightarrow> (ip, ntohs (sa_port n)))"

datatype observer = GetIp | GetPort | GetProtocol | GetNative | GetSize

datatype observation = Ip string | Port "16 word" | Prot protocol_type | Native "sockaddr option" | Size nat

fun observe :: "inet \<Rightarrow> observer \<Rightarrow> socket_address \<Rightarrow> observation \<times> socket_address" where
  "observe net GetIp a = (let (x, a1) = getIp net a in (Ip x, a1))"
| "observe net GetPort a = (let (x, a1) = getPort net a in (Port x, a1))"
| "observe net GetProtocol a = (let (x, a1) = getProtocol net a in (Prot x, a1))"
| "observe net GetNative a = (let (x, a1) = getNativeAddress net a in (Native x, a1))"
| "observe net GetSize a = (let (x, a1) = getNativeAddressSize net a in (Size x, a1))"

fun expected :: "inet \<Rightarrow> address_value \<Rightarrow> observer \<Rightarrow> observation" where
  "expected net v GetIp = Ip (fst (text_of net v))"
| "expected net v GetPort = Port (snd (text_of net v))"
| "expected net v GetProtocol = Prot (protocol_of (native_of net v))"
| "expected net v GetNative = Native (native_of net v)"
| "expected net v GetSize = Size (size_of (native_of net v))"

primrec observe_all :: "inet \<Rightarrow> observer list \<Rightarrow> socket_address \<Rightarrow> observation list" where
  "observe_all net [] a = []"
| "observe_all net (q # qs) a = (let (x, a1) = observe net q a in x # observe_all net qs a1)"

text \<open>The members hold the value, in the form it was given and, if it was asked for, in the other.\<close>

definition native_held :: "sockaddr option \<Rightarrow> socket_address \<Rightarrow> bool" where
  "native_held n a \<longleftrightarrow> n \<noteq> None \<and> native_addr a = the n \<and> sk_protocol a = protocol_of n \<and> native_addr_size a = size_of n"

fun holds :: "inet \<Rightarrow> address_value \<Rightarrow> socket_address \<Rightarrow> bool" where
  "holds net (TextAddress ip port) a \<longleftrightarrow> has_addr a \<and> sk_ip a = ip \<and> sk_port a = port
     \<and> (has_native_addr a \<longrightarrow> native_held (native_of net (TextAddress ip port)) a)"
| "holds net (NativeAddress n) a \<longleftrightarrow> sa_family n \<in> {AF_INET, AF_INET6} \<and> has_native_addr a \<and> native_held (Some n) a
     \<and> (has_addr a \<longrightarrow> (sk_ip a, sk_port a) = text_of net (NativeAddress n))"

lemma families [simp]: "AF_INET \<noteq> AF_INET6" "AF_INET6 \<noteq> AF_INET"
  by (simp_all add: AF_INET_def AF_INET6_def)

lemmas protocol_simps [simp] = protocol_of_def size_of_def native_held_def

lemma native_known_holds:
  assumes "holds net v a"
  shows "holds net v (native_known net a) \<and> sk_protocol (native_known net a) = protocol_of (native_of net v)
    \<and> native_addr_size (native_known net a) = size_of (native_of net v)
    \<and> (native_of net v \<noteq> None \<longrightarrow> native_addr (native_known net a) = the (native_of net v))"
  using assms
  by (cases v) (auto simp: native_known_def translateAddressToNativeAddress_def no_sockaddr_def Let_def split: option.splits)

lemma text_known_holds:
  assumes "holds net v a"
  shows "holds net v (text_known net a) \<and> (sk_ip (text_known net a), sk_port (text_known net a)) = text_of net v"
  using assms
  by (cases v) (auto simp: text_known_def translateNativeAddressToAddress_def Let_def split: option.splits)

lemma observe_holds:
  assumes "holds net v a"
  shows "fst (observe net q a) = expected net v q \<and> holds net v (snd (observe net q a))"
  using native_known_holds [OF assms] text_known_holds [OF assms]
  by (cases q; cases "native_of net v")
    (auto simp: getIp_def getPort_def getProtocol_def getNativeAddress_def getNativeAddressSize_def Let_def prod_eq_iff)

lemma observe_all_holds: "holds net v a \<Longrightarrow> observe_all net qs a = map (expected net v) qs"
  by (induction qs arbitrary: a) (use observe_holds in \<open>fastforce simp: split_beta Let_def\<close>)+

lemma setNativeAddress_holds: "setNativeAddress n a = (True, a') \<Longrightarrow> holds net (NativeAddress n) a'"
  by (auto simp: setNativeAddress_def Let_def split: if_splits)

text \<open>
  C29: an address answers by the value it was last given. Whatever the address was before, and in whatever order and
  however often its members are read afterwards, an address set from a text and a port, or from a binary form of one of
  the two families, gives at every reading the text, port, protocol, binary form and size of that value: the lazy
  conversions cannot be seen.
\<close>
theorem socket_address_observers:
  "observe_all net qs (setAddress ip port a) = map (expected net (TextAddress ip port)) qs
   \<and> (sa_family n = AF_INET \<or> sa_family n = AF_INET6 \<longleftrightarrow> fst (setNativeAddress n a))
   \<and> observe_all net qs (snd (setNativeAddress n a)) =
       (if sa_family n = AF_INET \<or> sa_family n = AF_INET6 then map (expected net (NativeAddress n)) qs else observe_all net qs a)"
proof -
  have from_text: "holds net (TextAddress ip port) (setAddress ip port a)" by (simp add: setAddress_def)
  have from_native: "holds net (NativeAddress n) (snd (setNativeAddress n a))" if "sa_family n = AF_INET \<or> sa_family n = AF_INET6"
    by (rule setNativeAddress_holds [of n a]) (use that in \<open>auto simp: setNativeAddress_def Let_def\<close>)
  show ?thesis
    using observe_all_holds [OF from_text, of qs] observe_all_holds [OF from_native, of qs]
    by (auto simp: setNativeAddress_def Let_def)
qed

theorem socket_address_observers_witness:
  "\<exists>net a. inet_pton4 net = (\<lambda>_. Some [10, 0, 0, 1]) \<and> a = setAddress ''10.0.0.1'' 8080 SocketAddress
     \<and> observe_all net [GetSize, GetIp, GetNative] a
       = [Size 16, Ip ''10.0.0.1'', Native (Some \<lparr>sa_family = AF_INET, sa_port = [31, 144], sa_host = [10, 0, 0, 1], sa_rest = no_rest\<rparr>)]"
proof -
  let ?net = "\<lparr>inet_pton4 = \<lambda>_. Some [10, 0, 0, 1], inet_ntop4 = \<lambda>_. None, inet_pton6 = \<lambda>_. None, inet_ntop6 = \<lambda>_. None\<rparr>"
  have port: "htons 8080 = [31, 144]" unfolding htons_def by (code_simp)
  have "CHR ''.'' \<in> set ''10.0.0.1''" by code_simp
  then have "observe_all ?net [GetSize, GetIp, GetNative] (setAddress ''10.0.0.1'' 8080 SocketAddress)
       = [Size 16, Ip ''10.0.0.1'', Native (Some \<lparr>sa_family = AF_INET, sa_port = [31, 144], sa_host = [10, 0, 0, 1], sa_rest = no_rest\<rparr>)]"
    using socket_address_observers [THEN conjunct1, of ?net "[GetSize, GetIp, GetNative]" "''10.0.0.1''" 8080 SocketAddress]
    by (simp add: port)
  then show ?thesis by (intro exI [of _ ?net]) simp
qed

subsection \<open>Round trips\<close>

lemma ntohs_htons [simp]: "ntohs (htons w) = w"
  using word_bytes_16 [of w] by (simp add: ntohs_def htons_def)

lemma htons_ntohs: "length bs = 2 \<Longrightarrow> htons (ntohs bs) = bs"
  by (auto simp: ntohs_def htons_def numeral_2_eq_2 length_Suc_conv intro!: bit_word_eqI) (auto simp: bit_simps dest: bit_imp_le_length)

lemma ntohl_htonl: "ntohl (htonl w) = w"
  using word_bytes_32 [of w] by (simp add: ntohl_def htonl_def)

lemma zero_rest:
  assumes "length (sa_rest n) = 8"
  shows "sa_rest n = replicate 8 0 \<longleftrightarrow> sin6_flowinfo n = replicate 4 0 \<and> sin6_scope_id n = replicate 4 0"
proof -
  have parts: "replicate 8 (0 :: byte) = replicate 4 0 @ replicate 4 0" by (simp flip: replicate_add)
  have "sa_rest n = sin6_flowinfo n @ sin6_scope_id n" by (simp add: sin6_flowinfo_def sin6_scope_id_def)
  moreover have "length (sin6_flowinfo n) = 4" using assms by (simp add: sin6_flowinfo_def)
  ultimately show ?thesis unfolding parts by (simp add: append_eq_append_conv)
qed

text \<open>
  The documented behaviour of the conversions on one address: its text has a dot (IPv4) or a colon (IPv6), and reads back
  as the same host; the text of an IPv6 address is not one of IPv4.
\<close>

definition inet_inverse :: "inet \<Rightarrow> sockaddr \<Rightarrow> string \<Rightarrow> bool" where
  "inet_inverse net n ip \<longleftrightarrow> length (sa_port n) = 2 \<and>
     (if sa_family n = AF_INET then inet_ntop4 net (sa_host n) = Some ip \<and> CHR ''.'' \<in> set ip \<and> inet_pton4 net ip = Some (sa_host n)
      else inet_ntop6 net (sa_host n) = Some ip \<and> CHR '':'' \<in> set ip \<and> inet_pton6 net ip = Some (sa_host n) \<and> inet_pton4 net ip = None)"

text \<open>
  C30: what of a binary address survives the way through its text and port. Family, host and port do, port bytes included, with
  one exception: an IPv6 address whose text has a dot, as those of mapped IPv4 hosts have, is taken for IPv4 and gives no binary
  address at all. The bytes that are left do not: the flow information and the scope of an IPv6 address come back as zero, so an
  IPv6 address comes back as it was exactly when it has no dot and neither of them.
\<close>
theorem address_text_roundtrip:
  assumes "setNativeAddress n c = (True, a)" and "inet_inverse net n ip" and "length (sa_rest n) = 8"
  shows "(let returned = fst (getNativeAddress net (setAddress (fst (getIp net a)) (fst (getPort net a)) b))
    in returned = (if sa_family n = AF_INET6 \<and> CHR ''.'' \<in> set ip then None else Some (n\<lparr>sa_rest := replicate 8 0\<rparr>))
     \<and> fst (getNativeAddress net a) = Some n
     \<and> (sa_family n = AF_INET6 \<longrightarrow> (returned = fst (getNativeAddress net a)
         \<longleftrightarrow> CHR ''.'' \<notin> set ip \<and> sin6_flowinfo n = replicate 4 0 \<and> sin6_scope_id n = replicate 4 0)))"
proof -
  note held = setNativeAddress_holds [OF assms(1)]
  have fam: "sa_family n = AF_INET \<or> sa_family n = AF_INET6" using held by auto
  have asked: "fst (getIp net a) = ip" "fst (getPort net a) = ntohs (sa_port n)"
    using text_known_holds [OF held, of net] assms(2) fam by (auto simp: getIp_def getPort_def Let_def inet_inverse_def)
  have "fst (getNativeAddress net (setAddress ip (ntohs (sa_port n)) b)) = native_of net (TextAddress ip (ntohs (sa_port n)))"
    using observe_holds [of net "TextAddress ip (ntohs (sa_port n))" "setAddress ip (ntohs (sa_port n)) b" GetNative]
    by (simp add: setAddress_def split_beta Let_def)
  also have "\<dots> = (if sa_family n = AF_INET6 \<and> CHR ''.'' \<in> set ip then None else Some (n\<lparr>sa_rest := replicate 8 0\<rparr>))"
    using assms(2) fam htons_ntohs [of "sa_port n"] by (cases n) (auto simp: inet_inverse_def no_rest_def)
  finally have returned: "fst (getNativeAddress net (setAddress ip (ntohs (sa_port n)) b))
    = (if sa_family n = AF_INET6 \<and> CHR ''.'' \<in> set ip then None else Some (n\<lparr>sa_rest := replicate 8 0\<rparr>))" .
  have "fst (observe net GetNative a) = Native (Some n)" using observe_holds [OF held, of net GetNative] by simp
  then have same: "fst (getNativeAddress net a) = Some n" by (simp add: split_beta Let_def)
  have "n\<lparr>sa_rest := replicate 8 0\<rparr> = n \<longleftrightarrow> sa_rest n = replicate 8 0" by (cases n) auto
  then show ?thesis unfolding asked using returned same zero_rest [OF assms(3)] by (auto simp: Let_def)
qed

text \<open>An IPv4 host mapped into IPv6, and a host of the local link.\<close>

definition mapped_host :: bytes where
  "mapped_host = replicate 10 0 @ [255, 255, 1, 2, 3, 4]"

definition link_local_host :: bytes where
  "link_local_host = [254, 128] @ replicate 13 0 @ [1]"

definition example_inet :: inet where
  "example_inet = \<lparr>inet_pton4 = \<lambda>_. None, inet_ntop4 = \<lambda>_. None,
     inet_pton6 = (\<lambda>t. if t = ''::ffff:1.2.3.4'' then Some mapped_host else if t = ''fe80::1'' then Some link_local_host else None),
     inet_ntop6 = (\<lambda>h. if h = mapped_host then Some ''::ffff:1.2.3.4'' else if h = link_local_host then Some ''fe80::1'' else None)\<rparr>"

theorem address_text_roundtrip_witness:
  "(\<exists>a. setNativeAddress \<lparr>sa_family = AF_INET6, sa_port = [31, 144], sa_host = mapped_host, sa_rest = no_rest\<rparr> SocketAddress = (True, a)
     \<and> fst (getNativeAddress example_inet (setAddress (fst (getIp example_inet a)) (fst (getPort example_inet a)) SocketAddress)) = None)
   \<and> (\<exists>a. setNativeAddress \<lparr>sa_family = AF_INET6, sa_port = [31, 144], sa_host = link_local_host, sa_rest = [0, 0, 0, 0, 2, 0, 0, 0]\<rparr>
       SocketAddress = (True, a)
     \<and> fst (getNativeAddress example_inet (setAddress (fst (getIp example_inet a)) (fst (getPort example_inet a)) SocketAddress))
       = Some \<lparr>sa_family = AF_INET6, sa_port = [31, 144], sa_host = link_local_host, sa_rest = [0, 0, 0, 0, 0, 0, 0, 0]\<rparr>)"
proof -
  let ?n = "\<lparr>sa_family = AF_INET6, sa_port = [31, 144], sa_host = mapped_host, sa_rest = no_rest\<rparr>"
    and ?m = "\<lparr>sa_family = AF_INET6, sa_port = [31, 144], sa_host = link_local_host, sa_rest = [0, 0, 0, 0, 2, 0, 0, 0]\<rparr>"
  obtain a where a: "setNativeAddress ?n SocketAddress = (True, a)" by (simp add: setNativeAddress_def)
  obtain d where d: "setNativeAddress ?m SocketAddress = (True, d)" by (simp add: setNativeAddress_def)
  have inv: "inet_inverse example_inet ?n ''::ffff:1.2.3.4''" by (simp add: inet_inverse_def example_inet_def)
  have "link_local_host \<noteq> mapped_host" by (simp add: link_local_host_def mapped_host_def)
  then have inv2: "inet_inverse example_inet ?m ''fe80::1''" by (simp add: inet_inverse_def example_inet_def)
  have 1: "fst (getNativeAddress example_inet (setAddress (fst (getIp example_inet a)) (fst (getPort example_inet a)) SocketAddress)) = None"
    using address_text_roundtrip [OF a inv, of SocketAddress] by (simp add: no_rest_def Let_def)
  have 2: "fst (getNativeAddress example_inet (setAddress (fst (getIp example_inet d)) (fst (getPort example_inet d)) SocketAddress))
      = Some \<lparr>sa_family = AF_INET6, sa_port = [31, 144], sa_host = link_local_host, sa_rest = [0, 0, 0, 0, 0, 0, 0, 0]\<rparr>"
    using address_text_roundtrip [OF d inv2, of SocketAddress] by (simp add: eval_nat_numeral Let_def)
  show ?thesis using a d 1 2 by blast
qed

end
