(* ===== verification/Tcp_Socket.thy ===== *)
theory Tcp_Socket
  imports Socket_Address Io_Device
begin

text \<open>
  Opening sockets (\<open>net/tcp_socket.h\<close>, \<open>.cc\<close>, \<open>net/network.cc\<close>, in the branches for systems other than Windows).

  The kernel has a table of open descriptors with the options that the code sets, the answers its calls will give
  (0, or the \<open>errno\<close> of a failure; once they are used up, every call succeeds), the numbers it will give to new
  descriptors, and how many connections wait to be accepted. A call on a descriptor that is not open fails with
  \<open>EBADF\<close>. A \<open>TcpSocket\<close> is its descriptor, -1 for none.
\<close>

subsection \<open>The kernel\<close>

definition EBADF :: int where "EBADF = 9"
definition EWOULDBLOCK :: int where "EWOULDBLOCK = 11"
definition ENFILE :: int where "ENFILE = 23"
definition EMFILE :: int where "EMFILE = 24"
definition EAFNOSUPPORT :: int where "EAFNOSUPPORT = 97"
definition ECONNABORTED :: int where "ECONNABORTED = 103"

record fd_state =
  ff_cloexec :: bool
  ff_nonblock :: bool
  ff_reuse :: bool
  ff_nodelay :: bool
  ff_local :: "sockaddr option"
  ff_remote :: "sockaddr option"
  ff_backlog :: "int option"
  ff_shut_read :: bool
  ff_shut_write :: bool

definition new_fd :: fd_state where
  "new_fd = \<lparr>ff_cloexec = False, ff_nonblock = False, ff_reuse = False, ff_nodelay = False, ff_local = None,
     ff_remote = None, ff_backlog = None, ff_shut_read = False, ff_shut_write = False\<rparr>"

record fd_kernel =
  fk_fds :: "int \<rightharpoonup> fd_state"
  fk_answers :: "int list"
  fk_numbers :: "int list"
  fk_pending :: nat
  fk_errno :: int

definition answer :: "fd_kernel \<Rightarrow> int \<times> fd_kernel" where
  "answer k =
     (case fk_answers k of [] \<Rightarrow> (0, k)
      | e # es \<Rightarrow> (e, if e = 0 then k\<lparr>fk_answers := es\<rparr> else k\<lparr>fk_answers := es, fk_errno := e\<rparr>))"

text \<open>A new descriptor: a number that is not in use.\<close>

definition allocate :: "fd_kernel \<Rightarrow> int \<times> fd_kernel" where
  "allocate k =
     (case fk_numbers k of [] \<Rightarrow> (-1, k\<lparr>fk_errno := EMFILE\<rparr>)
      | n # ns \<Rightarrow> if n < 0 \<or> fk_fds k n \<noteq> None then (-1, k\<lparr>fk_numbers := ns, fk_errno := EMFILE\<rparr>)
                  else (n, k\<lparr>fk_numbers := ns, fk_fds := (fk_fds k)(n \<mapsto> new_fd)\<rparr>))"

definition sys_socket :: "fd_kernel \<Rightarrow> int \<times> fd_kernel" where
  "sys_socket k = (let (e, k1) = answer k in if e \<noteq> 0 then (-1, k1) else allocate k1)"

definition sys_close :: "int \<Rightarrow> fd_kernel \<Rightarrow> fd_kernel" where
  "sys_close fd k = (let (e, k1) = answer k in k1\<lparr>fk_fds := (fk_fds k1)(fd := None)\<rparr>)"

text \<open>A call that changes the descriptor by \<open>f\<close>: whether it succeeded.\<close>

definition sys_change :: "int \<Rightarrow> (fd_state \<Rightarrow> fd_state) \<Rightarrow> fd_kernel \<Rightarrow> bool \<times> fd_kernel" where
  "sys_change fd f k =
     (let (e, k1) = answer k
      in if e \<noteq> 0 then (False, k1)
         else case fk_fds k1 fd of None \<Rightarrow> (False, k1\<lparr>fk_errno := EBADF\<rparr>)
              | Some s \<Rightarrow> (True, k1\<lparr>fk_fds := (fk_fds k1)(fd \<mapsto> f s)\<rparr>))"

text \<open>\<open>accept\<close> on a non-blocking socket; an aborted connection is taken off the queue.\<close>

definition sys_accept :: "int \<Rightarrow> fd_kernel \<Rightarrow> int \<times> fd_kernel" where
  "sys_accept fd k =
     (let (e, k1) = answer k
      in if e \<noteq> 0 then (-1, if e = ECONNABORTED then k1\<lparr>fk_pending := fk_pending k1 - 1\<rparr> else k1)
         else if fk_fds k1 fd = None then (-1, k1\<lparr>fk_errno := EBADF\<rparr>)
         else if fk_pending k1 = 0 then (-1, k1\<lparr>fk_errno := EWOULDBLOCK\<rparr>)
         else let (n, k2) = allocate k1
              in if n = -1 then (-1, k2) else (n, k2\<lparr>fk_pending := fk_pending k2 - 1\<rparr>))"

subsection \<open>\<open>NetWork\<close>\<close>

definition makeNonblock :: "int \<Rightarrow> fd_kernel \<Rightarrow> int \<times> fd_kernel" where
  "makeNonblock fd k =
     (let (ok, k1) = sys_change fd (\<lambda>s. s) k
      in if \<not> ok then (-1, k1)
         else if (case fk_fds k1 fd of None \<Rightarrow> False | Some s \<Rightarrow> ff_nonblock s) then (0, k1)
         else let (ok', k2) = sys_change fd (\<lambda>s. s\<lparr>ff_nonblock := True\<rparr>) k1
              in if \<not> ok' then (-1, k2) else (0, k2))"

definition makeReuseAddr :: "int \<Rightarrow> fd_kernel \<Rightarrow> int \<times> fd_kernel" where
  "makeReuseAddr fd k =
     (let (ok, k1) = sys_change fd (\<lambda>s. s\<lparr>ff_reuse := True\<rparr>) k in if \<not> ok then (-1, k1) else (0, k1))"

definition makeTcpNoDelay :: "int \<Rightarrow> fd_kernel \<Rightarrow> int \<times> fd_kernel" where
  "makeTcpNoDelay fd k =
     (let (ok, k1) = sys_change fd (\<lambda>s. s\<lparr>ff_nodelay := True\<rparr>) k in if \<not> ok then (-1, k1) else (0, k1))"

text \<open>The result of the first \<open>fcntl\<close> is used without a check.\<close>

definition setCloseOnExec :: "int \<Rightarrow> fd_kernel \<Rightarrow> bool \<times> fd_kernel" where
  "setCloseOnExec fd k =
     (let (got, k1) = sys_change fd (\<lambda>s. s) k; (ok, k2) = sys_change fd (\<lambda>s. s\<lparr>ff_cloexec := True\<rparr>) k1
      in if \<not> ok then (False, k2) else (True, k2))"

definition destroySocket :: "int \<Rightarrow> fd_kernel \<Rightarrow> fd_kernel" where
  "destroySocket fd k = sys_close fd k"

subsection \<open>\<open>IODevice\<close>\<close>

text \<open>The device's own versions of these two, which sockets override and pipes use; the second one compares a bool with 0.\<close>

definition dev_setNonblock :: "int \<Rightarrow> fd_kernel \<Rightarrow> bool \<times> fd_kernel" where
  "dev_setNonblock fd k = (let (r, k1) = makeNonblock fd k in (r = 0, k1))"

definition dev_setCloseOnExec :: "int \<Rightarrow> fd_kernel \<Rightarrow> bool \<times> fd_kernel" where
  "dev_setCloseOnExec fd k = (let (r, k1) = setCloseOnExec fd k in (\<not> r, k1))"

subsection \<open>\<open>TcpSocket\<close>\<close>

definition ts_close :: "int \<Rightarrow> fd_kernel \<Rightarrow> int \<times> fd_kernel" where
  "ts_close fd k = (if fd \<noteq> -1 then (-1, destroySocket fd k) else (fd, k))"

definition ts_open :: "protocol_type \<Rightarrow> int \<Rightarrow> fd_kernel \<Rightarrow> bool \<times> int \<times> fd_kernel" where
  "ts_open pr fd k =
     (let (fd1, k1) = (if fd \<noteq> -1 then ts_close fd k else (fd, k))
      in if pr \<noteq> IP_V4 \<and> pr \<noteq> IP_V6 then (False, fd1, k1\<lparr>fk_errno := EAFNOSUPPORT\<rparr>)
         else let (fd2, k2) = sys_socket k1
              in if fd2 = -1 then (False, fd2, k2)
                 else let (ok, k3) = setCloseOnExec fd2 k2
                      in if \<not> ok then (False, ts_close fd2 k3) else (True, fd2, k3))"

definition ts_connect :: "sockaddr option \<Rightarrow> int \<Rightarrow> fd_kernel \<Rightarrow> bool \<times> fd_kernel" where
  "ts_connect addr fd k =
     (case addr of None \<Rightarrow> (False, k\<lparr>fk_errno := EAFNOSUPPORT\<rparr>)
      | Some n \<Rightarrow> sys_change fd (\<lambda>s. s\<lparr>ff_remote := Some n\<rparr>) k)"

definition ts_bind :: "sockaddr option \<Rightarrow> int \<Rightarrow> fd_kernel \<Rightarrow> bool \<times> fd_kernel" where
  "ts_bind addr fd k =
     (case addr of None \<Rightarrow> (False, k\<lparr>fk_errno := EAFNOSUPPORT\<rparr>)
      | Some n \<Rightarrow> sys_change fd (\<lambda>s. s\<lparr>ff_local := Some n\<rparr>) k)"

definition ts_listen :: "int \<Rightarrow> int \<Rightarrow> fd_kernel \<Rightarrow> bool \<times> fd_kernel" where
  "ts_listen backlog fd k = sys_change fd (\<lambda>s. s\<lparr>ff_backlog := Some backlog\<rparr>) k"

text \<open>\<open>accept\<close> into a new \<open>TcpSocket\<close>, which has no descriptor yet: its descriptor afterwards.\<close>

definition ts_accept :: "int \<Rightarrow> fd_kernel \<Rightarrow> bool \<times> int \<times> fd_kernel" where
  "ts_accept fd k =
     (let (n, k1) = sys_accept fd k
      in if n = -1 then (False, -1, k1)
         else let (ok, k2) = setCloseOnExec n k1 in if \<not> ok then (False, ts_close n k2) else (True, n, k2))"

definition setReuseAddr :: "int \<Rightarrow> fd_kernel \<Rightarrow> bool \<times> fd_kernel" where
  "setReuseAddr fd k = (let (r, k1) = makeReuseAddr fd k in (r \<noteq> -1, k1))"

definition setTcpNoDelay :: "int \<Rightarrow> fd_kernel \<Rightarrow> bool \<times> fd_kernel" where
  "setTcpNoDelay fd k = (let (r, k1) = makeTcpNoDelay fd k in (r \<noteq> -1, k1))"

definition ts_setNonblock :: "int \<Rightarrow> fd_kernel \<Rightarrow> bool \<times> fd_kernel" where
  "ts_setNonblock fd k = (let (r, k1) = makeNonblock fd k in (r \<noteq> -1, k1))"

text \<open>\<open>and_then\<close> is the short-circuit of the conditions \<open>f() == false || g() == false\<close>.\<close>

definition and_then :: "(fd_kernel \<Rightarrow> bool \<times> fd_kernel) \<Rightarrow> (fd_kernel \<Rightarrow> bool \<times> fd_kernel) \<Rightarrow> fd_kernel \<Rightarrow> bool \<times> fd_kernel" where
  "and_then f g k = (let (ok, k1) = f k in if \<not> ok then (False, k1) else g k1)"

definition or_close :: "(int \<Rightarrow> fd_kernel \<Rightarrow> bool \<times> fd_kernel) \<Rightarrow> bool \<times> int \<times> fd_kernel \<Rightarrow> bool \<times> int \<times> fd_kernel" where
  "or_close f r =
     (case r of (opened, fd, k) \<Rightarrow>
        if \<not> opened then (False, fd, k)
        else let (ok, k1) = f fd k in if \<not> ok then (False, ts_close fd k1) else (True, fd, k1))"

definition activeOpen :: "inet \<Rightarrow> socket_address \<Rightarrow> int \<Rightarrow> fd_kernel \<Rightarrow> bool \<times> int \<times> fd_kernel" where
  "activeOpen net remote fd k =
     or_close (\<lambda>fd. and_then (setReuseAddr fd) (and_then (setTcpNoDelay fd) (ts_connect (fst (getNativeAddress net remote)) fd)))
       (ts_open (fst (getProtocol net remote)) fd k)"

definition activeOpenNonblock :: "inet \<Rightarrow> socket_address \<Rightarrow> int \<Rightarrow> fd_kernel \<Rightarrow> bool \<times> int \<times> fd_kernel" where
  "activeOpenNonblock net remote fd k = or_close ts_setNonblock (activeOpen net remote fd k)"

definition passiveOpen :: "inet \<Rightarrow> socket_address \<Rightarrow> int \<Rightarrow> fd_kernel \<Rightarrow> bool \<times> int \<times> fd_kernel" where
  "passiveOpen net local fd k =
     or_close (\<lambda>fd. and_then (setReuseAddr fd) (and_then (setTcpNoDelay fd)
         (and_then (ts_bind (fst (getNativeAddress net local)) fd) (ts_listen 128 fd))))
       (ts_open (fst (getProtocol net local)) fd k)"

definition passiveOpenNonblock :: "inet \<Rightarrow> socket_address \<Rightarrow> int \<Rightarrow> fd_kernel \<Rightarrow> bool \<times> int \<times> fd_kernel" where
  "passiveOpenNonblock net local fd k = or_close ts_setNonblock (passiveOpen net local fd k)"

text \<open>When an option cannot be set, the peer keeps its descriptor; its destructor closes it.\<close>

definition acceptNonblock :: "int \<Rightarrow> fd_kernel \<Rightarrow> bool \<times> int \<times> fd_kernel" where
  "acceptNonblock fd k =
     (let (ok, peer, k1) = ts_accept fd k
      in if \<not> ok then (False, peer, k1)
         else let (set, k2) = and_then (setTcpNoDelay peer) (ts_setNonblock peer) k1
              in (set, peer, k2))"

text \<open>Shutting down, and what the kernel is asked for: the answers on success are arguments.\<close>

definition shutdownRead :: "int \<Rightarrow> fd_kernel \<Rightarrow> bool \<times> fd_kernel" where
  "shutdownRead fd k = sys_change fd (\<lambda>s. s\<lparr>ff_shut_read := True\<rparr>) k"

definition shutdownWrite :: "int \<Rightarrow> fd_kernel \<Rightarrow> bool \<times> fd_kernel" where
  "shutdownWrite fd k = sys_change fd (\<lambda>s. s\<lparr>ff_shut_write := True\<rparr>) k"

definition shutdownBoth :: "int \<Rightarrow> fd_kernel \<Rightarrow> bool \<times> fd_kernel" where
  "shutdownBoth fd k = sys_change fd (\<lambda>s. s\<lparr>ff_shut_read := True, ff_shut_write := True\<rparr>) k"

definition getSocketError :: "int \<Rightarrow> int \<Rightarrow> fd_kernel \<Rightarrow> int \<times> fd_kernel" where
  "getSocketError opt fd k = (let (ok, k1) = sys_change fd (\<lambda>s. s) k in (if \<not> ok then fk_errno k1 else opt, k1))"

definition getLocalAddress :: "sockaddr \<Rightarrow> socket_address \<Rightarrow> int \<Rightarrow> fd_kernel \<Rightarrow> bool \<times> socket_address \<times> fd_kernel" where
  "getLocalAddress name addr fd k =
     (let (ok, k1) = sys_change fd (\<lambda>s. s) k
      in if \<not> ok then (False, addr, k1) else let (valid, addr1) = setNativeAddress name addr in (valid, addr1, k1))"

definition getPeerAddress :: "sockaddr \<Rightarrow> socket_address \<Rightarrow> int \<Rightarrow> fd_kernel \<Rightarrow> bool \<times> socket_address \<times> fd_kernel" where
  "getPeerAddress name addr fd k =
     (let (ok, k1) = sys_change fd (\<lambda>s. s) k
      in if \<not> ok then (False, addr, k1) else let (valid, addr1) = setNativeAddress name addr in (valid, addr1, k1))"

lemma peer_address_holds:
  "getPeerAddress name addr fd k = (True, addr', k') \<Longrightarrow> holds net (NativeAddress name) addr'"
  by (auto simp: getPeerAddress_def split: prod.splits if_splits dest: setNativeAddress_holds)

subsection \<open>What the calls do to the descriptors\<close>

text \<open>
  \<open>changes fd u f\<close>: the call \<open>f\<close> touches no descriptor but \<open>fd\<close>, which stays open, and when it succeeds it has changed
  that one by \<open>u\<close>.
\<close>

definition changes :: "int \<Rightarrow> (fd_state \<Rightarrow> fd_state) \<Rightarrow> (fd_kernel \<Rightarrow> bool \<times> fd_kernel) \<Rightarrow> bool" where
  "changes fd u f \<longleftrightarrow> (\<forall>k s. fk_fds k fd = Some s \<longrightarrow>
     (\<exists>s'. fk_fds (snd (f k)) = (fk_fds k)(fd \<mapsto> s') \<and> (fst (f k) \<longrightarrow> s' = u s)))"

lemma answer_fds [simp]: "fk_fds (snd (answer k)) = fk_fds k" "fk_pending (snd (answer k)) = fk_pending k"
  by (auto simp: answer_def split: list.split)

lemma changesI:
  assumes "\<And>k s. fk_fds k fd = Some s \<Longrightarrow> \<exists>s'. fk_fds (snd (f k)) = (fk_fds k)(fd \<mapsto> s') \<and> (fst (f k) \<longrightarrow> s' = u s)"
  shows "changes fd u f"
  using assms by (simp add: changes_def)

lemma changesD:
  "changes fd u f \<Longrightarrow> fk_fds k fd = Some s \<Longrightarrow> \<exists>s'. fk_fds (snd (f k)) = (fk_fds k)(fd \<mapsto> s') \<and> (fst (f k) \<longrightarrow> s' = u s)"
  by (simp add: changes_def)

lemma upd_same: "m fd = Some s \<Longrightarrow> \<exists>s'. m = m(fd \<mapsto> s')"
  by (intro exI [of _ s]) (simp add: fun_upd_idem)

lemma changes_sys: "changes fd u (sys_change fd u)"
  by (rule changesI) (auto simp: sys_change_def split_beta Let_def intro: upd_same)

lemma changes_and_then:
  assumes "changes fd u f" and "changes fd v g"
  shows "changes fd (v \<circ> u) (and_then f g)"
proof (rule changesI)
  fix k :: fd_kernel and s
  assume "fk_fds k fd = Some s"
  then obtain s1 where s1: "fk_fds (snd (f k)) = (fk_fds k)(fd \<mapsto> s1)" "fst (f k) \<longrightarrow> s1 = u s"
    using assms(1) by (auto simp: changes_def)
  then have "fk_fds (snd (f k)) fd = Some s1" by simp
  then obtain s2 where "fk_fds (snd (g (snd (f k)))) = (fk_fds (snd (f k)))(fd \<mapsto> s2)" "fst (g (snd (f k))) \<longrightarrow> s2 = v s1"
    using assms(2) by (auto simp: changes_def)
  then show "\<exists>s'. fk_fds (snd (and_then f g k)) = (fk_fds k)(fd \<mapsto> s') \<and> (fst (and_then f g k) \<longrightarrow> s' = (v \<circ> u) s)"
    using s1 by (cases "f k") (auto simp: and_then_def)
qed

lemma changes_nonblock: "changes fd (\<lambda>s. s\<lparr>ff_nonblock := True\<rparr>) (\<lambda>k. (fst (makeNonblock fd k) \<noteq> -1, snd (makeNonblock fd k)))"
proof (rule changesI)
  fix k :: fd_kernel and s
  assume s: "fk_fds k fd = Some s"
  define k1 where "k1 = snd (sys_change fd (\<lambda>s. s) k)"
  have k1: "fk_fds k1 = fk_fds k"
    using s by (auto simp: k1_def sys_change_def split_beta Let_def fun_upd_idem)
  obtain s' where s': "fk_fds (snd (sys_change fd (\<lambda>s. s\<lparr>ff_nonblock := True\<rparr>) k1)) = (fk_fds k)(fd \<mapsto> s')"
      "fst (sys_change fd (\<lambda>s. s\<lparr>ff_nonblock := True\<rparr>) k1) \<longrightarrow> s' = s\<lparr>ff_nonblock := True\<rparr>"
    using changesD [OF changes_sys [of fd "\<lambda>s. s\<lparr>ff_nonblock := True\<rparr>"], of k1 s] s k1 by auto
  have "s\<lparr>ff_nonblock := True\<rparr> = s" if "ff_nonblock s" using that by (cases s) simp
  then show "\<exists>s'. fk_fds (snd (fst (makeNonblock fd k) \<noteq> -1, snd (makeNonblock fd k))) = (fk_fds k)(fd \<mapsto> s')
      \<and> (fst (fst (makeNonblock fd k) \<noteq> -1, snd (makeNonblock fd k)) \<longrightarrow> s' = s\<lparr>ff_nonblock := True\<rparr>)"
    using s s' by (auto simp: makeNonblock_def split_beta Let_def k1_def [symmetric] k1 fun_upd_idem intro: upd_same)
qed

lemma changes_setNonblock: "changes fd (\<lambda>s. s\<lparr>ff_nonblock := True\<rparr>) (ts_setNonblock fd)"
  using changes_nonblock [of fd] by (simp add: changes_def ts_setNonblock_def split_beta Let_def)

lemma changes_setReuseAddr: "changes fd (\<lambda>s. s\<lparr>ff_reuse := True\<rparr>) (setReuseAddr fd)"
proof -
  have "setReuseAddr fd = sys_change fd (\<lambda>s. s\<lparr>ff_reuse := True\<rparr>)"
    by (rule ext) (auto simp: setReuseAddr_def makeReuseAddr_def split_beta Let_def prod_eq_iff)
  then show ?thesis by (simp add: changes_sys)
qed

lemma changes_setTcpNoDelay: "changes fd (\<lambda>s. s\<lparr>ff_nodelay := True\<rparr>) (setTcpNoDelay fd)"
proof -
  have "setTcpNoDelay fd = sys_change fd (\<lambda>s. s\<lparr>ff_nodelay := True\<rparr>)"
    by (rule ext) (auto simp: setTcpNoDelay_def makeTcpNoDelay_def split_beta Let_def prod_eq_iff)
  then show ?thesis by (simp add: changes_sys)
qed

lemma changes_setCloseOnExec: "changes fd (\<lambda>s. s\<lparr>ff_cloexec := True\<rparr>) (setCloseOnExec fd)"
proof (rule changesI)
  fix k :: fd_kernel and s
  assume s: "fk_fds k fd = Some s"
  define k1 where "k1 = snd (sys_change fd (\<lambda>s. s) k)"
  have k1: "fk_fds k1 = fk_fds k" using s by (auto simp: k1_def sys_change_def split_beta Let_def fun_upd_idem)
  show "\<exists>s'. fk_fds (snd (setCloseOnExec fd k)) = (fk_fds k)(fd \<mapsto> s') \<and> (fst (setCloseOnExec fd k) \<longrightarrow> s' = s\<lparr>ff_cloexec := True\<rparr>)"
    using changesD [OF changes_sys [of fd "\<lambda>s. s\<lparr>ff_cloexec := True\<rparr>"], of k1 s] s k1
    by (auto simp: setCloseOnExec_def split_beta Let_def k1_def [symmetric])
qed

lemma changes_connect: "changes fd (\<lambda>s. s\<lparr>ff_remote := addr\<rparr>) (ts_connect addr fd)"
proof (cases addr)
  case None
  then show ?thesis by (intro changesI) (auto simp: ts_connect_def intro: upd_same)
next
  case (Some n)
  then show ?thesis using changes_sys by (simp add: ts_connect_def [abs_def])
qed

lemma changes_bind: "changes fd (\<lambda>s. s\<lparr>ff_local := addr\<rparr>) (ts_bind addr fd)"
proof (cases addr)
  case None
  then show ?thesis by (intro changesI) (auto simp: ts_bind_def intro: upd_same)
next
  case (Some n)
  then show ?thesis using changes_sys by (simp add: ts_bind_def [abs_def])
qed

lemma changes_listen: "changes fd (\<lambda>s. s\<lparr>ff_backlog := Some n\<rparr>) (ts_listen n fd)"
  using changes_sys by (simp add: ts_listen_def [abs_def])

lemmas changes_all = changes_setNonblock changes_setReuseAddr changes_setTcpNoDelay changes_setCloseOnExec changes_connect
  changes_bind changes_listen

text \<open>
  The outcome of opening: a new descriptor in the state \<open>st\<close> and no other change of the table \<open>base\<close>, or no descriptor
  and no change.
\<close>

definition opened :: "(int \<rightharpoonup> fd_state) \<Rightarrow> fd_state \<Rightarrow> bool \<times> int \<times> fd_kernel \<Rightarrow> bool" where
  "opened base st r \<longleftrightarrow>
     (case r of (ok, fd, k) \<Rightarrow>
        if ok then 0 \<le> fd \<and> base fd = None \<and> fk_fds k = base(fd \<mapsto> st) else fd = -1 \<and> fk_fds k = base)"

lemma close_fds: "fk_fds (snd (ts_close fd k)) = (if fd \<noteq> -1 then (fk_fds k)(fd := None) else fk_fds k)"
  by (simp add: ts_close_def destroySocket_def sys_close_def split_beta Let_def)

lemma close_fd: "fst (ts_close fd k) = -1"
  by (simp add: ts_close_def)

lemma allocate_cases:
  "(fst (allocate k) = -1 \<and> fk_fds (snd (allocate k)) = fk_fds k)
   \<or> (0 \<le> fst (allocate k) \<and> fk_fds k (fst (allocate k)) = None \<and> fk_fds (snd (allocate k)) = (fk_fds k)(fst (allocate k) \<mapsto> new_fd))"
  by (auto simp: allocate_def split: list.split)

lemma opened_or_close:
  assumes r: "opened base st r" and f: "\<And>fd. changes fd u (f fd)"
  shows "opened base (u st) (or_close f r)"
proof -
  obtain ok fd k where r': "r = (ok, fd, k)" by (cases r)
  show ?thesis
  proof (cases ok)
    case False
    then show ?thesis using r by (simp add: r' opened_def or_close_def)
  next
    case True
    then have k: "0 \<le> fd" "base fd = None" "fk_fds k = base(fd \<mapsto> st)" using r by (simp_all add: r' opened_def)
    then obtain s' where "fk_fds (snd (f fd k)) = (fk_fds k)(fd \<mapsto> s')" "fst (f fd k) \<longrightarrow> s' = u st"
      using changesD [OF f [of fd], of k st] by auto
    then show ?thesis
      using True k close_fds [of fd "snd (f fd k)"] close_fd [of fd "snd (f fd k)"]
      by (cases "f fd k"; cases "ts_close fd (snd (f fd k))") (auto simp: r' or_close_def opened_def)
  qed
qed

lemma ts_open_opened:
  assumes "fk_fds k (-1) = None"
  shows "opened ((fk_fds k)(fd := None)) (new_fd\<lparr>ff_cloexec := True\<rparr>) (ts_open pr fd k)"
proof -
  define fk where "fk = (if fd \<noteq> -1 then ts_close fd k else (fd, k))"
  have fk: "fst fk = -1" "fk_fds (snd fk) = (fk_fds k)(fd := None)"
    using assms by (auto simp: fk_def close_fds close_fd)
  show ?thesis
  proof (cases "pr = IP_V4 \<or> pr = IP_V6")
    case False
    then show ?thesis by (simp add: ts_open_def fk_def [symmetric] split_beta Let_def opened_def fk)
  next
    case True
    define r where "r = (let (n, k2) = sys_socket (snd fk) in (n \<noteq> -1, n, k2))"
    have "opened ((fk_fds k)(fd := None)) new_fd r"
    proof (cases "fst (answer (snd fk)) = 0")
      case False
      then show ?thesis by (simp add: r_def sys_socket_def split_beta Let_def opened_def fk)
    next
      case True
      then show ?thesis
        using allocate_cases [of "snd (answer (snd fk))"]
        by (auto simp: r_def sys_socket_def split_beta Let_def opened_def fk)
    qed
    then have "opened ((fk_fds k)(fd := None)) (new_fd\<lparr>ff_cloexec := True\<rparr>) (or_close setCloseOnExec r)"
      by (rule opened_or_close) (rule changes_setCloseOnExec)
    also have "or_close setCloseOnExec r = ts_open pr fd k"
      using True by (auto simp: ts_open_def fk_def [symmetric] r_def or_close_def split_beta Let_def)
    finally show ?thesis .
  qed
qed

text \<open>
  C28: opening a socket loses no descriptor and sets every option. Whatever calls fail, \<open>activeOpenNonblock\<close> and
  \<open>passiveOpenNonblock\<close> close the descriptor the socket had and either return true with a new descriptor that is
  close-on-exec, non-blocking, reuses its address, sends without delay and is connected to (bound to, and
  listening on) the given address, or return false with no descriptor; every other descriptor is left alone.
\<close>
theorem open_keeps_descriptors:
  assumes "fk_fds k (-1) = None"
  shows "opened ((fk_fds k)(fd := None))
      \<lparr>ff_cloexec = True, ff_nonblock = True, ff_reuse = True, ff_nodelay = True, ff_local = None,
       ff_remote = fst (getNativeAddress net addr), ff_backlog = None, ff_shut_read = False, ff_shut_write = False\<rparr>
      (activeOpenNonblock net addr fd k)
    \<and> opened ((fk_fds k)(fd := None))
      \<lparr>ff_cloexec = True, ff_nonblock = True, ff_reuse = True, ff_nodelay = True, ff_local = fst (getNativeAddress net addr),
       ff_remote = None, ff_backlog = Some 128, ff_shut_read = False, ff_shut_write = False\<rparr>
      (passiveOpenNonblock net addr fd k)"
proof
  note start = ts_open_opened [OF assms, of fd "fst (getProtocol net addr)"]
  from opened_or_close [OF opened_or_close [OF start changes_and_then [OF changes_setReuseAddr changes_and_then
      [OF changes_setTcpNoDelay changes_connect]]] changes_setNonblock]
  show "opened ((fk_fds k)(fd := None))
      \<lparr>ff_cloexec = True, ff_nonblock = True, ff_reuse = True, ff_nodelay = True, ff_local = None,
       ff_remote = fst (getNativeAddress net addr), ff_backlog = None, ff_shut_read = False, ff_shut_write = False\<rparr>
      (activeOpenNonblock net addr fd k)"
    by (simp add: activeOpenNonblock_def activeOpen_def new_fd_def)
  from opened_or_close [OF opened_or_close [OF start changes_and_then [OF changes_setReuseAddr changes_and_then
      [OF changes_setTcpNoDelay changes_and_then [OF changes_bind changes_listen]]]] changes_setNonblock]
  show "opened ((fk_fds k)(fd := None))
      \<lparr>ff_cloexec = True, ff_nonblock = True, ff_reuse = True, ff_nodelay = True, ff_local = fst (getNativeAddress net addr),
       ff_remote = None, ff_backlog = Some 128, ff_shut_read = False, ff_shut_write = False\<rparr>
      (passiveOpenNonblock net addr fd k)"
    by (simp add: passiveOpenNonblock_def passiveOpen_def new_fd_def)
qed

text \<open>Listening on a link-local address: once all calls succeed, once \<open>bind\<close> fails with \<open>EADDRINUSE\<close>.\<close>

definition some_address :: socket_address where
  "some_address = setAddress ''fe80::1'' 8080 SocketAddress"

definition some_kernel :: "int list \<Rightarrow> fd_kernel" where
  "some_kernel errnos = \<lparr>fk_fds = [5 \<mapsto> new_fd], fk_answers = errnos, fk_numbers = [6], fk_pending = 0, fk_errno = 0\<rparr>"

theorem open_keeps_descriptors_witness:
  "\<exists>k k' st. passiveOpenNonblock example_inet some_address 4 (some_kernel []) = (True, 6, k) \<and> fk_fds k = [5 \<mapsto> new_fd, 6 \<mapsto> st]
     \<and> ff_backlog st = Some 128 \<and> ff_nonblock st \<and> map_option sa_host (ff_local st) = Some link_local_host
     \<and> passiveOpenNonblock example_inet some_address 4 (some_kernel [0, 0, 0, 0, 0, 98]) = (False, -1, k') \<and> fk_fds k' = [5 \<mapsto> new_fd]
     \<and> fk_answers k' = []"
proof -
  let ?r = "passiveOpenNonblock example_inet some_address 4 (some_kernel [])"
  let ?e = "passiveOpenNonblock example_inet some_address 4 (some_kernel [0, 0, 0, 0, 0, 98])"
  have "(fk_fds (some_kernel x))(4 := None) = [5 \<mapsto> new_fd]" for x by (auto simp: some_kernel_def)
  then have fds: "opened [5 \<mapsto> new_fd]
      \<lparr>ff_cloexec = True, ff_nonblock = True, ff_reuse = True, ff_nodelay = True, ff_local = fst (getNativeAddress example_inet some_address),
       ff_remote = None, ff_backlog = Some 128, ff_shut_read = False, ff_shut_write = False\<rparr>
      (passiveOpenNonblock example_inet some_address 4 (some_kernel x))" for x
    using open_keeps_descriptors [of "some_kernel x" 4 example_inet some_address] by (simp add: some_kernel_def)
  have "fst ?r \<and> fst (snd ?r) = 6" by code_simp
  moreover have "\<not> fst ?e \<and> fst (snd ?e) = -1 \<and> fk_answers (snd (snd ?e)) = []" by code_simp
  moreover have "map_option sa_host (fst (getNativeAddress example_inet some_address)) = Some link_local_host" by code_simp
  ultimately show ?thesis
    using fds [of "[]"] fds [of "[0, 0, 0, 0, 0, 98]"] by (cases ?r; cases ?e) (auto simp: opened_def)
qed

end
