(* ===== verification/Acceptor_Model.thy ===== *)
theory Acceptor_Model
  imports Tcp_Socket Net_Ids Epoll_Service
begin

text \<open>
  The acceptor (\<open>net/acceptor.h\<close>, \<open>.cc\<close>, \<open>net/epoll_acceptor.h\<close>, \<open>.cc\<close>): the thread that takes new connections from the
  listening socket, numbers them and gives them to \<open>new_conn_cb_\<close>.

  The sockets given to the callback are collected in \<open>ac_given\<close>; \<open>takes\<close> says whether the callback keeps a
  socket, as one that it leaves behind is closed by the \<open>unique_ptr\<close> of the loop. The address of the
  n-th socket object is \<open>mem n\<close>.
\<close>

subsection \<open>State\<close>

text \<open>
  \<open>ac_quit\<close> is the member \<open>quit_\<close> that \<open>Acceptor\<close> declares again, hiding the one of \<open>IOService\<close> (\<open>is_quit\<close>): its loop
  looks at the former, \<open>IOService::quit\<close> sets the latter.
\<close>

record 't acceptor = "'t epoll_service" +
  ac_listen :: io_device
  ac_quit :: bool
  ac_max_socket_num :: nat
  ac_has_cb :: bool
  ac_value :: "32 word"
  ac_kernel :: fd_kernel
  ac_given :: "io_device list"

definition Acceptor :: "nat \<Rightarrow> io_device \<Rightarrow> nat \<Rightarrow> fd_kernel \<Rightarrow> 't acceptor" where
  "Acceptor limit listen_socket max_socket_num k =
     \<lparr>is_quit = False, is_timers = TimerHeap, es_epoller = Epoller limit, ac_listen = listen_socket, ac_quit = True,
      ac_max_socket_num = max_socket_num mod 2 ^ 16, ac_has_cb = False, ac_value = 0, ac_kernel = k, ac_given = []\<rparr>"

definition setNewConnCallback :: "'t acceptor \<Rightarrow> 't acceptor" where
  "setNewConnCallback a = a\<lparr>ac_has_cb := True\<rparr>"

definition ac_start :: "'t acceptor \<Rightarrow> bool \<times> 't acceptor" where
  "ac_start a = (True, a\<lparr>ac_quit := False\<rparr>)"

definition ac_stop :: "'t acceptor \<Rightarrow> 't acceptor" where
  "ac_stop a = a\<lparr>ac_quit := True\<rparr>"

subsection \<open>Accepting\<close>

text \<open>Numbering a new connection and giving it away.\<close>

definition hand_over :: "(nat \<Rightarrow> int) \<Rightarrow> (io_device \<Rightarrow> bool) \<Rightarrow> int \<Rightarrow> 't acceptor \<Rightarrow> 't acceptor" where
  "hand_over mem takes fd a =
     (let (i, v) = socket_nextId (word_of_int fd) (ac_value a);
          peer_socket = (IODevice (mem (length (ac_given a))))\<lparr>dev_id := sint i, dev_fd := fd\<rparr>;
          a1 = a\<lparr>ac_value := v\<rparr>;
          a2 = (if ac_has_cb a then a1\<lparr>ac_given := ac_given a1 @ [peer_socket]\<rparr> else a1)
      in if ac_has_cb a \<and> takes peer_socket then a2
         else a2\<lparr>ac_kernel := snd (ts_close fd (ac_kernel a2))\<rparr>)"

definition ac_accept :: "(nat \<Rightarrow> int) \<Rightarrow> (io_device \<Rightarrow> bool) \<Rightarrow> 't acceptor \<Rightarrow> bool \<times> 't acceptor" where
  "ac_accept mem takes a =
     (let (ok, fd, k) = acceptNonblock (dev_fd (ac_listen a)) (ac_kernel a)
      in if \<not> ok then (False, a\<lparr>ac_kernel := snd (ts_close fd k)\<rparr>)
         else (True, hand_over mem takes fd (a\<lparr>ac_kernel := k\<rparr>)))"

text \<open>What is left for the kernel to answer, which bounds the loop of \<open>onListenSocketRead\<close>.\<close>

definition left_over :: "fd_kernel \<Rightarrow> nat" where
  "left_over k = length (fk_answers k) + fk_pending k"

lemma left_answer: "left_over (snd (answer k)) \<le> left_over k"
  by (auto simp: left_over_def answer_def split: list.split)

lemma left_answer_less: "fk_answers k \<noteq> [] \<Longrightarrow> left_over (snd (answer k)) < left_over k"
  by (auto simp: left_over_def answer_def split: list.split)

lemma left_upd [simp]: "left_over (k\<lparr>fk_fds := f\<rparr>) = left_over k" "left_over (k\<lparr>fk_errno := e\<rparr>) = left_over k"
  by (simp_all add: left_over_def)

lemma left_change [simp]: "left_over (snd (sys_change fd f k)) \<le> left_over k"
  using left_answer [of k] by (auto simp: sys_change_def split_beta Let_def split: option.split)

lemma left_close [simp]: "left_over (snd (ts_close fd k)) \<le> left_over k"
  using left_answer [of k] by (simp add: ts_close_def destroySocket_def sys_close_def split_beta Let_def)

lemma left_allocate [simp]: "left_over (snd (allocate k)) = left_over k"
  by (auto simp: allocate_def left_over_def split: list.split)

lemma left_and_then: "(\<And>k. left_over (snd (f k)) \<le> left_over k) \<Longrightarrow> (\<And>k. left_over (snd (g k)) \<le> left_over k) \<Longrightarrow>
    left_over (snd (and_then f g k)) \<le> left_over k"
  by (auto simp: and_then_def split_beta Let_def intro: order_trans)

lemma left_options [simp]: "left_over (snd (setTcpNoDelay fd k)) \<le> left_over k" "left_over (snd (ts_setNonblock fd k)) \<le> left_over k"
  "left_over (snd (setCloseOnExec fd k)) \<le> left_over k"
  by (auto simp: setTcpNoDelay_def makeTcpNoDelay_def ts_setNonblock_def makeNonblock_def setCloseOnExec_def split_beta Let_def
      intro: order_trans [OF left_change left_change])

lemma left_accept:
  "left_over (snd (sys_accept fd k)) < left_over k
   \<or> (fst (sys_accept fd k) = -1 \<and> fk_errno (snd (sys_accept fd k)) \<in> {EBADF, EWOULDBLOCK, EMFILE})"
proof (cases "fk_answers k")
  case Nil
  then have k: "answer k = (0, k)" by (simp add: answer_def)
  have num: "fk_errno (snd (allocate k)) = EMFILE" if "fst (allocate k) = -1"
    using that by (auto simp: allocate_def split: list.splits if_splits)
  have "fk_pending (snd (allocate k)) = fk_pending k" by (auto simp: allocate_def split: list.split)
  moreover have "fk_answers (snd (allocate k)) = fk_answers k" by (auto simp: allocate_def split: list.split)
  ultimately show ?thesis using num by (auto simp: sys_accept_def k split_beta Let_def left_over_def)
next
  case (Cons e es)
  then have "left_over (snd (answer k)) < left_over k" by (intro left_answer_less) simp
  moreover from this have "left_over (k1\<lparr>fk_pending := m\<rparr>) < left_over k"
    if "left_over k1 \<le> left_over (snd (answer k))" and "m \<le> fk_pending k1" for k1 m
    using that by (simp add: left_over_def)
  moreover have "fk_pending (snd (allocate k1)) = fk_pending k1" for k1 by (auto simp: allocate_def split: list.split)
  ultimately show ?thesis
    by (auto simp: sys_accept_def split_beta Let_def simp del: One_nat_def)
qed

lemma left_acceptNonblock:
  assumes "acceptNonblock fd k = (ok, peer, k')"
  shows "left_over k' < left_over k \<or> (\<not> ok \<and> fk_errno k' \<in> {EBADF, EWOULDBLOCK, EMFILE})"
proof -
  obtain n k1 where n: "sys_accept fd k = (n, k1)" by (cases "sys_accept fd k")
  show ?thesis
  proof (cases "n = -1")
    case True
    then show ?thesis using assms left_accept [of fd k] n by (auto simp: acceptNonblock_def ts_accept_def)
  next
    case False
    then have less: "left_over k1 < left_over k" using left_accept [of fd k] n by simp
    define k2 where "k2 = snd (setCloseOnExec n k1)"
    have "left_over k2 \<le> left_over k1" by (simp add: k2_def)
    moreover have "left_over (snd (and_then (setTcpNoDelay n) (ts_setNonblock n) k2)) \<le> left_over k2"
      by (rule left_and_then) simp_all
    moreover have "k' = snd (ts_close n k2) \<or> k' = snd (and_then (setTcpNoDelay n) (ts_setNonblock n) k2)"
      using assms False n by (auto simp: acceptNonblock_def ts_accept_def k2_def split_beta Let_def split: if_splits)
    ultimately have "left_over k' \<le> left_over k1" using left_close [of n k2] by (auto simp del: left_close)
    then show ?thesis using less by simp
  qed
qed

lemma left_hand_over: "left_over (ac_kernel (hand_over mem takes fd a)) \<le> left_over (ac_kernel a)"
  by (simp add: hand_over_def split_beta Let_def)

function onListenSocketRead :: "(nat \<Rightarrow> int) \<Rightarrow> (io_device \<Rightarrow> bool) \<Rightarrow> 't acceptor \<Rightarrow> int \<times> 't acceptor" where
  "onListenSocketRead mem takes a =
     (let (ok, fd, k) = acceptNonblock (dev_fd (ac_listen a)) (ac_kernel a)
      in if \<not> ok then
           let a1 = a\<lparr>ac_kernel := snd (ts_close fd k)\<rparr>
           in if fk_errno k = EWOULDBLOCK then (0, a1)
              else if fk_errno k = ECONNABORTED then onListenSocketRead mem takes a1
              else if fk_errno k = EMFILE \<or> fk_errno k = ENFILE then (-1, a1)
              else (-1, a1)
         else onListenSocketRead mem takes (hand_over mem takes fd (a\<lparr>ac_kernel := k\<rparr>)))"
  by pat_completeness auto
termination
proof (relation "measure (\<lambda>(mem, takes, a). left_over (ac_kernel a))", goal_cases)
  case 1
  show ?case by simp
next
  case (2 mem takes a x ok y fd k a1)
  then have "left_over k < left_over (ac_kernel a)"
    using left_acceptNonblock [of "dev_fd (ac_listen a)" "ac_kernel a" ok fd k]
    by (auto simp: ECONNABORTED_def EBADF_def EWOULDBLOCK_def EMFILE_def)
  then have "left_over (snd (ts_close fd k)) < left_over (ac_kernel a)" by (rule le_less_trans [OF left_close])
  then show ?case using 2 by simp
next
  case (3 mem takes a x ok y fd k)
  then have "left_over k < left_over (ac_kernel a)"
    using left_acceptNonblock [of "dev_fd (ac_listen a)" "ac_kernel a" ok fd k] by auto
  moreover have "left_over (ac_kernel (hand_over mem takes fd (a\<lparr>ac_kernel := k\<rparr>))) \<le> left_over k"
    using left_hand_over [of mem takes fd "a\<lparr>ac_kernel := k\<rparr>"] by simp
  ultimately show ?case by simp
qed

declare onListenSocketRead.simps [simp del]

subsection \<open>Every connection is handed over once\<close>

definition ready :: fd_state where
  "ready = new_fd\<lparr>ff_cloexec := True, ff_nonblock := True, ff_nodelay := True\<rparr>"

definition keep_open :: "io_device list \<Rightarrow> (int \<rightharpoonup> fd_state) \<Rightarrow> (int \<rightharpoonup> fd_state)" where
  "keep_open ds m = fold (\<lambda>d m. m(dev_fd d \<mapsto> ready)) ds m"

lemma keep_open_simps [simp]: "keep_open [] m = m" "keep_open (d # ds) m = keep_open ds (m(dev_fd d \<mapsto> ready))"
  by (simp_all add: keep_open_def)

lemma sys_accept_opened:
  "opened (fk_fds k) new_fd (let (n, k1) = sys_accept fd k in (n \<noteq> -1, n, k1))"
  using allocate_cases [of "snd (answer k)"]
  by (auto simp: sys_accept_def split_beta Let_def opened_def)

lemma ts_accept_opened: "opened (fk_fds k) (new_fd\<lparr>ff_cloexec := True\<rparr>) (ts_accept fd k)"
proof -
  have "ts_accept fd k = or_close setCloseOnExec (let (n, k1) = sys_accept fd k in (n \<noteq> -1, n, k1))"
    by (auto simp: ts_accept_def or_close_def split_beta Let_def)
  then show ?thesis using opened_or_close [OF sys_accept_opened changes_setCloseOnExec] by simp
qed

lemma acceptNonblock_fds:
  assumes "acceptNonblock fd k = (ok, peer, k')"
  shows "if ok then 0 \<le> peer \<and> fk_fds k peer = None \<and> fk_fds k' = (fk_fds k)(peer \<mapsto> ready)
         else fk_fds (snd (ts_close peer k')) = fk_fds k"
proof -
  obtain got p k1 where got: "ts_accept fd k = (got, p, k1)" by (cases "ts_accept fd k")
  note op = ts_accept_opened [of k fd, unfolded got opened_def]
  show ?thesis
  proof (cases got)
    case False
    then show ?thesis using assms op got by (auto simp: acceptNonblock_def close_fds)
  next
    case True
    let ?f = "and_then (setTcpNoDelay p) (ts_setNonblock p)"
    have "fk_fds k1 p = Some (new_fd\<lparr>ff_cloexec := True\<rparr>)" using True op by simp
    from changesD [OF changes_and_then [OF changes_setTcpNoDelay changes_setNonblock] this]
    obtain s' where s': "fk_fds (snd (?f k1)) = (fk_fds k1)(p \<mapsto> s')"
        "fst (?f k1) \<longrightarrow> s' = ((\<lambda>s. s\<lparr>ff_nonblock := True\<rparr>) \<circ> (\<lambda>s. s\<lparr>ff_nodelay := True\<rparr>)) (new_fd\<lparr>ff_cloexec := True\<rparr>)"
      by blast
    have "(ok, peer, k') = (fst (?f k1), p, snd (?f k1))"
      using assms True got by (auto simp: acceptNonblock_def split_beta Let_def)
    then show ?thesis using s' op True by (auto simp: close_fds ready_def new_fd_def fun_upd_idem)
  qed
qed

lemma hand_over_fields [simp]:
  "ac_has_cb (hand_over mem takes fd a) = ac_has_cb a" "ac_listen (hand_over mem takes fd a) = ac_listen a"
  "ac_value (hand_over mem takes fd a) = snd (socket_nextId (word_of_int fd) (ac_value a))"
  "es_epoller (hand_over mem takes fd a) = es_epoller a" "is_timers (hand_over mem takes fd a) = is_timers a"
  "ac_quit (hand_over mem takes fd a) = ac_quit a"
  by (simp_all add: hand_over_def split_beta Let_def)

lemma accepts_each_once:
  assumes "ac_has_cb a" and "onListenSocketRead mem takes a = (ret, a')"
  shows "\<exists>ds. ac_given a' = ac_given a @ ds
     \<and> map (\<lambda>d. dev_id d) ds = map sint (fst (socket_ids (map (\<lambda>d. word_of_int (dev_fd d)) ds) (ac_value a)))
     \<and> (\<forall>d \<in> set ds. 0 \<le> dev_fd d)
     \<and> distinct (map dev_fd (filter takes ds)) \<and> (\<forall>d \<in> set (filter takes ds). fk_fds (ac_kernel a) (dev_fd d) = None)
     \<and> fk_fds (ac_kernel a') = keep_open (filter takes ds) (fk_fds (ac_kernel a))"
  using assms
proof (induction mem takes a rule: onListenSocketRead.induct)
  case (1 mem takes a)
  obtain ok fd k where acc: "acceptNonblock (dev_fd (ac_listen a)) (ac_kernel a) = (ok, fd, k)"
    by (cases "acceptNonblock (dev_fd (ac_listen a)) (ac_kernel a)")
  note fds = acceptNonblock_fds [OF acc]
  show ?case
  proof (cases ok)
    case False
    define a1 where "a1 = a\<lparr>ac_kernel := snd (ts_close fd k)\<rparr>"
    have a1: "ac_given a1 = ac_given a" "ac_value a1 = ac_value a" "fk_fds (ac_kernel a1) = fk_fds (ac_kernel a)" "ac_has_cb a1"
      using fds False "1.prems"(1) by (simp_all add: a1_def)
    show ?thesis
    proof (cases "fk_errno k = ECONNABORTED \<and> fk_errno k \<noteq> EWOULDBLOCK")
      case True
      have run: "onListenSocketRead mem takes a1 = (ret, a')"
        using "1.prems"(2) acc False True by (subst (asm) onListenSocketRead.simps) (simp add: a1_def)
      show ?thesis
        using "1.IH"(1) [OF refl acc [symmetric] refl False a1_def] True run a1 by simp
    next
      case other: False
      have "a' = a1"
        using "1.prems"(2) acc False other by (subst (asm) onListenSocketRead.simps) (auto simp: a1_def Let_def split: if_splits)
      then show ?thesis using a1 by (intro exI [of _ "[]"]) simp
    qed
  next
    case True
    define a1 where "a1 = hand_over mem takes fd (a\<lparr>ac_kernel := k\<rparr>)"
    define d where "d = (IODevice (mem (length (ac_given a))))\<lparr>dev_id := sint (fst (socket_nextId (word_of_int fd) (ac_value a))), dev_fd := fd\<rparr>"
    have fd: "0 \<le> fd" "fk_fds (ac_kernel a) fd = None" "fk_fds k = (fk_fds (ac_kernel a))(fd \<mapsto> ready)" using fds True by simp_all
    have d: "dev_fd d = fd" "dev_id d = sint (fst (socket_nextId (word_of_int fd) (ac_value a)))" by (simp_all add: d_def)
    have a1: "ac_given a1 = ac_given a @ [d]" "ac_has_cb a1" "ac_value a1 = snd (socket_nextId (word_of_int fd) (ac_value a))"
        "fk_fds (ac_kernel a1) = (if takes d then (fk_fds (ac_kernel a))(fd \<mapsto> ready) else fk_fds (ac_kernel a))"
      using "1.prems"(1) fd by (simp_all add: a1_def hand_over_def split_beta Let_def d_def close_fds fun_upd_idem)
    have run: "onListenSocketRead mem takes a1 = (ret, a')"
      using "1.prems"(2) acc True by (subst (asm) onListenSocketRead.simps) (simp add: a1_def)
    obtain ds where ds: "ac_given a' = ac_given a1 @ ds"
        "map (\<lambda>d. dev_id d) ds = map sint (fst (socket_ids (map (\<lambda>d. word_of_int (dev_fd d)) ds) (ac_value a1)))"
        "\<forall>d \<in> set ds. 0 \<le> dev_fd d"
        "distinct (map dev_fd (filter takes ds))" "\<forall>d \<in> set (filter takes ds). fk_fds (ac_kernel a1) (dev_fd d) = None"
        "fk_fds (ac_kernel a') = keep_open (filter takes ds) (fk_fds (ac_kernel a1))"
      using "1.IH"(2) [OF refl acc [symmetric] refl] True run a1(2) by (auto simp: a1_def)
    show ?thesis
    proof (intro exI [of _ "d # ds"] conjI)
      show "map (\<lambda>d. dev_id d) (d # ds) = map sint (fst (socket_ids (map (\<lambda>d. word_of_int (dev_fd d)) (d # ds)) (ac_value a)))"
        using ds(2) by (simp add: d a1(3) split_beta Let_def)
    qed (use ds a1 fd d in \<open>auto split: if_splits\<close>)
  qed
qed

text \<open>A kernel in which no call fails and whose next new descriptors are \<open>ns\<close>, one for each connection that waits.\<close>

definition plain :: "int list \<Rightarrow> 't acceptor \<Rightarrow> bool" where
  "plain ns a \<longleftrightarrow> (let k = ac_kernel a in fk_answers k = [] \<and> take (length ns) (fk_numbers k) = ns \<and> fk_pending k = length ns
     \<and> distinct ns \<and> (\<forall>n \<in> set ns. 0 \<le> n \<and> fk_fds k n = None) \<and> fk_fds k (dev_fd (ac_listen a)) \<noteq> None)"

lemma change_plain [simp]:
  "fk_answers k = [] \<Longrightarrow> fk_fds k fd = Some s \<Longrightarrow> sys_change fd f k = (True, k\<lparr>fk_fds := (fk_fds k)(fd \<mapsto> f s)\<rparr>)"
  by (simp add: sys_change_def answer_def)

lemma fd_kernel_same [simp]: "k\<lparr>fk_fds := fk_fds k\<rparr> = (k :: fd_kernel)"
  by (cases k) simp

lemma acceptNonblock_plain:
  assumes "fk_answers k = []" and "fk_numbers k = n # ns" and "fk_pending k = Suc p" and "0 \<le> n" and "fk_fds k n = None"
    and "fk_fds k fd \<noteq> None"
  shows "acceptNonblock fd k = (True, n, k\<lparr>fk_numbers := ns, fk_pending := p, fk_fds := (fk_fds k)(n \<mapsto> ready)\<rparr>)"
  using assms
  by (auto simp: acceptNonblock_def ts_accept_def sys_accept_def answer_def allocate_def setCloseOnExec_def and_then_def
      setTcpNoDelay_def makeTcpNoDelay_def ts_setNonblock_def makeNonblock_def ready_def new_fd_def)

lemma accept_none:
  assumes "fk_answers k = []" and "fk_pending k = 0" and "fk_fds k fd \<noteq> None"
  shows "acceptNonblock fd k = (False, -1, k\<lparr>fk_errno := EWOULDBLOCK\<rparr>)"
  using assms by (auto simp: acceptNonblock_def ts_accept_def sys_accept_def answer_def)

lemma accepts_all:
  assumes "ac_has_cb a" and "plain ns a"
  shows "\<exists>a' ds. onListenSocketRead mem takes a = (0, a') \<and> ac_given a' = ac_given a @ ds \<and> map dev_fd ds = ns
     \<and> fk_pending (ac_kernel a') = 0"
  using assms
proof (induction ns arbitrary: a)
  case Nil
  then show ?case
    by (subst onListenSocketRead.simps) (simp add: plain_def Let_def accept_none ts_close_def EWOULDBLOCK_def)
next
  case (Cons n ns)
  let ?k = "ac_kernel a"
  obtain more where k: "fk_answers ?k = []" "fk_numbers ?k = n # more" "fk_pending ?k = Suc (length ns)" "0 \<le> n"
      "fk_fds ?k n = None" "fk_fds ?k (dev_fd (ac_listen a)) \<noteq> None"
    using Cons.prems(2) by (cases "fk_numbers ?k") (auto simp: plain_def Let_def)
  note acc = acceptNonblock_plain [OF k]
  define a1 where "a1 = hand_over mem takes n
      (a\<lparr>ac_kernel := ?k\<lparr>fk_numbers := more, fk_pending := length ns, fk_fds := (fk_fds ?k)(n \<mapsto> ready)\<rparr>\<rparr>)"
  have "ac_has_cb a1" using Cons.prems(1) by (simp add: a1_def)
  moreover have "plain ns a1"
    using Cons.prems k
    by (auto simp: plain_def Let_def a1_def hand_over_def split_beta ts_close_def destroySocket_def sys_close_def answer_def)
  ultimately obtain a' ds where ds: "onListenSocketRead mem takes a1 = (0, a')" "ac_given a' = ac_given a1 @ ds" "map dev_fd ds = ns"
      "fk_pending (ac_kernel a') = 0"
    using Cons.IH by blast
  have run: "onListenSocketRead mem takes a = (0, a')"
    using ds(1) by (subst onListenSocketRead.simps) (simp add: acc a1_def)
  obtain d where "ac_given a1 = ac_given a @ [d]" "dev_fd d = n"
    using Cons.prems(1) by (auto simp: a1_def hand_over_def split_beta Let_def)
  then show ?case using run ds(2-4) by (intro exI [of _ a'] exI [of _ "d # ds"]) simp
qed

text \<open>
  C27: the acceptor hands over each connection it takes once and loses no descriptor. Whatever calls fail, \<open>onListenSocketRead\<close>
  returns; the sockets it gives to the callback carry the next ids in order, and afterwards exactly the descriptors
  of the sockets that the callback kept are open besides the ones before, close-on-exec, non-blocking and without
  delay. When no call fails, it returns 0 with no connection left and has handed over all that waited, in order.
\<close>
theorem acceptor_hands_over:
  assumes "ac_has_cb a"
  shows "\<exists>ret a' ds. onListenSocketRead mem takes a = (ret, a') \<and> ac_given a' = ac_given a @ ds
     \<and> map (\<lambda>d. dev_id d) ds = map sint (fst (socket_ids (map (\<lambda>d. word_of_int (dev_fd d)) ds) (ac_value a)))
     \<and> distinct (map dev_fd (filter takes ds)) \<and> (\<forall>d \<in> set (filter takes ds). fk_fds (ac_kernel a) (dev_fd d) = None)
     \<and> fk_fds (ac_kernel a') = keep_open (filter takes ds) (fk_fds (ac_kernel a))
     \<and> (plain ns a \<longrightarrow> ret = 0 \<and> map dev_fd ds = ns \<and> fk_pending (ac_kernel a') = 0)"
proof -
  obtain ret a' where run: "onListenSocketRead mem takes a = (ret, a')" by (cases "onListenSocketRead mem takes a")
  obtain ds where ds: "ac_given a' = ac_given a @ ds"
     "map (\<lambda>d. dev_id d) ds = map sint (fst (socket_ids (map (\<lambda>d. word_of_int (dev_fd d)) ds) (ac_value a)))"
     "distinct (map dev_fd (filter takes ds))" "\<forall>d \<in> set (filter takes ds). fk_fds (ac_kernel a) (dev_fd d) = None"
     "fk_fds (ac_kernel a') = keep_open (filter takes ds) (fk_fds (ac_kernel a))"
    using accepts_each_once [OF assms run] by blast
  have "ret = 0 \<and> map dev_fd ds = ns \<and> fk_pending (ac_kernel a') = 0" if "plain ns a"
    using accepts_all [OF assms that, of mem takes] run ds(1) by auto
  then show ?thesis using run ds by blast
qed

text \<open>Two connections wait; the callback leaves the second one.\<close>

definition example_acceptor :: "unit acceptor" where
  "example_acceptor = setNewConnCallback (Acceptor 4 ((IODevice 1)\<lparr>dev_fd := 3\<rparr>) 100
     \<lparr>fk_fds = [3 \<mapsto> new_fd], fk_answers = [], fk_numbers = [4, 5], fk_pending = 2, fk_errno = 0\<rparr>)"

theorem acceptor_hands_over_witness:
  "\<exists>a'. onListenSocketRead int (\<lambda>d. dev_fd d \<noteq> 5) example_acceptor = (0, a') \<and> map dev_fd (ac_given a') = [4, 5]
     \<and> fk_fds (ac_kernel a') 4 = Some ready \<and> fk_fds (ac_kernel a') 5 = None"
proof -
  have "plain [4, 5] example_acceptor"
    by (simp add: plain_def example_acceptor_def setNewConnCallback_def Acceptor_def IODevice_def)
  moreover have start: "ac_has_cb example_acceptor" "ac_given example_acceptor = []" "fk_fds (ac_kernel example_acceptor) = [3 \<mapsto> new_fd]"
    by (simp_all add: example_acceptor_def setNewConnCallback_def Acceptor_def)
  ultimately obtain a' ds where ds: "onListenSocketRead int (\<lambda>d. dev_fd d \<noteq> 5) example_acceptor = (0, a')" "ac_given a' = ds"
      "map dev_fd ds = [4, 5]" "fk_fds (ac_kernel a') = keep_open (filter (\<lambda>d. dev_fd d \<noteq> 5) ds) [3 \<mapsto> new_fd]"
    using acceptor_hands_over [OF start(1), of int "\<lambda>d. dev_fd d \<noteq> 5" "[4, 5]"] by auto
  then show ?thesis by auto
qed

subsection \<open>\<open>EPollAcceptor\<close>\<close>

definition EPollAcceptor :: "nat \<Rightarrow> int \<Rightarrow> bool \<Rightarrow> io_device \<Rightarrow> nat \<Rightarrow> fd_kernel \<Rightarrow> 't acceptor" where
  "EPollAcceptor limit fd cloexec listen_socket max_socket_num k =
     (let a = Acceptor limit listen_socket max_socket_num k;
          (r, e) = ep_create fd cloexec (es_epoller a);
          listen1 = listen_socket\<lparr>dev_read_cb := True\<rparr>
      in if r = -1 then a\<lparr>es_epoller := e\<rparr>
         else a\<lparr>es_epoller := snd (ep_add listen1 e), ac_listen := listen1\<rparr>)"

definition ea_dispatch :: "(nat \<Rightarrow> int) \<Rightarrow> (io_device \<Rightarrow> bool) \<Rightarrow> ('t acceptor) dispatch" where
  "ea_dispatch mem takes =
     \<lparr>ds_epoller = es_epoller, ds_set_epoller = (\<lambda>e a. a\<lparr>es_epoller := e\<rparr>),
      ds_device = (\<lambda>a p. if p = dev_ptr (ac_listen a) then Some (ac_listen a) else None),
      ds_write = (\<lambda>d a. Some a), ds_read = (\<lambda>d a. Some (snd (onListenSocketRead mem takes a))), ds_error = (\<lambda>d a. Some a)\<rparr>"

definition ea_checkTimeout :: "('t \<Rightarrow> timer_id \<Rightarrow> 't acceptor \<Rightarrow> 't acceptor) \<Rightarrow> timestamp \<Rightarrow> 't acceptor \<Rightarrow> 't acceptor option" where
  "ea_checkTimeout user now a =
     do { (h, a1) \<leftarrow> checkTimeout (\<lambda>cb i (h, a). let a1 = user cb i (a\<lparr>is_timers := h\<rparr>) in (is_timers a1, a1)) now (is_timers a, a);
          Some (a1\<lparr>is_timers := h\<rparr>) }"

definition ea_access :: "('t \<Rightarrow> timer_id \<Rightarrow> 't acceptor \<Rightarrow> 't acceptor) \<Rightarrow> ('t acceptor) service_access" where
  "ea_access user =
     \<lparr>sa_quit = ac_quit, sa_set_quit = (\<lambda>b a. a\<lparr>ac_quit := b\<rparr>),
      sa_next_timeout = (\<lambda>now a. getNextTimeoutMillisecond now (is_timers a)), sa_checkTimeout = ea_checkTimeout user\<rparr>"

text \<open>The thread's loop. Unlike \<open>EpollService::loop\<close> it does not reset the flag, which \<open>start\<close> has done.\<close>

definition ea_loop ::
  "(nat \<Rightarrow> int) \<Rightarrow> (io_device \<Rightarrow> bool) \<Rightarrow> ('t \<Rightarrow> timer_id \<Rightarrow> 't acceptor \<Rightarrow> 't acceptor) \<Rightarrow> round list \<Rightarrow> 't acceptor \<Rightarrow>
     dispatch_error + 't acceptor" where
  "ea_loop mem takes user rds a = es_rounds (ea_dispatch mem takes) (ea_access user) rds a"

text \<open>The listening socket is the only device, and the callbacks of the timers leave it and the registrations alone.\<close>

definition listening :: "int \<Rightarrow> 't acceptor \<Rightarrow> bool" where
  "listening p a \<longleftrightarrow> dev_ptr (ac_listen a) = p \<and> dev_read_cb (ac_listen a)"

definition leaves_listening :: "('t \<Rightarrow> timer_id \<Rightarrow> 't acceptor \<Rightarrow> 't acceptor) \<Rightarrow> bool" where
  "leaves_listening user \<longleftrightarrow> (\<forall>cb i a. ac_listen (user cb i a) = ac_listen a)"

definition listen_events :: "int \<Rightarrow> (int \<times> epoll_events) set" where
  "listen_events p = {(q, fl). q = p \<and> fl \<subseteq> {EPOLLIN, EPOLLPRI}}"

definition listen_answer :: "int \<Rightarrow> wait_answer \<Rightarrow> bool" where
  "listen_answer p reply \<longleftrightarrow>
     (case reply of WaitFailed e \<Rightarrow> True | Events evs \<Rightarrow> set evs \<subseteq> listen_events p)"

lemma listening_simps [simp]:
  "listening p (a\<lparr>ac_kernel := k\<rparr>) = listening p a" "listening p (a\<lparr>ac_quit := b\<rparr>) = listening p a"
  "listening p (a\<lparr>es_epoller := e\<rparr>) = listening p a" "listening p (a\<lparr>is_timers := h\<rparr>) = listening p a"
  "listening p (hand_over mem takes fd a) = listening p a"
  by (simp_all add: listening_def)

lemma listening_read [simp]: "ac_listen (snd (onListenSocketRead mem takes a)) = ac_listen a"
  by (induction mem takes a rule: onListenSocketRead.induct)
    (subst onListenSocketRead.simps, auto simp: Let_def split: prod.split)

lemma ea_dispatch_simps [simp]:
  "ds_write (ea_dispatch mem takes) d a = Some a" "ds_error (ea_dispatch mem takes) d a = Some a"
  "ds_read (ea_dispatch mem takes) d a = Some (snd (onListenSocketRead mem takes a))"
  "ds_device (ea_dispatch mem takes) a p = (if p = dev_ptr (ac_listen a) then Some (ac_listen a) else None)"
  "ds_set_epoller (ea_dispatch mem takes) e a = a\<lparr>es_epoller := e\<rparr>"
  by (simp_all add: ea_dispatch_def)

lemma ea_checkTimeout_listening:
  assumes "leaves_listening user" and "ea_checkTimeout user now a = Some a'" and "listening p a"
  shows "listening p a'"
proof -
  define run where "run = (\<lambda>cb i (h, a). let a1 = user cb i (a\<lparr>is_timers := h\<rparr>) in (is_timers a1, a1))"
  have step: "listening p (snd (run cb i ha))" if "listening p (snd ha)" for cb i ha
    using that assms(1) by (simp add: run_def split_beta Let_def listening_def leaves_listening_def)
  obtain h a1 where a1: "checkTimeout run now (is_timers a, a) = Some (h, a1)" and a': "a' = a1\<lparr>is_timers := h\<rparr>"
    using assms(2) by (auto simp: ea_checkTimeout_def run_def split: bind_splits)
  have "listening p (snd (is_timers a, a))" using assms(3) by simp
  from checkTimeout_keeps [where P = "listening p", OF step a1 this] show ?thesis by (simp add: a')
qed

definition listen_safe :: "('t \<Rightarrow> timer_id \<Rightarrow> 't acceptor \<Rightarrow> 't acceptor) \<Rightarrow> int \<Rightarrow> (int \<times> epoll_events) set \<Rightarrow> 't acceptor \<Rightarrow> bool" where
  "listen_safe user p batch a \<longleftrightarrow> leaves_listening user \<and> listening p a \<and> batch \<subseteq> listen_events p"

interpretation listen_rounds: service_loop "ea_dispatch mem takes" "listen_safe user p"
    "\<lambda>a evs. set evs \<subseteq> listen_events p" "ea_access user"
  for mem takes user p
proof (unfold_locales, goal_cases)
  case (4 batch a q fl)
  then show ?case by (auto simp: listen_safe_def listen_events_def listening_def answers_def split: if_splits)
next
  case (8 a now a1)
  then show ?case using ea_checkTimeout_listening by (auto simp: listen_safe_def ea_access_def)
qed (auto simp: listen_safe_def ea_access_def ea_dispatch_def listening_def)

text \<open>The loop of the acceptor's thread is safe, for the same reasons as that of the main thread.\<close>

lemma acceptor_loop_safe:
  assumes "leaves_listening user" and "listening p a" and "\<forall>rd \<in> set rds. \<forall>t. listen_answer p (rd_answer rd t)"
  shows "case ea_loop mem takes user rds a of Inl e \<Rightarrow> e = CallbackFailed | Inr a' \<Rightarrow> listening p a'"
proof -
  have "case es_rounds (ea_dispatch mem takes) (ea_access user) rds a of Inl e \<Rightarrow> e = CallbackFailed
      | Inr a1 \<Rightarrow> listen_safe user p {} a1"
    using assms by (intro listen_rounds.rounds_ok) (auto simp: listen_safe_def listen_rounds.answered_def listen_answer_def)
  then show ?thesis by (auto simp: ea_loop_def listen_safe_def split: sum.splits)
qed

end
