(* ===== verification/Select_Reactor.thy ===== *)
theory Select_Reactor
  imports Tcp_Reactor Acceptor_Model
begin

text \<open>
  The reactor on \<open>select\<close> (\<open>net/select_reactor.h\<close>, \<open>.cc\<close>), in its branch for systems other than Windows.

  New sockets wait in a list until the loop takes them. The sets of descriptors are those of \<open>FDSet\<close>; an access outside of
  a set's block is \<open>None\<close>. So is what the loop over the hash map of sockets does when a callback erases the socket it is at,
  whose iterator it then increments. The order in which it visits the sockets is given with each round.
\<close>

subsection \<open>Addresses of a reactor's sockets\<close>

text \<open>These members of \<open>Reactor\<close> (\<open>net/reactor.cc\<close>) need the descriptors of \<open>Tcp_Socket\<close>; \<open>name\<close> is what the kernel would answer.\<close>

definition reactor_getLocalAddress ::
  "sockaddr \<Rightarrow> int \<Rightarrow> ('u, 'x) reactor \<Rightarrow> socket_address \<Rightarrow> fd_kernel \<Rightarrow> bool \<times> socket_address \<times> fd_kernel" where
  "reactor_getLocalAddress name sid r addr k =
     (case rx_sockets r sid of None \<Rightarrow> (False, addr, k) | Some s \<Rightarrow> getLocalAddress name addr (dev_fd s) k)"

definition reactor_getPeerAddress ::
  "sockaddr \<Rightarrow> int \<Rightarrow> ('u, 'x) reactor \<Rightarrow> socket_address \<Rightarrow> fd_kernel \<Rightarrow> bool \<times> socket_address \<times> fd_kernel" where
  "reactor_getPeerAddress name sid r addr k =
     (case rx_sockets r sid of None \<Rightarrow> (False, addr, k) | Some s \<Rightarrow> getPeerAddress name addr (dev_fd s) k)"

lemma reactor_peer_address:
  assumes "reactor_getPeerAddress name sid r addr k = (True, addr', k')"
  shows "rx_sockets r sid \<noteq> None \<and> holds net (NativeAddress name) addr'"
proof (cases "rx_sockets r sid")
  case (Some s)
  then have "getPeerAddress name addr (dev_fd s) k = (True, addr', k')" using assms by (simp add: reactor_getPeerAddress_def)
  then show ?thesis using Some peer_address_holds by blast
qed (use assms in \<open>simp add: reactor_getPeerAddress_def\<close>)

subsection \<open>State\<close>

record 'y select_world =
  sw_read :: fdset
  sw_write :: fdset
  sw_back :: fdset
  sw_new :: "tcp_socket list"
  sw_ids :: "int \<rightharpoonup> int"
  sw_change :: bool
  sw_max :: int
  sw_rest :: 'y

type_synonym ('u, 'y) select_reactor = "('u, 'y select_world) reactor"

definition upd_select :: "('y select_world \<Rightarrow> 'y select_world) \<Rightarrow> ('u, 'y) select_reactor \<Rightarrow> ('u, 'y) select_reactor" where
  "upd_select f r = r\<lparr>rx_world := f (rx_world r)\<rparr>"

text \<open>The constructor leaves \<open>max_sock_\<close> as it finds it.\<close>

definition SelectReactor :: "int \<Rightarrow> timestamp \<Rightarrow> kernel \<Rightarrow> int \<Rightarrow> 'y \<Rightarrow> ('u, 'y) select_reactor" where
  "SelectReactor max_connection_num now k garbage y =
     Reactor max_connection_num now k
       \<lparr>sw_read = fds_create max_connection_num, sw_write = fds_create max_connection_num, sw_back = fds_create max_connection_num,
        sw_new = [], sw_ids = Map.empty, sw_change = False, sw_max = garbage, sw_rest = y\<rparr>"

subsection \<open>Attaching and closing\<close>

definition sr_attachSocket :: "tcp_socket \<Rightarrow> ('u, 'y) select_reactor \<Rightarrow> bool \<times> ('u, 'y) select_reactor" where
  "sr_attachSocket peer r = (True, upd_select (\<lambda>w. w\<lparr>sw_new := sw_new w @ [peer]\<rparr>) r)"

definition sr_closeSocket :: "int \<Rightarrow> ('u, 'y) select_reactor \<Rightarrow> ('u, 'y) select_reactor" where
  "sr_closeSocket sid r =
     reactor_closeSocket sid
       (case rx_sockets r sid of None \<Rightarrow> r
        | Some s \<Rightarrow> upd_select (\<lambda>w. w\<lparr>sw_ids := (sw_ids w)(dev_fd s := None)\<rparr>) r)"

text \<open>The loop over \<open>new_sockets_\<close>; a socket that the reactor does not take is deleted.\<close>

primrec sr_take :: "tcp_socket list \<Rightarrow> ('u, 'y) select_reactor \<Rightarrow> ('u, 'y) select_reactor option" where
  "sr_take [] r = Some r"
| "sr_take (peer # peers) r =
     (let r1 = upd_select (\<lambda>w. w\<lparr>sw_ids := (if sw_ids w (dev_fd peer) \<noteq> None then sw_ids w
                                            else (sw_ids w)(dev_fd peer \<mapsto> dev_id peer))\<rparr>) r
      in do { (_, r2) \<leftarrow> reactor_attachSocket peer r1; sr_take peers r2 })"

definition sr_take_new :: "('u, 'y) select_reactor \<Rightarrow> ('u, 'y) select_reactor option" where
  "sr_take_new r =
     (if sw_new (rx_world r) = [] then Some r
      else do { r1 \<leftarrow> sr_take (sw_new (rx_world r)) r; Some (upd_select (\<lambda>w. w\<lparr>sw_new := [], sw_change := True\<rparr>) r1) })"

subsection \<open>Waiting\<close>

text \<open>The descriptors of the sockets, in the order of the map, are put into the set; \<open>max_sock\<close> is the largest.\<close>

primrec sr_fill :: "tcp_socket list \<Rightarrow> int \<Rightarrow> fdset \<Rightarrow> (int \<times> fdset) option" where
  "sr_fill [] max_sock fds = Some (max_sock, fds)"
| "sr_fill (s # ss) max_sock fds =
     do { fds1 \<leftarrow> fds_add (dev_fd s) fds; sr_fill ss (if max_sock < dev_fd s then dev_fd s else max_sock) fds1 }"

definition sr_watch :: "int list \<Rightarrow> ('u, 'y) select_reactor \<Rightarrow> ('u, 'y) select_reactor option" where
  "sr_watch order r =
     (let w = rx_world r in
      if sw_change w then
        (case List.map_filter (rx_sockets r) order of [] \<Rightarrow> None
         | s # ss \<Rightarrow> do {
             (max_sock, fds) \<leftarrow> sr_fill (s # ss) (dev_fd s) (fds_zero (sw_read w));
             back \<leftarrow> fds_copy (sw_back w) fds;
             Some (upd_select (\<lambda>w. w\<lparr>sw_change := False, sw_read := fds, sw_max := max_sock, sw_back := back\<rparr>) r) })
      else do { fds \<leftarrow> fds_copy (sw_read w) (sw_back w); Some (upd_select (\<lambda>w. w\<lparr>sw_read := fds\<rparr>) r) })"

text \<open>\<open>select\<close> leaves the ready descriptors in the set, or fails and leaves the set.\<close>

datatype select_answer = Selected fdset | SelectFailed int

primrec sr_doReadEvent :: "('u, 'y select_world) reactor_callbacks \<Rightarrow> int list \<Rightarrow> ('u, 'y) select_reactor \<Rightarrow> ('u, 'y) select_reactor option" where
  "sr_doReadEvent cbs [] r = Some r"
| "sr_doReadEvent cbs (sid # sids) r =
     (case rx_sockets r sid of None \<Rightarrow> sr_doReadEvent cbs sids r
      | Some s \<Rightarrow> do {
          ready \<leftarrow> fds_has (dev_fd s) (sw_read (rx_world r));
          if ready \<and> dev_read_cb s
          then do { (_, r1) \<leftarrow> onSocketRead cbs (dev_id s) r;
                    if rx_sockets r1 sid = None then None else sr_doReadEvent cbs sids r1 }
          else sr_doReadEvent cbs sids r })"

definition sr_doNetEvent ::
  "('u, 'y select_world) reactor_callbacks \<Rightarrow> int list \<Rightarrow> (int \<Rightarrow> fdset \<Rightarrow> select_answer) \<Rightarrow> ('u, 'y) select_reactor \<Rightarrow>
     (bool \<times> ('u, 'y) select_reactor) option" where
  "sr_doNetEvent cbs order select r =
     do { r1 \<leftarrow> sr_watch order r;
          case select (sw_max (rx_world r1) + 1) (sw_read (rx_world r1)) of
            SelectFailed e \<Rightarrow> Some (e = EINTR, r1)
          | Selected fds \<Rightarrow>
              let r2 = upd_select (\<lambda>w. w\<lparr>sw_read := fds\<rparr>) r1 in
              if True \<notin> set (fs_bits fds) then Some (True, r2)
              else do { r3 \<leftarrow> sr_doReadEvent cbs order r2; Some (True, r3) } }"

text \<open>\<open>write_message_cb\<close> is the callback if one is fds.\<close>

definition sr_doWriteEvent ::
  "(('u, 'y) select_reactor \<Rightarrow> ('u, 'y) select_reactor option) option \<Rightarrow> ('u, 'y) select_reactor \<Rightarrow> ('u, 'y) select_reactor option" where
  "sr_doWriteEvent write_message_cb r = (case write_message_cb of None \<Rightarrow> Some r | Some f \<Rightarrow> f r)"

subsection \<open>The loop\<close>

record select_round =
  sd_before :: timestamp
  sd_order :: "int list"
  sd_select :: "int \<Rightarrow> fdset \<Rightarrow> select_answer"
  sd_after :: timestamp

definition sr_round ::
  "('u, 'y select_world) reactor_callbacks \<Rightarrow> (('u, 'y) select_reactor \<Rightarrow> ('u, 'y) select_reactor option) option \<Rightarrow>
   (('u, 'y) select_reactor \<Rightarrow> ('u, 'y) select_reactor option) \<Rightarrow> select_round \<Rightarrow> ('u, 'y) select_reactor \<Rightarrow>
     ('u, 'y) select_reactor option" where
  "sr_round cbs write_message_cb check_timeout rd r =
     do { r1 \<leftarrow> sr_take_new (r\<lparr>rx_clock := sd_before rd\<rparr>);
          if rx_connections r1 = Map.empty then check_timeout (r1\<lparr>rx_clock := sd_after rd\<rparr>)
          else do {
            (ok, r2) \<leftarrow> sr_doNetEvent cbs (sd_order rd) (sd_select rd) r1;
            let r3 = (if ok then r2 else r2\<lparr>rx_quit := True\<rparr>);
            r4 \<leftarrow> sr_doWriteEvent write_message_cb r3;
            check_timeout (r4\<lparr>rx_clock := sd_after rd\<rparr>) } }"

primrec sr_rounds ::
  "('u, 'y select_world) reactor_callbacks \<Rightarrow> (('u, 'y) select_reactor \<Rightarrow> ('u, 'y) select_reactor option) option \<Rightarrow>
   (('u, 'y) select_reactor \<Rightarrow> ('u, 'y) select_reactor option) \<Rightarrow> select_round list \<Rightarrow> ('u, 'y) select_reactor \<Rightarrow>
     ('u, 'y) select_reactor option" where
  "sr_rounds cbs write_message_cb check_timeout [] r = Some r"
| "sr_rounds cbs write_message_cb check_timeout (rd # rds) r =
     (if rx_quit r then Some r
      else do { r1 \<leftarrow> sr_round cbs write_message_cb check_timeout rd r; sr_rounds cbs write_message_cb check_timeout rds r1 })"

definition sr_loop ::
  "('u, 'y select_world) reactor_callbacks \<Rightarrow> (('u, 'y) select_reactor \<Rightarrow> ('u, 'y) select_reactor option) option \<Rightarrow>
   (('u, 'y) select_reactor \<Rightarrow> ('u, 'y) select_reactor option) \<Rightarrow> select_round list \<Rightarrow> ('u, 'y) select_reactor \<Rightarrow>
     ('u, 'y) select_reactor option" where
  "sr_loop cbs write_message_cb check_timeout rds r = sr_rounds cbs write_message_cb check_timeout rds (reactor_start r)"

subsection \<open>What the reactor watches\<close>

lemma sr_fill_ok:
  assumes "fds_ok fds" and "\<forall>s \<in> set ss. 0 \<le> dev_fd s \<and> dev_fd s < fs_max_sock_fd fds"
  shows "\<exists>fds'. sr_fill ss m fds = Some (Max (insert m (dev_fd ` set ss)), fds') \<and> fds_ok fds'
    \<and> members fds' = members fds \<union> dev_fd ` set ss \<and> fs_max_sock_fd fds' = fs_max_sock_fd fds
    \<and> length (fs_bits fds') = length (fs_bits fds)"
  using assms
proof (induction ss arbitrary: m fds)
  case (Cons s ss)
  obtain fds1 where s1: "fds_add (dev_fd s) fds = Some fds1" "fds_ok fds1" "fs_max_sock_fd fds1 = fs_max_sock_fd fds"
    "members fds1 = insert (dev_fd s) (members fds)"
    using fds_add_ok [OF Cons.prems(1), of "dev_fd s"] Cons.prems(2) by auto
  have len: "length (fs_bits fds1) = length (fs_bits fds)" using s1(1) by (auto simp: fds_add_def bit_set_def split: if_splits)
  have "Max (insert (if m < dev_fd s then dev_fd s else m) (dev_fd ` set ss)) = Max (insert m (insert (dev_fd s) (dev_fd ` set ss)))"
    by (cases "ss = []") (auto simp: max_def)
  then show ?case using Cons.IH [OF s1(2), of "if m < dev_fd s then dev_fd s else m"] Cons.prems(2) s1 len by auto
qed simp

text \<open>A reactor that has set up its sets: the copy holds exactly the descriptors of its sockets.\<close>

definition watching :: "('u, 'y) select_reactor \<Rightarrow> bool" where
  "watching r \<longleftrightarrow> (let w = rx_world r in \<not> sw_change w \<and> sw_new w = [] \<and> fds_ok (sw_read w) \<and> fds_ok (sw_back w)
     \<and> length (fs_bits (sw_back w)) = length (fs_bits (sw_read w))
     \<and> members (sw_back w) = dev_fd ` ran (rx_sockets r) \<and> (\<forall>fd \<in> members (sw_back w). fd \<le> sw_max w))"

lemma upd_select_simps [simp]:
  "rx_world (upd_select f r) = f (rx_world r)" "rx_sockets (upd_select f r) = rx_sockets r"
  "rx_connections (upd_select f r) = rx_connections r" "rx_quit (upd_select f r) = rx_quit r"
  by (simp_all add: upd_select_def)

lemma map_filter_ran: "set order = dom m \<Longrightarrow> set (List.map_filter m order) = ran m"
  by (force simp: List.map_filter_def ran_def)

lemma fds_copy_members:
  assumes "fds_ok s" and "length (fs_bits other) = length (fs_bits s)"
  shows "\<exists>s'. fds_copy s other = Some s' \<and> fds_ok s' \<and> members s' = members other \<and> length (fs_bits s') = length (fs_bits s)"
  using assms by (auto simp: fds_copy_def fds_ok_def members_def)

lemma sr_watch_change:
  assumes w: "fds_ok (sw_read (rx_world r))" "fds_ok (sw_back (rx_world r))" "sw_change (rx_world r)" "sw_new (rx_world r) = []"
      "length (fs_bits (sw_back (rx_world r))) = length (fs_bits (sw_read (rx_world r)))"
    and order: "set order = dom (rx_sockets r)" "order \<noteq> []"
    and fds: "\<forall>s \<in> ran (rx_sockets r). 0 \<le> dev_fd s \<and> dev_fd s < fs_max_sock_fd (sw_read (rx_world r))"
  shows "\<exists>r'. sr_watch order r = Some r' \<and> watching r' \<and> rx_sockets r' = rx_sockets r
    \<and> members (sw_read (rx_world r')) = dev_fd ` ran (rx_sockets r)"
proof -
  let ?zero = "fds_zero (sw_read (rx_world r))"
  have ran: "set (List.map_filter (rx_sockets r) order) = ran (rx_sockets r)" by (rule map_filter_ran [OF order(1)])
  have "hd order \<in> dom (rx_sockets r)" using order by (metis hd_in_set)
  then have "ran (rx_sockets r) \<noteq> {}" by (auto simp: ran_def)
  then obtain s ss where ss: "List.map_filter (rx_sockets r) order = s # ss" using ran by (cases "List.map_filter (rx_sockets r) order") auto
  have zero: "fds_ok ?zero" "members ?zero = {}" "fs_max_sock_fd ?zero = fs_max_sock_fd (sw_read (rx_world r))"
    "length (fs_bits ?zero) = length (fs_bits (sw_read (rx_world r)))"
    using fds_zero_ok [OF w(1)] by (simp_all add: fds_zero_def)
  obtain fds where f: "sr_fill (s # ss) (dev_fd s) ?zero = Some (Max (insert (dev_fd s) (dev_fd ` set (s # ss))), fds)" "fds_ok fds"
    "members fds = dev_fd ` set (s # ss)" "length (fs_bits fds) = length (fs_bits ?zero)"
    using sr_fill_ok [OF zero(1), of "s # ss" "dev_fd s"] zero(2,3) assms(8) ran ss by auto
  obtain kept where b: "fds_copy (sw_back (rx_world r)) fds = Some kept" "fds_ok kept" "members kept = members fds"
    "length (fs_bits kept) = length (fs_bits (sw_back (rx_world r)))"
    using fds_copy_members [OF w(2), of fds] f(4) zero(4) w(5) by auto
  let ?r = "upd_select (\<lambda>w. w\<lparr>sw_change := False, sw_read := fds, sw_max := Max (insert (dev_fd s) (dev_fd ` set (s # ss))), sw_back := kept\<rparr>) r"
  have "sr_watch order r = Some ?r" using w(3) ss f(1) b(1) by (simp add: sr_watch_def Let_def del: sr_fill.simps list.set)
  moreover have "\<forall>fd \<in> members kept. fd \<le> Max (insert (dev_fd s) (dev_fd ` set (s # ss)))"
    using b(3) f(3) by (auto intro: Max_ge)
  moreover have img: "members kept = dev_fd ` ran (rx_sockets r)" using b(3) f(3) ran ss by (metis)
  ultimately have "sr_watch order r = Some ?r \<and> watching ?r"
    using w(4) f(2,4) b(2,4) zero(4) w(5) by (simp add: watching_def Let_def)
  then show ?thesis using f(3) b(3) img by (intro exI [of _ ?r]) simp
qed

text \<open>
  Closing a connection ends the reactor. In a reactor that watches its sockets, let one be closed while another
  connection is open, and let \<open>select\<close> answer as it does when it is given a descriptor that is not open any more: \<open>closeSocket\<close> has left
  the descriptor in the set that is given to \<open>select\<close>, so the next round of the loop sets the quit flag, and no
  later round does anything, although the other connection is still there.
\<close>
theorem select_close_ends_reactor:
  assumes w: "watching r" and sid: "rx_sockets r sid = Some s" and other: "other \<noteq> sid" "rx_connections r other \<noteq> None"
    and select: "\<And>n fds. dev_fd s \<in> members fds \<Longrightarrow> dev_fd s < n \<Longrightarrow> sd_select rd n fds = SelectFailed EBADF"
    and sends: "\<And>r. \<exists>r'. sr_doWriteEvent write_message_cb r = Some r' \<and> (rx_quit r \<longrightarrow> rx_quit r')"
    and check: "\<And>r. \<exists>r'. check_timeout r = Some r' \<and> (rx_quit r \<longrightarrow> rx_quit r')"
  shows "\<exists>r'. sr_round cbs write_message_cb check_timeout rd (sr_closeSocket sid r) = Some r' \<and> rx_quit r'
    \<and> sr_rounds cbs write_message_cb check_timeout rds r' = Some r'"
proof -
  let ?w = "rx_world r"
  define r1 where "r1 = (sr_closeSocket sid r)\<lparr>rx_clock := sd_before rd\<rparr>"
  have w1: "rx_world r1 = ?w\<lparr>sw_ids := (sw_ids ?w)(dev_fd s := None)\<rparr>"
    by (simp add: r1_def sr_closeSocket_def reactor_closeSocket_def sid)
  have "rx_connections r1 other \<noteq> None"
    using other by (simp add: r1_def sr_closeSocket_def reactor_closeSocket_def sid)
  then have conns: "rx_connections r1 \<noteq> Map.empty" by auto
  obtain fds where fds: "fds_copy (sw_read ?w) (sw_back ?w) = Some fds" "members fds = members (sw_back ?w)"
    using fds_copy_members [of "sw_read ?w" "sw_back ?w"] w by (auto simp: watching_def Let_def)
  let ?r2 = "upd_select (\<lambda>w. w\<lparr>sw_read := fds\<rparr>) r1"
  have in_back: "dev_fd s \<in> members (sw_back ?w)" "dev_fd s < sw_max ?w + 1"
    using w sid by (force simp: watching_def Let_def ran_def)+
  have "sr_watch (sd_order rd) r1 = Some ?r2" using w fds(1) by (simp add: sr_watch_def w1 watching_def Let_def)
  moreover have "sd_select rd (sw_max (rx_world ?r2) + 1) (sw_read (rx_world ?r2)) = SelectFailed EBADF"
    using in_back fds(2) by (intro select) (simp_all add: w1)
  ultimately have event: "sr_doNetEvent cbs (sd_order rd) (sd_select rd) r1 = Some (False, ?r2)"
    by (simp add: sr_doNetEvent_def EBADF_def EINTR_def)
  obtain r3 where r3: "sr_doWriteEvent write_message_cb (?r2\<lparr>rx_quit := True\<rparr>) = Some r3" "rx_quit r3"
    using sends [of "?r2\<lparr>rx_quit := True\<rparr>"] by auto
  obtain r4 where r4: "check_timeout (r3\<lparr>rx_clock := sd_after rd\<rparr>) = Some r4" "rx_quit r4"
    using check [of "r3\<lparr>rx_clock := sd_after rd\<rparr>"] r3(2) by auto
  have take_new: "sr_take_new r1 = Some r1" using w by (simp add: sr_take_new_def w1 watching_def Let_def)
  have "sr_round cbs write_message_cb check_timeout rd (sr_closeSocket sid r) = Some r4"
    using take_new conns event r3(1) r4(1) by (simp add: sr_round_def r1_def [symmetric])
  moreover have "sr_rounds cbs write_message_cb check_timeout rds r4 = Some r4" using r4(2) by (cases rds) simp_all
  ultimately show ?thesis using r4(2) by blast
qed

text \<open>A callback that closes the socket whose event is handled leaves the loop with an iterator to nothing.\<close>

lemma read_close_undefined:
  assumes "rx_sockets r sid = Some s" and "fds_has (dev_fd s) (sw_read (rx_world r)) = Some True" and "dev_read_cb s"
    and "onSocketRead cbs (dev_id s) r = Some (v, r1)" and "rx_sockets r1 sid = None"
  shows "sr_doReadEvent cbs (sid # sids) r = None"
  using assms by simp

theorem select_close_ends_reactor_witness:
  "\<exists>(r :: (unit, unit) select_reactor) rd r' cbs. rx_connections (sr_closeSocket 1 r) 2 \<noteq> None
     \<and> sr_round cbs None Some rd (sr_closeSocket 1 r) = Some r' \<and> rx_quit r'"
proof -
  define c where "c = \<lparr>tc_status = CONNECTED, tc_error_code = 0,
    tc_read_buffer = \<lparr>db_buffer = [], db_expand_size = 8, db_read_index = 0, db_write_index = 0\<rparr>,
    tc_write_buffer = \<lparr>db_buffer = [], db_expand_size = 8, db_read_index = 0, db_write_index = 0\<rparr>, tc_send_complete_cb = NoCallback\<rparr>"
  define dev where "dev i = (IODevice (100 * i))\<lparr>dev_id := i, dev_fd := i + 3\<rparr>" for i :: int
  define fds where "fds = \<lparr>fs_bits = [False, False, False, False, True, True], fs_max_sock_fd = 6\<rparr>"
  define r :: "(unit, unit) select_reactor" where "r =
    (Reactor 10 (Timestamp 0 0) (\<lparr>k_sends = [], k_recvs = [], k_readable = [], k_wire = \<lambda>_. [], k_incoming = \<lambda>_. []\<rparr>)
      \<lparr>sw_read = fds, sw_write = fds, sw_back = fds, sw_new = [], sw_ids = [4 \<mapsto> 1, 5 \<mapsto> 2], sw_change = False, sw_max = 5, sw_rest = ()\<rparr>)
      \<lparr>rx_sockets := [1 \<mapsto> dev 1, 2 \<mapsto> dev 2], rx_connections := [1 \<mapsto> c, 2 \<mapsto> c]\<rparr>"
  define rd where "rd = \<lparr>sd_before = Timestamp 1 0, sd_order = [2, 1], sd_select = \<lambda>n fds. SelectFailed EBADF, sd_after = Timestamp 2 0\<rparr>"
  have members: "members fds = {4, 5}"
  proof (rule set_eqI)
    fix i
    show "i \<in> members fds \<longleftrightarrow> i \<in> {4, 5}"
    proof (cases "0 \<le> i \<and> i < 6")
      case True
      then have "i \<in> {0, 1, 2, 3, 4, 5}" by auto
      then show ?thesis by (auto simp: members_def fds_def)
    next
      case False
      then show ?thesis by (auto simp: members_def fds_def)
    qed
  qed
  have "ran (rx_sockets r) = {dev 1, dev 2}" by (auto simp: r_def ran_def intro: exI [of _ 2])
  then have w: "watching r"
    using members by (simp add: watching_def r_def Reactor_def fds_ok_def Let_def) (simp add: fds_def dev_def IODevice_def)
  have sid: "rx_sockets r 1 = Some (dev 1)" "rx_connections r 2 \<noteq> None" by (simp_all add: r_def)
  obtain r' where "sr_round cbs None Some rd (sr_closeSocket 1 r) = Some r'" "rx_quit r'"
    using select_close_ends_reactor [OF w sid(1) _ sid(2), of rd None Some cbs "[]"]
    by (auto simp: rd_def sr_doWriteEvent_def)
  moreover have "rx_connections (sr_closeSocket 1 r) 2 \<noteq> None"
    using sid by (simp add: sr_closeSocket_def reactor_closeSocket_def)
  ultimately show ?thesis by blast
qed

subsection \<open>The acceptor on \<open>select\<close>\<close>

text \<open>
  \<open>net/select_acceptor.h\<close>, \<open>.cc\<close>: an \<open>Acceptor\<close> with a set for its one descriptor. The time to wait, in microseconds, is
  computed in \<open>int\<close>; what \<open>select\<close> answers may depend on it.
\<close>

definition SelectAcceptor :: "io_device \<Rightarrow> nat \<Rightarrow> fd_kernel \<Rightarrow> 't acceptor \<times> fdset" where
  "SelectAcceptor listen_socket max_socket_num k =
     (Acceptor 0 listen_socket max_socket_num k, fds_create (int (max_socket_num mod 2 ^ 16)))"

definition sl_timeout :: "int \<Rightarrow> int" where
  "sl_timeout timer_timeout =
     min (sint (word_of_int (sint (word_of_int timer_timeout :: 32 word) * 1000) :: 32 word)) (30 * 60 * 1000 * 1000)"

record listen_round =
  sl_before :: timestamp
  sl_select :: "int \<Rightarrow> int \<Rightarrow> fdset \<Rightarrow> select_answer"
  sl_after :: timestamp

definition sl_round ::
  "(nat \<Rightarrow> int) \<Rightarrow> (io_device \<Rightarrow> bool) \<Rightarrow> (timestamp \<Rightarrow> 't acceptor \<Rightarrow> 't acceptor option) \<Rightarrow> listen_round \<Rightarrow>
     't acceptor \<times> fdset \<Rightarrow> ('t acceptor \<times> fdset) option" where
  "sl_round mem takes check_timeout rd = (\<lambda>(a, read).
     do { fds \<leftarrow> fds_add (dev_fd (ac_listen a)) (fds_zero read);
          case sl_select rd (sl_timeout (getNextTimeoutMillisecond (sl_before rd) (is_timers a))) (dev_fd (ac_listen a) + 1) fds of
            SelectFailed e \<Rightarrow> Some (if e = EINTR then a else a\<lparr>ac_quit := True\<rparr>, fds)
          | Selected fds1 \<Rightarrow> do {
              ready \<leftarrow> fds_has (dev_fd (ac_listen a)) fds1;
              a1 \<leftarrow> check_timeout (sl_after rd) (if ready then snd (ac_accept mem takes a) else a);
              Some (a1, fds1) } })"

primrec sl_loop ::
  "(nat \<Rightarrow> int) \<Rightarrow> (io_device \<Rightarrow> bool) \<Rightarrow> (timestamp \<Rightarrow> 't acceptor \<Rightarrow> 't acceptor option) \<Rightarrow> listen_round list \<Rightarrow>
     't acceptor \<times> fdset \<Rightarrow> ('t acceptor \<times> fdset) option" where
  "sl_loop mem takes check_timeout [] s = Some s"
| "sl_loop mem takes check_timeout (rd # rds) s =
     (if ac_quit (fst s) then Some s
      else do { s1 \<leftarrow> sl_round mem takes check_timeout rd s; sl_loop mem takes check_timeout rds s1 })"

text \<open>
  An acceptor without timers accepts nothing. With no timer pending the time to wait comes out as \<open>-1000\<close> microseconds;
  when \<open>select\<close> refuses a negative time as it is documented to (error 22, \<open>EINVAL\<close>), the first round ends the loop, whatever
  connections wait.
\<close>
theorem select_acceptor_stops:
  assumes timers: "minHeapTop (is_timers a) = None"
    and fd: "0 \<le> dev_fd (ac_listen a)" "fds_ok read"
    and select: "\<And>t n fds. t < 0 \<Longrightarrow> sl_select rd t n fds = SelectFailed 22"
    and run: "\<not> ac_quit a"
  shows "\<exists>fds. sl_loop mem takes check_timeout (rd # rds) (a, read) = Some (a\<lparr>ac_quit := True\<rparr>, fds)"
proof -
  have "getNextTimeoutMillisecond (sl_before rd) (is_timers a) = -1"
    using timers by (simp add: getNextTimeoutMillisecond_def)
  then have "sl_timeout (getNextTimeoutMillisecond (sl_before rd) (is_timers a)) < 0" by (simp add: sl_timeout_def)
  moreover obtain fds where "fds_add (dev_fd (ac_listen a)) (fds_zero read) = Some fds"
    using fds_add_ok [of "fds_zero read" "dev_fd (ac_listen a)"] fds_zero_ok [OF fd(2)] fd(1) by auto
  ultimately have "sl_round mem takes check_timeout rd (a, read) = Some (a\<lparr>ac_quit := True\<rparr>, fds)"
    using select by (simp add: sl_round_def EINTR_def)
  moreover have "sl_loop mem takes check_timeout rds (a\<lparr>ac_quit := True\<rparr>, fds) = Some (a\<lparr>ac_quit := True\<rparr>, fds)"
    by (cases rds) simp_all
  ultimately show ?thesis using run by simp
qed

theorem select_acceptor_stops_witness:
  "\<exists>fds. sl_loop int (\<lambda>_. True) (\<lambda>_ a. Some a)
       [\<lparr>sl_before = Timestamp 0 0, sl_select = \<lambda>t n fds. if t < 0 then SelectFailed 22 else Selected fds, sl_after = Timestamp 0 0\<rparr>]
       (example_acceptor\<lparr>ac_quit := False\<rparr>, fds_create 100)
     = Some (example_acceptor\<lparr>ac_quit := True\<rparr>, fds) \<and> fk_pending (ac_kernel example_acceptor) = 2"
proof -
  have "minHeapTop (is_timers (example_acceptor\<lparr>ac_quit := False\<rparr>)) = None" "dev_fd (ac_listen example_acceptor) = 3"
    "fk_pending (ac_kernel example_acceptor) = 2"
    by (simp_all add: example_acceptor_def setNewConnCallback_def Acceptor_def TimerHeap_def minHeapTop_def)
  then show ?thesis
    using select_acceptor_stops [of "example_acceptor\<lparr>ac_quit := False\<rparr>" "fds_create 100" _ int "\<lambda>_. True" "\<lambda>_ a. Some a" "[]"]
      fds_create_ok [of 100] by simp
qed

end
