(* ===== verification/Thread_Model.thy ===== *)
theory Thread_Model
  imports Zb_Prelude
begin

text \<open>
  Semaphores and threads (\<open>semaphore.h\<close>, \<open>.cc\<close>, \<open>thread.h\<close>, \<open>.cc\<close>).

  The operations of a semaphore run under its mutex, except that \<open>wait\<close> gives it up between announcing itself and being
  woken; so \<open>wait\<close> is two steps. A \<open>Thread\<close> is started, closed and left by other threads; its worker ends in two
  steps, the wake-up and the reset of \<open>is_run_\<close>, neither of which is under the thread's mutex, which \<open>close\<close>
  holds while it waits.
\<close>

subsection \<open>\<open>Semaphore\<close>\<close>

record semaphore =
  wait_count :: int
  wakeup_count :: int

definition Semaphore :: semaphore where
  "Semaphore = \<lparr>wait_count = 0, wakeup_count = 0\<rparr>"

text \<open>The first half of \<open>wait\<close>: whether the caller has to block.\<close>

definition sem_wait :: "semaphore \<Rightarrow> bool \<times> semaphore" where
  "sem_wait s = (let s1 = s\<lparr>wait_count := wait_count s - 1\<rparr> in (wait_count s1 < 0, s1))"

text \<open>The second half, which can only happen when the condition of the condition variable holds.\<close>

definition sem_woken :: "semaphore \<Rightarrow> semaphore option" where
  "sem_woken s = (if 0 < wakeup_count s then Some (s\<lparr>wakeup_count := wakeup_count s - 1\<rparr>) else None)"

definition sem_wakeup :: "semaphore \<Rightarrow> semaphore" where
  "sem_wakeup s =
     (let s1 = s\<lparr>wait_count := wait_count s + 1\<rparr>
      in if wait_count s1 \<le> 0 then s1\<lparr>wakeup_count := wakeup_count s1 + 1\<rparr> else s1)"

text \<open>Threads around one semaphore: how many block, how many have passed, how often it was signalled.\<close>

record sem_system =
  ss_sem :: semaphore
  ss_blocked :: nat
  ss_passed :: nat
  ss_signals :: nat

inductive sem_step :: "sem_system \<Rightarrow> sem_system \<Rightarrow> bool" where
  pass: "sem_wait (ss_sem s) = (False, m) \<Longrightarrow> sem_step s (s\<lparr>ss_sem := m, ss_passed := Suc (ss_passed s)\<rparr>)"
| block: "sem_wait (ss_sem s) = (True, m) \<Longrightarrow> sem_step s (s\<lparr>ss_sem := m, ss_blocked := Suc (ss_blocked s)\<rparr>)"
| resume: "ss_blocked s = Suc n \<Longrightarrow> sem_woken (ss_sem s) = Some m \<Longrightarrow>
     sem_step s (s\<lparr>ss_sem := m, ss_blocked := n, ss_passed := Suc (ss_passed s)\<rparr>)"
| signal: "sem_step s (s\<lparr>ss_sem := sem_wakeup (ss_sem s), ss_signals := Suc (ss_signals s)\<rparr>)"

inductive_cases sem_stepE: "sem_step s t"

inductive sem_reachable :: "sem_system \<Rightarrow> bool" where
  start: "sem_reachable \<lparr>ss_sem = Semaphore, ss_blocked = 0, ss_passed = 0, ss_signals = 0\<rparr>"
| step: "sem_reachable s \<Longrightarrow> sem_step s t \<Longrightarrow> sem_reachable t"

text \<open>
  \<open>wait_count\<close> is the signals not yet asked for, or minus the waits not yet signalled; the blocked threads are those and the
  ones whose wake-up is under way.
\<close>

definition sem_inv :: "sem_system \<Rightarrow> bool" where
  "sem_inv s \<longleftrightarrow> 0 \<le> wakeup_count (ss_sem s)
     \<and> int (ss_signals s) = wait_count (ss_sem s) + int (ss_passed s) + int (ss_blocked s)
     \<and> int (ss_blocked s) = (if wait_count (ss_sem s) < 0 then - wait_count (ss_sem s) else 0) + wakeup_count (ss_sem s)"

lemma sem_step_inv:
  assumes "sem_step s t" "sem_inv s"
  shows "sem_inv t"
  using assms(1)
proof (cases rule: sem_step.cases)
  case (pass m)
  then have "m = ss_sem s\<lparr>wait_count := wait_count (ss_sem s) - 1\<rparr>" "0 < wait_count (ss_sem s)"
    by (auto simp: sem_wait_def Let_def)
  then show ?thesis using pass assms(2) by (simp add: sem_inv_def)
next
  case (block m)
  then have "m = ss_sem s\<lparr>wait_count := wait_count (ss_sem s) - 1\<rparr>" "\<not> 0 < wait_count (ss_sem s)"
    by (auto simp: sem_wait_def Let_def)
  then show ?thesis using block assms(2) by (auto simp: sem_inv_def split: if_splits)
next
  case (resume n m)
  then have "m = ss_sem s\<lparr>wakeup_count := wakeup_count (ss_sem s) - 1\<rparr>" "0 < wakeup_count (ss_sem s)"
    by (auto simp: sem_woken_def split: if_splits)
  then show ?thesis using resume assms(2) by (auto simp: sem_inv_def split: if_splits)
next
  case signal
  have "wait_count (sem_wakeup m) = wait_count m + 1"
    "wakeup_count (sem_wakeup m) = (if wait_count m < 0 then wakeup_count m + 1 else wakeup_count m)" for m
    by (simp_all add: sem_wakeup_def Let_def)
  then show ?thesis using signal assms(2) by (auto simp: sem_inv_def split: if_splits)
qed

lemma sem_reachable_inv: "sem_reachable s \<Longrightarrow> sem_inv s"
proof (induction rule: sem_reachable.induct)
  case start
  show ?case by (simp add: sem_inv_def Semaphore_def)
next
  case (step s t)
  then show ?case by (blast intro: sem_step_inv)
qed

text \<open>
  The semaphore counts. In every interleaving no more threads have passed than it was signalled; a thread blocks only
  when all signals are used up, and as long as threads are blocked although signals are left, one of the
  blocked threads can go on.
\<close>
theorem semaphore_counts:
  assumes "sem_reachable s"
  shows "ss_passed s \<le> ss_signals s
    \<and> (fst (sem_wait (ss_sem s)) \<longleftrightarrow> ss_signals s \<le> ss_passed s + ss_blocked s)
    \<and> (sem_woken (ss_sem s) \<noteq> None \<longleftrightarrow> 0 < ss_blocked s \<and> ss_passed s < ss_signals s)"
proof -
  from sem_reachable_inv [OF assms] have i: "0 \<le> wakeup_count (ss_sem s)"
      "int (ss_signals s) = wait_count (ss_sem s) + int (ss_passed s) + int (ss_blocked s)"
      "int (ss_blocked s) = (if wait_count (ss_sem s) < 0 then - wait_count (ss_sem s) else 0) + wakeup_count (ss_sem s)"
    by (auto simp: sem_inv_def)
  have "ss_passed s \<le> ss_signals s" using i by (simp split: if_splits)
  moreover have "fst (sem_wait (ss_sem s)) \<longleftrightarrow> wait_count (ss_sem s) < 1" by (simp add: sem_wait_def Let_def)
  then have "fst (sem_wait (ss_sem s)) \<longleftrightarrow> ss_signals s \<le> ss_passed s + ss_blocked s" using i(2) by linarith
  moreover have "0 < wakeup_count (ss_sem s) \<longleftrightarrow> 0 < ss_blocked s \<and> ss_passed s < ss_signals s"
    using i by (cases "wait_count (ss_sem s) < 0") (simp_all, linarith+)
  ultimately show ?thesis by (auto simp: sem_woken_def)
qed

text \<open>One thread waits and is signalled.\<close>

theorem semaphore_counts_witness:
  "\<exists>s. sem_reachable s \<and> ss_blocked s = 1 \<and> ss_signals s = 1 \<and> sem_woken (ss_sem s) \<noteq> None"
proof -
  let ?s0 = "\<lparr>ss_sem = Semaphore, ss_blocked = 0, ss_passed = 0, ss_signals = 0\<rparr>"
  have "sem_wait Semaphore = (True, \<lparr>wait_count = -1, wakeup_count = 0\<rparr>)" by (simp add: sem_wait_def Semaphore_def)
  then have s1: "sem_reachable \<lparr>ss_sem = \<lparr>wait_count = -1, wakeup_count = 0\<rparr>, ss_blocked = 1, ss_passed = 0, ss_signals = 0\<rparr>"
    using sem_reachable.step [OF sem_reachable.start sem_step.block, of "\<lparr>wait_count = -1, wakeup_count = 0\<rparr>"] by simp
  define s2 where "s2 = \<lparr>ss_sem = sem_wakeup \<lparr>wait_count = -1, wakeup_count = 0\<rparr>, ss_blocked = 1, ss_passed = 0, ss_signals = 1\<rparr>"
  have r: "sem_reachable s2" using sem_reachable.step [OF s1 sem_step.signal] by (simp add: s2_def)
  have "ss_passed s2 < ss_signals s2" "0 < ss_blocked s2" by (simp_all add: s2_def)
  then have "sem_woken (ss_sem s2) \<noteq> None" using semaphore_counts [OF r] by blast
  then show ?thesis using r by (intro exI [of _ s2]) (simp add: s2_def)
qed

subsection \<open>\<open>Thread\<close>\<close>

datatype worker = Running | Signalled | Ended

datatype closer = NotClosing | Closing | Closed

record thread_object =
  to_is_run :: bool
  to_sem :: semaphore
  to_workers :: "worker list"
  to_closer :: closer

text \<open>The constructor does not initialise \<open>is_run_\<close>: its value is an argument.\<close>

definition Thread :: "bool \<Rightarrow> thread_object" where
  "Thread garbage = \<lparr>to_is_run = garbage, to_sem = Semaphore, to_workers = [], to_closer = NotClosing\<rparr>"

definition thread_start :: "thread_object \<Rightarrow> thread_object" where
  "thread_start t = (if \<not> to_is_run t then t\<lparr>to_is_run := True, to_workers := to_workers t @ [Running]\<rparr> else t)"

definition thread_close :: "thread_object \<Rightarrow> thread_object" where
  "thread_close t =
     (if to_is_run t then
        let (blocks, m) = sem_wait (to_sem t)
        in t\<lparr>to_is_run := False, to_sem := m, to_closer := (if blocks then Closing else Closed)\<rparr>
      else t\<lparr>to_closer := Closed\<rparr>)"

definition thread_exit :: "thread_object \<Rightarrow> thread_object" where
  "thread_exit t = (if to_is_run t then t\<lparr>to_is_run := False\<rparr> else t)"

definition isRun :: "thread_object \<Rightarrow> bool" where
  "isRun t = to_is_run t"

text \<open>
  The steps. The caller's operations need the mutex, so none happens while a \<open>close\<close> is waiting; \<open>onRun\<close> ends with \<open>signal\<close>
  and \<open>leave\<close>.
\<close>

inductive thread_step :: "thread_object \<Rightarrow> thread_object \<Rightarrow> bool" where
  start: "to_closer t \<noteq> Closing \<Longrightarrow> thread_step t (thread_start t)"
| close: "to_closer t \<noteq> Closing \<Longrightarrow> thread_step t (thread_close t)"
| exit: "to_closer t \<noteq> Closing \<Longrightarrow> thread_step t (thread_exit t)"
| return: "to_closer t = Closing \<Longrightarrow> sem_woken (to_sem t) = Some m \<Longrightarrow> thread_step t (t\<lparr>to_sem := m, to_closer := Closed\<rparr>)"
| signal: "i < length (to_workers t) \<Longrightarrow> to_workers t ! i = Running \<Longrightarrow>
     thread_step t (t\<lparr>to_sem := sem_wakeup (to_sem t), to_workers := (to_workers t)[i := Signalled]\<rparr>)"
| leave: "i < length (to_workers t) \<Longrightarrow> to_workers t ! i = Signalled \<Longrightarrow>
     thread_step t (t\<lparr>to_is_run := False, to_workers := (to_workers t)[i := Ended]\<rparr>)"

inductive_cases thread_stepE: "thread_step t u"

text \<open>
  The uses of the library: a thread is started once, then closed (\<open>NetThread\<close>, \<open>Acceptor\<close>, \<open>LoggerAsyncSink\<close>); \<open>exit\<close> is
  not called. \<open>garbage\<close> is what \<open>is_run_\<close> held when the object was made.
\<close>

inductive used_once :: "bool \<Rightarrow> thread_object \<Rightarrow> bool" for garbage where
  fresh: "used_once garbage (thread_start (Thread garbage))"
| close: "used_once garbage t \<Longrightarrow> to_closer t \<noteq> Closing \<Longrightarrow> used_once garbage (thread_close t)"
| return: "used_once garbage t \<Longrightarrow> to_closer t = Closing \<Longrightarrow> sem_woken (to_sem t) = Some m \<Longrightarrow>
     used_once garbage (t\<lparr>to_sem := m, to_closer := Closed\<rparr>)"
| signal: "used_once garbage t \<Longrightarrow> to_workers t = [Running] \<Longrightarrow>
     used_once garbage (t\<lparr>to_sem := sem_wakeup (to_sem t), to_workers := [Signalled]\<rparr>)"
| leave: "used_once garbage t \<Longrightarrow> to_workers t = [Signalled] \<Longrightarrow> used_once garbage (t\<lparr>to_is_run := False, to_workers := [Ended]\<rparr>)"

text \<open>The states such a use goes through, by what the worker and the closer have done; without a worker, the closer waits.\<close>

definition once_inv :: "thread_object \<Rightarrow> bool" where
  "once_inv t \<longleftrightarrow>
     (to_workers t = [Running] \<and> to_closer t = NotClosing \<and> to_is_run t \<and> to_sem t = \<lparr>wait_count = 0, wakeup_count = 0\<rparr>)
   \<or> (to_workers t = [Running] \<and> to_closer t = Closing \<and> \<not> to_is_run t \<and> to_sem t = \<lparr>wait_count = -1, wakeup_count = 0\<rparr>)
   \<or> (to_workers t = [Signalled] \<and> to_closer t = NotClosing \<and> to_is_run t \<and> to_sem t = \<lparr>wait_count = 1, wakeup_count = 0\<rparr>)
   \<or> (to_workers t = [Ended] \<and> to_closer t \<noteq> Closing \<and> \<not> to_is_run t \<and> to_sem t = \<lparr>wait_count = 1, wakeup_count = 0\<rparr>)
   \<or> (to_workers t \<in> {[Signalled], [Ended]} \<and> to_closer t = Closing \<and> \<not> to_is_run t \<and> to_sem t = \<lparr>wait_count = 0, wakeup_count = 1\<rparr>)
   \<or> (to_workers t \<in> {[Signalled], [Ended]} \<and> to_closer t = Closed \<and> \<not> to_is_run t \<and> to_sem t = \<lparr>wait_count = 0, wakeup_count = 0\<rparr>)"

definition never_started :: "thread_object \<Rightarrow> bool" where
  "never_started t \<longleftrightarrow> to_workers t = [] \<and>
     (to_closer t = NotClosing \<and> to_is_run t \<and> to_sem t = \<lparr>wait_count = 0, wakeup_count = 0\<rparr>
      \<or> to_closer t = Closing \<and> \<not> to_is_run t \<and> to_sem t = \<lparr>wait_count = -1, wakeup_count = 0\<rparr>)"

lemma used_once_inv: "used_once garbage t \<Longrightarrow> if garbage then never_started t else once_inv t"
proof (induction rule: used_once.induct)
  case fresh
  show ?case by (simp add: once_inv_def never_started_def thread_start_def Thread_def Semaphore_def)
next
  case (close t)
  then show ?case by (auto simp: once_inv_def never_started_def thread_close_def sem_wait_def Let_def split: if_splits)
next
  case (return t m)
  then show ?case by (auto simp: once_inv_def never_started_def sem_woken_def split: if_splits)
next
  case (signal t)
  then show ?case by (auto simp: once_inv_def never_started_def sem_wakeup_def Let_def split: if_splits)
next
  case (leave t)
  then show ?case by (auto simp: once_inv_def never_started_def split: if_splits)
qed

text \<open>
  C40: closing a thread waits for it, if \<open>is_run_\<close>, which the constructor leaves as it is, was false. Then, when a thread object is
  used once, in every interleaving of the worker and the callers \<open>start\<close> has started the one worker, the moment \<open>close\<close> has
  returned the worker has left its callbacks for good, and a \<open>close\<close> that waits can go on exactly when the worker has
  signalled: it neither returns early nor waits for ever. If \<open>is_run_\<close> happened to be true there never is a worker, and
  \<open>close\<close> does not return: nobody will wake it up.
\<close>
theorem close_waits_for_worker:
  assumes "used_once garbage t"
  shows "(\<not> garbage \<longrightarrow> length (to_workers t) = 1
      \<and> (to_closer t = Closed \<longrightarrow> Running \<notin> set (to_workers t))
      \<and> (to_closer t = Closing \<longrightarrow> (sem_woken (to_sem t) \<noteq> None \<longleftrightarrow> Running \<notin> set (to_workers t))))
    \<and> (garbage \<longrightarrow> to_workers t = [] \<and> to_closer t \<noteq> Closed \<and> sem_woken (to_sem t) = None)"
  using used_once_inv [OF assms] by (cases garbage) (auto simp: once_inv_def never_started_def sem_woken_def)

lemma closed_once:
  "used_once garbage (thread_close (thread_start (Thread garbage)))"
  "thread_close (thread_start (Thread garbage)) = \<lparr>to_is_run = False, to_sem = \<lparr>wait_count = -1, wakeup_count = 0\<rparr>,
     to_workers = (if garbage then [] else [Running]), to_closer = Closing\<rparr>"
proof -
  show "used_once garbage (thread_close (thread_start (Thread garbage)))"
    by (rule used_once.close [OF used_once.fresh]) (simp add: thread_start_def Thread_def)
  show "thread_close (thread_start (Thread garbage)) = \<lparr>to_is_run = False, to_sem = \<lparr>wait_count = -1, wakeup_count = 0\<rparr>,
     to_workers = (if garbage then [] else [Running]), to_closer = Closing\<rparr>"
    by (simp add: thread_close_def thread_start_def Thread_def sem_wait_def Semaphore_def Let_def)
qed

text \<open>One that waits while its worker runs, the same after the worker has signalled, and one without a worker.\<close>

theorem close_waits_for_worker_witness:
  "\<exists>t u v. used_once False t \<and> to_closer t = Closing \<and> to_workers t = [Running] \<and> sem_woken (to_sem t) = None
     \<and> used_once False u \<and> to_closer u = Closing \<and> to_workers u = [Signalled] \<and> sem_woken (to_sem u) \<noteq> None
     \<and> used_once True v \<and> to_closer v = Closing \<and> to_workers v = [] \<and> sem_woken (to_sem v) = None"
proof -
  let ?t = "thread_close (thread_start (Thread False))" and ?v = "thread_close (thread_start (Thread True))"
  define u where "u = ?t\<lparr>to_sem := sem_wakeup (to_sem ?t), to_workers := [Signalled]\<rparr>"
  have u: "used_once False u" unfolding u_def by (rule used_once.signal [OF closed_once(1)]) (simp add: closed_once(2))
  have uc: "to_closer u = Closing" "to_workers u = [Signalled]" by (simp_all add: u_def closed_once(2))
  have "sem_woken (to_sem ?t) = None" "sem_woken (to_sem u) \<noteq> None" "sem_woken (to_sem ?v) = None"
    using close_waits_for_worker [OF closed_once(1)] close_waits_for_worker [OF u] uc by (simp_all add: closed_once(2))
  moreover have "to_closer ?t = Closing" "to_workers ?t = [Running]" "to_closer ?v = Closing" "to_workers ?v = []"
    by (simp_all add: closed_once(2))
  ultimately show ?thesis using closed_once(1) [of False] closed_once(1) [of True] u uc by blast
qed

text \<open>
  But the worker still writes \<open>is_run_\<close> after its wake-up: \<open>close\<close> may have returned, and the object may be gone.
\<close>

lemma worker_outlives_close:
  "\<exists>t. used_once False t \<and> to_closer t = Closed \<and> to_workers t = [Signalled]"
proof -
  let ?t = "thread_close (thread_start (Thread False))"
  have "to_workers ?t = [Running]" by (simp add: closed_once(2))
  from used_once.signal [OF closed_once(1) this]
  have "used_once False \<lparr>to_is_run = False, to_sem = \<lparr>wait_count = 0, wakeup_count = 1\<rparr>, to_workers = [Signalled], to_closer = Closing\<rparr>"
    by (simp add: closed_once(2) sem_wakeup_def)
  from used_once.return [OF this]
  have "used_once False \<lparr>to_is_run = False, to_sem = \<lparr>wait_count = 0, wakeup_count = 0\<rparr>, to_workers = [Signalled], to_closer = Closed\<rparr>"
    by (simp add: sem_woken_def)
  then show ?thesis by (intro exI, intro conjI) (assumption, simp_all)
qed

subsection \<open>Using a thread object again\<close>

inductive thread_run :: "thread_object \<Rightarrow> thread_object \<Rightarrow> bool" where
  stay: "thread_run t t"
| more: "thread_run t u \<Longrightarrow> thread_step u v \<Longrightarrow> thread_run t v"

text \<open>
  A thread object cannot be used again after its worker ended by itself. The worker's wake-up is left in the semaphore,
  so that after a second \<open>start\<close> the next \<open>close\<close> returns at once, while the new worker is running.
\<close>
theorem second_close_returns_early:
  "\<exists>t. thread_run (Thread False) t \<and> to_closer t = Closed \<and> to_workers t = [Ended, Running]"
proof -
  define m where "m = \<lparr>wait_count = 1, wakeup_count = 0\<rparr>"
  have "thread_run (Thread False) (thread_start (Thread False))"
    by (rule thread_run.more [OF thread_run.stay thread_step.start]) (simp add: Thread_def)
  then have "thread_run (Thread False) \<lparr>to_is_run = True, to_sem = Semaphore, to_workers = [Running], to_closer = NotClosing\<rparr>"
    by (simp add: Thread_def thread_start_def)
  from thread_run.more [OF this thread_step.signal [of 0]]
  have "thread_run (Thread False) \<lparr>to_is_run = True, to_sem = m, to_workers = [Signalled], to_closer = NotClosing\<rparr>"
    by (simp add: sem_wakeup_def Semaphore_def m_def)
  from thread_run.more [OF this thread_step.leave [of 0]]
  have "thread_run (Thread False) \<lparr>to_is_run = False, to_sem = m, to_workers = [Ended], to_closer = NotClosing\<rparr>"
    by simp
  from thread_run.more [OF this thread_step.start]
  have "thread_run (Thread False) \<lparr>to_is_run = True, to_sem = m, to_workers = [Ended, Running], to_closer = NotClosing\<rparr>"
    by (simp add: thread_start_def)
  from thread_run.more [OF this thread_step.close]
  have "thread_run (Thread False)
      \<lparr>to_is_run = False, to_sem = \<lparr>wait_count = 0, wakeup_count = 0\<rparr>, to_workers = [Ended, Running], to_closer = Closed\<rparr>"
    by (simp add: thread_close_def sem_wait_def m_def)
  then show ?thesis by (intro exI, intro conjI) (assumption, simp_all)
qed

text \<open>A thread object whose memory happened to hold true never starts its worker.\<close>

lemma garbage_is_run: "to_workers (thread_start (Thread True)) = []"
  by (simp add: thread_start_def Thread_def)

end
