(* ===== verification/Logger_Model.thy ===== *)
theory Logger_Model
  imports Timestamp_Model
begin

text \<open>
  \<open>Logger\<close> (\<open>logger.h\<close>, \<open>logger.cc\<close>) and the line format of \<open>log.cc\<close>.

  The result of the C library's formatting of a format string and its arguments is an input of the model
  (\<open>le_text\<close>), as is the text of the wall clock; how that text gets into the fixed buffer is modelled byte by byte,
  with \<open>None\<close> for a store outside of it. A sink is an object with a virtual \<open>log\<close>, here a number: the model gives the calls
  that are made, in their order. Formatted texts are shorter than \<open>2 ^ 31\<close>, the range of the count that
  \<open>snprintf\<close> returns.
\<close>

subsection \<open>Formatting into a buffer\<close>

text \<open>
  \<open>snprintf\<close> at an offset of the buffer, with the size it is told, and the count it returns, for sizes up to \<open>INT_MAX\<close>. For
  a larger one POSIX has it fail with \<open>EOVERFLOW\<close>, which ISO C and some libraries do not: \<open>sized_snprintf\<close> has the kind of
  library as an argument, \<open>strict\<close> if it fails. \<open>max_log_size_\<close> is an \<open>int\<close>, so that only \<open>plainLog\<close>, with a size that has
  wrapped around, can pass one that large.
\<close>

definition c_snprintf :: "bytes \<Rightarrow> nat \<Rightarrow> nat \<Rightarrow> bytes \<Rightarrow> (bytes \<times> nat) option" where
  "c_snprintf buf pos sz t =
     (if sz = 0 then Some (buf, length t)
      else map_option (\<lambda>b. (b, length t)) (mem_write buf pos (take (sz - 1) t @ [0])))"

definition int_max :: nat where
  "int_max = 2 ^ 31 - 1"

definition sized_snprintf :: "bool \<Rightarrow> bytes \<Rightarrow> nat \<Rightarrow> nat \<Rightarrow> bytes \<Rightarrow> (bytes \<times> int) option" where
  "sized_snprintf strict buf pos sz t =
     (if strict \<and> int_max < sz then Some (buf, -1) else map_option (\<lambda>(b, n). (b, int n)) (c_snprintf buf pos sz t))"

definition chars :: "string \<Rightarrow> bytes" where
  "chars s = map of_char s"

fun decimal :: "nat \<Rightarrow> bytes" where
  "decimal n = (if n < 10 then [of_nat (48 + n)] else decimal (n div 10) @ [of_nat (48 + n mod 10)])"

declare decimal.simps [simp del]

definition show_int :: "int \<Rightarrow> bytes" where
  "show_int i = (if i < 0 then chars ''-'' @ decimal (nat (- i)) else decimal (nat i))"

definition show_padded :: "nat \<Rightarrow> nat \<Rightarrow> bytes" where
  "show_padded w n = replicate (w - length (decimal n)) 48 @ decimal n"

text \<open>The wall clock as the formatter reads it: the text of the time of day and the moment.\<close>

record log_clock =
  lc_hms :: bytes
  lc_now :: timestamp

text \<open>One call of the log: what it is given, with the formatted text and the clock.\<close>

record log_event =
  le_level :: int
  le_file :: bytes
  le_line :: int
  le_func :: bytes
  le_text :: bytes
  le_clock :: log_clock

definition level_string :: "int \<Rightarrow> bytes" where
  "level_string l = [chars ''DEBUG'', chars ''INFO'', chars ''*WARN*'', chars ''**ERROR**''] ! nat l"

definition log_header :: "log_event \<Rightarrow> bytes" where
  "log_header ev =
     chars ''['' @ level_string (le_level ev) @ chars ''][''
       @ lc_hms (le_clock ev) @ chars '':'' @ show_padded 3 (nat (getMillisecond (lc_now (le_clock ev)))) @ chars ''][''
       @ le_file ev @ chars '':'' @ show_int (le_line ev) @ chars '']('' @ le_func ev @ chars '')''"

text \<open>The end of \<open>logFormatter\<close> when the buffer is full: the last character becomes a line feed.\<close>

definition line_full :: "nat \<Rightarrow> bytes \<Rightarrow> (bytes \<times> nat) option" where
  "line_full sz b =
     (if 2 \<le> sz then map_option (\<lambda>b'. (b', sz - 1)) (mem_write b (sz - 2) [10])
      else Some (b, sz_sub sz 1))"

definition logFormatter :: "log_event \<Rightarrow> nat \<Rightarrow> bytes \<Rightarrow> (bytes \<times> nat) option" where
  "logFormatter ev sz buf =
     (if le_level ev < 0 \<or> 4 \<le> le_level ev then Some (buf, 0)
      else do {
        (b1, n1) \<leftarrow> c_snprintf buf 0 sz (log_header ev);
        if sz \<le> n1 then line_full sz b1
        else do {
          (b2, n2) \<leftarrow> c_snprintf b1 n1 (sz - n1) (le_text ev);
          if sz \<le> n1 + n2 then line_full sz b2
          else do {
            (b3, n3) \<leftarrow> c_snprintf b2 (n1 + n2) (sz - (n1 + n2)) [10];
            if sz \<le> n1 + n2 + n3 then line_full sz b3 else Some (b3, n1 + n2 + n3) } } })"

text \<open>A store at the offset where the text so far ends.\<close>

lemma c_snprintf_eq:
  assumes "pos + sz = length buf"
  shows "c_snprintf buf pos sz t = Some
    (if sz = 0 then buf else take pos buf @ take (sz - 1) t @ 0 # drop (Suc (pos + min (sz - 1) (length t))) buf, length t)"
  using assms by (auto simp: c_snprintf_def mem_write_def min.commute)

lemma line_full_eq:
  "length b = Suc (Suc k) \<Longrightarrow> line_full (Suc (Suc k)) b = Some (take k b @ 10 # drop (Suc k) b, Suc k)"
  by (simp add: line_full_def mem_write_def)

text \<open>
  \<open>logFormatter\<close> never writes outside of its buffer. A line that fits is the header, the text and a line feed; a longer one
  is cut so that it still ends in a line feed.
\<close>
theorem log_line_bounds:
  assumes "length buf = sz" "2 \<le> sz" "0 \<le> le_level ev" "le_level ev < 4"
  shows "map_option (\<lambda>(b, n). (length b, n, take n b)) (logFormatter ev sz buf) =
    (let line = log_header ev @ le_text ev @ [10];
         shown = (if length line < sz then line else take (sz - 2) line @ [10])
     in Some (sz, length shown, shown))"
proof -
  let ?h = "log_header ev" and ?t = "le_text ev"
  obtain k where sz: "sz = Suc (Suc k)" using assms(2) by (metis add_2_eq_Suc le_Suc_ex)
  define b1 where "b1 = take (sz - 1) ?h @ 0 # drop (Suc (min (sz - 1) (length ?h))) buf"
  have 1: "c_snprintf buf 0 sz ?h = Some (b1, length ?h)"
    using assms(1,2) c_snprintf_eq [of 0 sz buf ?h] by (simp add: b1_def)
  have l1: "length b1 = sz" using assms(1,2) by (simp add: b1_def)
  have cut: "min n k + (k - n) = k" "Suc k - k = 1" for n by simp_all
  show ?thesis
  proof (cases "sz \<le> length ?h")
    case True
    then have "take k b1 = take k ?h" by (simp add: b1_def sz)
    then show ?thesis using True assms 1 l1
      by (simp add: sz logFormatter_def line_full_eq Let_def)
  next
    case h: False
    define b2 where "b2 = take (length ?h) b1 @ take (sz - length ?h - 1) ?t
      @ 0 # drop (Suc (length ?h + min (sz - length ?h - 1) (length ?t))) b1"
    have t1: "take (length ?h) b1 = ?h" using h by (simp add: b1_def)
    have 2: "c_snprintf b1 (length ?h) (sz - length ?h) ?t = Some (b2, length ?t)"
      using h l1 c_snprintf_eq [of "length ?h" "sz - length ?h" b1 ?t] by (simp add: b2_def)
    have l2: "length b2 = sz" using l1 h by (simp add: b2_def)
    show ?thesis
    proof (cases "sz \<le> length ?h + length ?t")
      case True
      then have "take k b2 = take k (?h @ ?t)" using h by (simp add: b2_def t1 sz)
      then show ?thesis using True h assms 1 2 l2
        by (simp add: sz cut logFormatter_def line_full_eq Let_def)
    next
      case t: False
      define m where "m = length ?h + length ?t"
      define b3 where "b3 = take m b2 @ take (sz - m - 1) [10] @ 0 # drop (Suc (m + min (sz - m - 1) 1)) b2"
      have t2: "take m b2 = ?h @ ?t" using h t by (simp add: b2_def t1 m_def)
      have 3: "c_snprintf b2 m (sz - m) [10] = Some (b3, 1)"
        using t l2 c_snprintf_eq [of m "sz - m" b2 "[10]"] by (simp add: b3_def m_def)
      have l3: "length b3 = sz" using l2 t by (simp add: b3_def m_def)
      show ?thesis
      proof (cases "sz \<le> m + 1")
        case True
        then have "k < length (?h @ ?t)" using t by (simp add: m_def sz)
        moreover have "take m b3 = ?h @ ?t" by (simp add: b3_def t2) (simp add: m_def)
        ultimately have "take k b3 = take k (?h @ ?t)" by (metis m_def length_append min.absorb1 nat_less_le take_take)
        then show ?thesis using True h t assms 1 2 3 l3
          by (simp add: sz cut logFormatter_def line_full_eq Let_def m_def)
      next
        case False
        then obtain r where "b3 = (?h @ ?t @ [10]) @ r" by (simp add: b3_def t2)
        then have "take (m + 1) b3 = ?h @ ?t @ [10]" by (simp add: m_def)
        then show ?thesis using False h t assms 1 2 3 l3
          by (simp add: sz logFormatter_def Let_def m_def)
      qed
    qed
  qed
qed

text \<open>A buffer of eight bytes keeps the first six of the header.\<close>

theorem log_line_bounds_witness:
  "map_option (\<lambda>(b, n). (length b, n, take n b))
     (logFormatter \<lparr>le_level = 1, le_file = [], le_line = 7, le_func = [], le_text = [],
        le_clock = \<lparr>lc_hms = [], lc_now = setNow 0\<rparr>\<rparr> 8 (replicate 8 0))
   = Some (8, 7, chars ''[INFO]'' @ [10])"
  by (subst log_line_bounds) (simp_all add: log_header_def level_string_def chars_def Let_def)

subsection \<open>\<open>Logger\<close>\<close>

text \<open>A \<open>LogFormatter\<close> gets the event, the size of the buffer and the buffer.\<close>

type_synonym log_formatter = "log_event \<Rightarrow> nat \<Rightarrow> bytes \<Rightarrow> (bytes \<times> nat) option"

text \<open>The three vectors run in parallel.\<close>

record logger =
  lg_formatter :: "log_formatter option"
  lg_level :: int
  lg_max_log_size :: nat
  lg_sinks :: "nat list"
  lg_formatters :: "log_formatter option list"
  lg_levels :: "int list"

definition Logger :: "log_formatter option \<Rightarrow> int \<Rightarrow> nat \<Rightarrow> logger" where
  "Logger fmt l mx =
     \<lparr>lg_formatter = fmt, lg_level = l, lg_max_log_size = mx, lg_sinks = [], lg_formatters = [], lg_levels = []\<rparr>"

text \<open>The sinks the destructor deletes.\<close>

definition Logger_destroy :: "logger \<Rightarrow> nat list" where
  "Logger_destroy lg = lg_sinks lg"

definition logger_addSink :: "nat \<Rightarrow> log_formatter option \<Rightarrow> int \<Rightarrow> logger \<Rightarrow> bool \<times> logger" where
  "logger_addSink s fmt l lg =
     (True, lg\<lparr>lg_sinks := lg_sinks lg @ [s], lg_formatters := lg_formatters lg @ [fmt], lg_levels := lg_levels lg @ [l]\<rparr>)"

definition logger_setLevelFilter :: "int \<Rightarrow> logger \<Rightarrow> logger" where
  "logger_setLevelFilter l lg = lg\<lparr>lg_level := l\<rparr>"

definition at_index :: "'a list \<Rightarrow> nat \<Rightarrow> 'a option" where
  "at_index xs i = (if i < length xs then Some (xs ! i) else None)"

text \<open>
  The loop both logging functions have: the text is formatted for the first sink that takes the level (\<open>f\<close>, given the sink's
  index), and kept (\<open>buffer_ready\<close>) for the others. The result is the calls to the sinks.
\<close>

fun log_sinks :: "(nat \<Rightarrow> (bytes \<times> nat) option) \<Rightarrow> logger \<Rightarrow> int \<Rightarrow> (bytes \<times> nat) option \<Rightarrow> nat list \<Rightarrow> (nat \<times> bytes) list option"
where
  "log_sinks f lg l ready_text [] = Some []"
| "log_sinks f lg l ready_text (i # js) = do {
     lv \<leftarrow> at_index (lg_levels lg) i;
     if l < lv then log_sinks f lg l ready_text js
     else do {
       (b, n) \<leftarrow> (case ready_text of Some r \<Rightarrow> Some r | None \<Rightarrow> f i);
       s \<leftarrow> at_index (lg_sinks lg) i;
       calls \<leftarrow> log_sinks f lg l (Some (b, n)) js;
       Some ((s, take n b) # calls) } }"

text \<open>The choice of the formatter, in an uninitialised buffer \<open>raw\<close>.\<close>

definition format_for :: "bytes \<Rightarrow> log_event \<Rightarrow> logger \<Rightarrow> nat \<Rightarrow> (bytes \<times> nat) option" where
  "format_for raw ev lg i = do {
     own \<leftarrow> at_index (lg_formatters lg) i;
     (b, n) \<leftarrow> (case (case own of Some g \<Rightarrow> Some g | None \<Rightarrow> lg_formatter lg) of
                None \<Rightarrow> c_snprintf raw 0 (lg_max_log_size lg) (le_text ev)
              | Some g \<Rightarrow> g ev (lg_max_log_size lg) raw);
     Some (b, min n (lg_max_log_size lg)) }"

definition logger_log :: "bytes \<Rightarrow> log_event \<Rightarrow> logger \<Rightarrow> (nat \<times> bytes) list option" where
  "logger_log raw ev lg =
     (if le_level ev < lg_level lg then Some []
      else log_sinks (format_for raw ev lg) lg (le_level ev) None [0..<length (lg_sinks lg)])"

text \<open>In \<open>plainLog\<close> the room left for the line feed is computed in \<open>size_t\<close>.\<close>

definition plain_format :: "bool \<Rightarrow> bytes \<Rightarrow> bytes \<Rightarrow> nat \<Rightarrow> (bytes \<times> nat) option" where
  "plain_format strict raw t mx = do {
     (b, n) \<leftarrow> c_snprintf raw 0 mx t;
     (b', n') \<leftarrow> sized_snprintf strict b n (sz_sub mx n) [10];
     Some (b', min (nat (int n + n')) mx) }"

definition plainLog :: "bool \<Rightarrow> bytes \<Rightarrow> int \<Rightarrow> bytes \<Rightarrow> logger \<Rightarrow> (nat \<times> bytes) list option" where
  "plainLog strict raw l t lg =
     (if l < lg_level lg then Some []
      else log_sinks (\<lambda>_. plain_format strict raw t (lg_max_log_size lg)) lg l None [0..<length (lg_sinks lg)])"

definition logger_ok :: "logger \<Rightarrow> bool" where
  "logger_ok lg \<longleftrightarrow> length (lg_formatters lg) = length (lg_sinks lg) \<and> length (lg_levels lg) = length (lg_sinks lg)
     \<and> 0 < lg_max_log_size lg"

text \<open>The sinks that take a message of a level.\<close>

definition accepting :: "int \<Rightarrow> logger \<Rightarrow> nat list" where
  "accepting l lg = filter (\<lambda>i. lg_levels lg ! i \<le> l) [0..<length (lg_sinks lg)]"

lemma log_sinks_ready:
  assumes "length (lg_levels lg) = length (lg_sinks lg)" "\<forall>i\<in>set js. i < length (lg_sinks lg)"
  shows "log_sinks f lg l (Some (b, n)) js =
    Some (map (\<lambda>i. (lg_sinks lg ! i, take n b)) (filter (\<lambda>i. lg_levels lg ! i \<le> l) js))"
  using assms(2) by (induction js) (auto simp: at_index_def assms(1))

lemma log_sinks_first:
  assumes "length (lg_levels lg) = length (lg_sinks lg)" "\<forall>i\<in>set js. i < length (lg_sinks lg)"
  shows "log_sinks f lg l None js =
    (case filter (\<lambda>i. lg_levels lg ! i \<le> l) js of [] \<Rightarrow> Some []
     | i # js \<Rightarrow> map_option (\<lambda>(b, n). map (\<lambda>j. (lg_sinks lg ! j, take n b)) (i # js)) (f i))"
  using assms(2)
proof (induction js)
  case (Cons j js)
  then show ?case
    by (cases "f j") (auto simp: at_index_def assms(1) log_sinks_ready)
qed simp

text \<open>
  A log call writes one text. Every sink that takes the level gets it, once and in the order the sinks were added, the others get
  nothing; the text is the one of the first such sink's formatter, also for sinks that were given a formatter of
  their own.
\<close>
theorem one_text_for_all_sinks:
  assumes "logger_ok lg"
  shows "logger_log raw ev lg =
    (if le_level ev < lg_level lg then Some []
     else case accepting (le_level ev) lg of [] \<Rightarrow> Some []
       | i # js \<Rightarrow> map_option (\<lambda>(b, n). map (\<lambda>j. (lg_sinks lg ! j, take n b)) (i # js)) (format_for raw ev lg i))"
  using assms by (simp add: logger_log_def accepting_def logger_ok_def log_sinks_first)

text \<open>Two sinks, the second with a formatter of its own, which is not used.\<close>

theorem one_text_for_all_sinks_witness:
  "\<exists>lg raw ev. lg_formatters lg ! 1 \<noteq> None \<and> logger_log raw ev lg = Some [(5, [65]), (6, [65])]"
proof -
  let ?g = "\<lambda>ev n b. Some ([66], 1)"
  let ?lg = "\<lparr>lg_formatter = None, lg_level = 0, lg_max_log_size = 4, lg_sinks = [5, 6], lg_formatters = [None, Some ?g],
    lg_levels = [-1, -1]\<rparr>"
  let ?ev = "\<lparr>le_level = 1, le_file = [], le_line = 7, le_func = [], le_text = [65],
    le_clock = \<lparr>lc_hms = [], lc_now = setNow 0\<rparr>\<rparr>"
  have "logger_ok ?lg" by (simp add: logger_ok_def)
  from one_text_for_all_sinks [OF this, of "replicate 4 0" ?ev]
  have "logger_log (replicate 4 0) ?ev ?lg = Some [(5, [65]), (6, [65])]"
    by (simp add: accepting_def format_for_def at_index_def c_snprintf_def mem_write_def upt_rec numeral_nat)
  then show ?thesis by (intro exI [of _ ?lg] exI) simp
qed

lemma plain_format_eq:
  assumes "length raw = mx" "0 < mx" "mx < sz_max" "length t < sz_max" and small: "strict \<longrightarrow> mx \<le> int_max"
  shows "map_option (\<lambda>(b, n). take n b) (plain_format strict raw t mx) =
    (if mx < length t then if strict \<and> int_max < sz_max - (length t - mx) then Some (take (mx - 1) t @ [0]) else None
     else Some (if length t + 1 < mx then t @ [10] else if length t + 1 = mx then t @ [0] else take (mx - 1) t @ [0]))"
proof -
  obtain k where mx: "mx = Suc k" using assms(2) by (metis gr0_implies_Suc)
  define b where "b = take k t @ 0 # drop (Suc (min k (length t))) raw"
  have 1: "c_snprintf raw 0 mx t = Some (b, length t)" using c_snprintf_eq [of 0 mx raw t] assms(1) by (simp add: b_def mx)
  have l: "length b = mx" using assms(1) by (simp add: b_def mx)
  show ?thesis
  proof (cases "mx < length t")
    case True
    then have w: "sz_sub mx (length t) = sz_max - (length t - mx)" by (simp add: sz_sub_wraps assms(4))
    then have "sz_sub mx (length t) \<noteq> 0" using assms(4) True by linarith
    moreover have "nat (int (length t) - 1) = length t - 1" "min (length t - 1) mx = mx" "take mx b = take k t @ [0]"
      using True assms(1) by (auto simp: b_def mx)
    ultimately show ?thesis using 1 True l
      by (simp add: plain_format_def sized_snprintf_def c_snprintf_def mem_write_def w) (simp add: mx)
  next
    case False
    have s: "sz_sub mx (length t) = mx - length t" using False assms(3) by (simp add: sz_sub_le)
    have c: "sized_snprintf strict b (length t) (mx - length t) [10] = Some
      (if mx - length t = 0 then b else take (length t) b @ take (mx - length t - 1) [10]
         @ 0 # drop (Suc (length t + min (mx - length t - 1) 1)) b, 1)"
      using c_snprintf_eq [of "length t" "mx - length t" b "[10]"] False l small by (auto simp: sized_snprintf_def)
    have t: "take (length t) b = t" if "length t < mx" using that by (simp add: b_def mx)
    have n: "nat (int (length t) + 1) = length t + 1" by simp
    consider "length t + 1 < mx" | "length t + 1 = mx" | "length t = mx" using False by linarith
    then show ?thesis
      using 1 s c t n by cases (simp_all add: plain_format_def, simp_all add: b_def mx)
  qed
qed

text \<open>
  C39: on a C library that takes any size, \<open>plainLog\<close> writes outside of its buffer exactly when some sink takes the message and its
  text is longer than \<open>max_log_size_\<close>: the room for the line feed is a difference of sizes that wraps. On one that refuses
  sizes above \<open>INT_MAX\<close> it never does, and such a text is cut. Otherwise the sinks get the text and a line feed, except that
  at the limit a zero byte takes the place of the line feed or of the last character.
\<close>
theorem plain_log_overrun:
  assumes "logger_ok lg" "length raw = lg_max_log_size lg" "lg_max_log_size lg < sz_max" "length t < sz_max"
    and int: "strict \<longrightarrow> lg_max_log_size lg \<le> int_max \<and> length t \<le> int_max"
  shows "plainLog strict raw l t lg =
    (if l < lg_level lg \<or> accepting l lg = [] then Some []
     else if lg_max_log_size lg < length t \<and> \<not> strict then None
     else Some (map (\<lambda>j. (lg_sinks lg ! j,
       if length t + 1 < lg_max_log_size lg then t @ [10]
       else if length t + 1 = lg_max_log_size lg then t @ [0] else take (lg_max_log_size lg - 1) t @ [0])) (accepting l lg)))"
proof -
  have ok: "length (lg_levels lg) = length (lg_sinks lg)" "0 < lg_max_log_size lg" using assms(1) by (auto simp: logger_ok_def)
  have mx: "strict \<longrightarrow> lg_max_log_size lg \<le> int_max" and t: "strict \<longrightarrow> int_max < sz_max - (length t - lg_max_log_size lg)"
    using int by (auto simp: int_max_def sz_max_def)
  have "plainLog strict raw l t lg = (if l < lg_level lg then Some [] else case accepting l lg of [] \<Rightarrow> Some []
      | i # js \<Rightarrow> map_option (\<lambda>v. map (\<lambda>j. (lg_sinks lg ! j, v)) (i # js))
          (map_option (\<lambda>(b, n). take n b) (plain_format strict raw t (lg_max_log_size lg))))"
    by (simp add: plainLog_def accepting_def log_sinks_first ok option.map_comp comp_def case_prod_unfold split: list.split)
  moreover have same: "(strict \<and> int_max < sz_max - (length t - lg_max_log_size lg)) = strict" using t by blast
  note plain_format_eq [OF assms(2) ok(2) assms(3,4) mx, unfolded same]
  ultimately show ?thesis by (cases "accepting l lg") simp_all
qed

text \<open>A buffer of four bytes and a text of five.\<close>

theorem plain_log_overrun_witness:
  "\<exists>lg raw t. length t = 5 \<and> lg_max_log_size lg = 4 \<and> plainLog False raw 0 t lg = None
    \<and> plainLog True raw 0 t lg = Some [(5, [65, 65, 65, 0])]"
proof -
  let ?lg = "\<lparr>lg_formatter = None, lg_level = 0, lg_max_log_size = 4, lg_sinks = [5], lg_formatters = [None], lg_levels = [-1]\<rparr>"
  let ?t = "[65, 65, 65, 65, 65] :: bytes"
  have "logger_ok ?lg" "length (replicate 4 (0 :: byte)) = lg_max_log_size ?lg" "lg_max_log_size ?lg < sz_max" "length ?t < sz_max"
    "lg_max_log_size ?lg \<le> int_max \<and> length ?t \<le> int_max"
    by (simp_all add: logger_ok_def int_max_def sz_max_def)
  note run = plain_log_overrun [OF this(1-4), of _ 0] this(5)
  have a: "accepting 0 ?lg = [0]" by (simp add: accepting_def)
  have "plainLog False (replicate 4 0) 0 ?t ?lg = None" using run(1) [of False] a by simp
  moreover have "plainLog True (replicate 4 0) 0 ?t ?lg = Some [(5, [65, 65, 65, 0])]" using run(1) [of True] run(2) a by simp
  ultimately show ?thesis by (intro exI [of _ ?lg] exI [of _ "replicate 4 0"] exI [of _ ?t]) simp
qed

end
