(* ===== verification/Logger_Manager.thy ===== *)
theory Logger_Manager
  imports Logger_Model "HOL-Library.Multiset"
begin

text \<open>
  The table of loggers (\<open>logger_mgr.h\<close>, \<open>.cc\<close>).

  The table owns its loggers and they own their sinks, so the model keeps the sinks that were deleted; the invariant \<open>mgr_ok\<close>
  says that a sink is owned once and not deleted.
\<close>

subsection \<open>\<open>LoggerMgr\<close>\<close>

record logger_mgr =
  lm_loggers :: "logger option list"
  lm_max_log_size :: nat
  lm_deleted :: "nat list"

definition sinks_of :: "logger option \<Rightarrow> nat list" where
  "sinks_of x = (case x of None \<Rightarrow> [] | Some lg \<Rightarrow> Logger_destroy lg)"

definition setMaxLoggerCount :: "int \<Rightarrow> logger_mgr \<Rightarrow> logger_mgr" where
  "setMaxLoggerCount cnt m =
     (if cnt < 0 then m
      else let n = nat cnt; ls = lm_loggers m
        in m\<lparr>lm_loggers := take n ls @ replicate (n - length ls) None,
             lm_deleted := lm_deleted m @ concat (map sinks_of (drop n ls))\<rparr>)"

definition setMaxLogSize :: "int \<Rightarrow> logger_mgr \<Rightarrow> logger_mgr" where
  "setMaxLogSize sz m = (if sz \<le> 0 then m else m\<lparr>lm_max_log_size := nat sz\<rparr>)"

definition LoggerMgr :: logger_mgr where
  "LoggerMgr = setMaxLogSize 4096 (setMaxLoggerCount 1 \<lparr>lm_loggers = [], lm_max_log_size = 0, lm_deleted = []\<rparr>)"

text \<open>The slot of an id that is in range.\<close>

definition in_table :: "int \<Rightarrow> logger_mgr \<Rightarrow> bool" where
  "in_table i m \<longleftrightarrow> \<not> (i < 0 \<or> int (length (lm_loggers m)) \<le> i)"

definition set_logger :: "int \<Rightarrow> logger option \<Rightarrow> logger_mgr \<Rightarrow> logger_mgr" where
  "set_logger i x m = m\<lparr>lm_loggers := (lm_loggers m)[nat i := x]\<rparr>"

definition registerLogger :: "int \<Rightarrow> log_formatter option \<Rightarrow> int \<Rightarrow> logger_mgr \<Rightarrow> bool \<times> logger_mgr" where
  "registerLogger i fmt l m =
     (if \<not> in_table i m then (False, m)
      else if lm_loggers m ! nat i \<noteq> None then (False, m)
      else (True, set_logger i (Some (Logger fmt l (lm_max_log_size m))) m))"

definition removeLogger :: "int \<Rightarrow> logger_mgr \<Rightarrow> logger_mgr" where
  "removeLogger i m =
     (if \<not> in_table i m then m
      else case lm_loggers m ! nat i of None \<Rightarrow> m
        | Some lg \<Rightarrow> (set_logger i None m)\<lparr>lm_deleted := lm_deleted m @ Logger_destroy lg\<rparr>)"

definition mgr_addSink :: "int \<Rightarrow> nat \<Rightarrow> log_formatter option \<Rightarrow> int \<Rightarrow> logger_mgr \<Rightarrow> bool \<times> logger_mgr" where
  "mgr_addSink i s fmt l m =
     (if \<not> in_table i m then (False, m)
      else case lm_loggers m ! nat i of None \<Rightarrow> (False, m)
        | Some lg \<Rightarrow> let (ok, lg') = logger_addSink s fmt l lg in (ok, set_logger i (Some lg') m))"

definition mgr_setLevelFilter :: "int \<Rightarrow> int \<Rightarrow> logger_mgr \<Rightarrow> logger_mgr" where
  "mgr_setLevelFilter i l m =
     (if \<not> in_table i m then m
      else case lm_loggers m ! nat i of None \<Rightarrow> m | Some lg \<Rightarrow> set_logger i (Some (logger_setLevelFilter l lg)) m)"

definition mgr_log :: "int \<Rightarrow> bytes \<Rightarrow> log_event \<Rightarrow> logger_mgr \<Rightarrow> (nat \<times> bytes) list option" where
  "mgr_log i raw ev m =
     (if \<not> in_table i m then Some []
      else case lm_loggers m ! nat i of None \<Rightarrow> Some [] | Some lg \<Rightarrow> logger_log raw ev lg)"

definition mgr_plainLog :: "bool \<Rightarrow> int \<Rightarrow> bytes \<Rightarrow> int \<Rightarrow> bytes \<Rightarrow> logger_mgr \<Rightarrow> (nat \<times> bytes) list option" where
  "mgr_plainLog strict i raw l t m =
     (if \<not> in_table i m then Some []
      else case lm_loggers m ! nat i of None \<Rightarrow> Some [] | Some lg \<Rightarrow> plainLog strict raw l t lg)"

definition LoggerMgr_destroy :: "logger_mgr \<Rightarrow> logger_mgr" where
  "LoggerMgr_destroy m = m\<lparr>lm_deleted := lm_deleted m @ concat (map sinks_of (lm_loggers m))\<rparr>"

text \<open>Any use of the table.\<close>

datatype mgr_op =
    SetCount int
  | SetSize int
  | Register int "log_formatter option" int
  | Remove int
  | AddSink int nat "log_formatter option" int
  | SetLevel int int

fun mgr_apply :: "mgr_op \<Rightarrow> logger_mgr \<Rightarrow> logger_mgr" where
  "mgr_apply (SetCount n) m = setMaxLoggerCount n m"
| "mgr_apply (SetSize n) m = setMaxLogSize n m"
| "mgr_apply (Register i fmt l) m = snd (registerLogger i fmt l m)"
| "mgr_apply (Remove i) m = removeLogger i m"
| "mgr_apply (AddSink i s fmt l) m = snd (mgr_addSink i s fmt l m)"
| "mgr_apply (SetLevel i l) m = mgr_setLevelFilter i l m"

fun sinks_given :: "mgr_op \<Rightarrow> nat list" where
  "sinks_given (AddSink i s fmt l) = [s]"
| "sinks_given _ = []"

subsection \<open>Every sink has one owner\<close>

definition owned :: "logger_mgr \<Rightarrow> nat list" where
  "owned m = concat (map sinks_of (lm_loggers m))"

definition loggers_ok :: "logger option list \<Rightarrow> bool" where
  "loggers_ok ls \<longleftrightarrow> (\<forall>x\<in>set ls. case x of None \<Rightarrow> True | Some lg \<Rightarrow> logger_ok lg)"

definition mgr_ok :: "logger_mgr \<Rightarrow> bool" where
  "mgr_ok m \<longleftrightarrow> 0 < lm_max_log_size m \<and> loggers_ok (lm_loggers m)
     \<and> distinct (owned m @ lm_deleted m)"

lemma loggers_ok_upd: "loggers_ok ls \<Longrightarrow> logger_ok lg \<Longrightarrow> loggers_ok (ls[k := Some lg])"
  "loggers_ok ls \<Longrightarrow> loggers_ok (ls[k := None])"
  using set_update_subset_insert [of ls k] by (force simp: loggers_ok_def)+

lemma loggers_ok_nth: "loggers_ok ls \<Longrightarrow> k < length ls \<Longrightarrow> ls ! k = Some lg \<Longrightarrow> logger_ok lg"
  by (auto simp: loggers_ok_def dest!: bspec [OF _ nth_mem])

lemma loggers_ok_resize: "loggers_ok ls \<Longrightarrow> loggers_ok (take n ls @ replicate k None)"
  by (auto simp: loggers_ok_def dest: in_set_takeD)

lemma sinks_of_simps [simp]: "sinks_of None = []" "sinks_of (Some lg) = lg_sinks lg"
  by (simp_all add: sinks_of_def Logger_destroy_def)

lemma in_table_nat: "in_table i m \<Longrightarrow> nat i < length (lm_loggers m)"
  by (simp add: in_table_def) linarith

lemma owned_set_logger:
  assumes "in_table i m"
  shows "mset (owned (set_logger i x m)) + mset (sinks_of (lm_loggers m ! nat i)) = mset (owned m) + mset (sinks_of x)"
proof -
  have i: "nat i < length (lm_loggers m)" by (rule in_table_nat [OF assms])
  have "mset (owned m) = mset (concat (map sinks_of (take (nat i) (lm_loggers m))))
      + mset (sinks_of (lm_loggers m ! nat i)) + mset (concat (map sinks_of (drop (Suc (nat i)) (lm_loggers m))))"
    unfolding owned_def by (subst id_take_nth_drop [OF i]) simp
  then show ?thesis using i by (simp add: owned_def set_logger_def upd_conv_take_nth_drop)
qed

lemma set_logger_simps [simp]:
  "lm_max_log_size (set_logger i x m) = lm_max_log_size m" "lm_deleted (set_logger i x m) = lm_deleted m"
  "lm_loggers (set_logger i x m) = (lm_loggers m)[nat i := x]"
  by (simp_all add: set_logger_def)

text \<open>What an operation does to the sinks: it moves some to the deleted ones, or adds the one given to it.\<close>

lemma mgr_apply_sinks:
  "\<exists>new. mset new \<subseteq># mset (sinks_given op) \<and>
     mset (owned (mgr_apply op m)) + mset (lm_deleted (mgr_apply op m)) = mset (owned m) + mset (lm_deleted m) + mset new"
proof (cases op)
  case (SetCount n)
  define xs ys where "xs = take (nat n) (lm_loggers m)" and "ys = drop (nat n) (lm_loggers m)"
  have "owned m = concat (map sinks_of xs) @ concat (map sinks_of ys)"
    by (simp add: owned_def xs_def ys_def flip: concat_append map_append)
  moreover have "concat (map sinks_of (replicate k None)) = []" for k by (induction k) auto
  then have "owned (setMaxLoggerCount n m) = concat (map sinks_of xs)"
    "lm_deleted (setMaxLoggerCount n m) = lm_deleted m @ concat (map sinks_of ys)" if "\<not> n < 0"
    using that by (simp_all add: setMaxLoggerCount_def owned_def Let_def xs_def ys_def)
  moreover have "setMaxLoggerCount n m = m" if "n < 0" using that by (simp add: setMaxLoggerCount_def)
  ultimately show ?thesis using SetCount by (cases "n < 0") (auto intro: exI [of _ "[]"])
next
  case (SetSize n)
  then show ?thesis by (intro exI [of _ "[]"]) (simp add: setMaxLogSize_def owned_def)
next
  case (Register i fmt l)
  then show ?thesis using owned_set_logger [of i m "Some (Logger fmt l (lm_max_log_size m))"]
    by (intro exI [of _ "[]"]) (auto simp: registerLogger_def Logger_def)
next
  case (Remove i)
  then show ?thesis using owned_set_logger [of i m None]
    by (intro exI [of _ "[]"]) (auto simp: removeLogger_def Logger_destroy_def owned_def split: option.split)
next
  case (AddSink i s fmt l)
  show ?thesis
  proof (cases "in_table i m \<and> lm_loggers m ! nat i \<noteq> None")
    case True
    then obtain lg where lg: "lm_loggers m ! nat i = Some lg" by auto
    show ?thesis using True lg AddSink owned_set_logger [of i m "Some (snd (logger_addSink s fmt l lg))"]
      by (intro exI [of _ "[s]"]) (simp add: mgr_addSink_def logger_addSink_def)
  next
    case False
    then show ?thesis using AddSink by (intro exI [of _ "[]"]) (auto simp: mgr_addSink_def)
  qed
next
  case (SetLevel i l)
  then show ?thesis
    using owned_set_logger [of i m "Some (logger_setLevelFilter l (the (lm_loggers m ! nat i)))"]
    by (intro exI [of _ "[]"]) (auto simp: mgr_setLevelFilter_def logger_setLevelFilter_def split: option.split)
qed

lemma mgr_apply_loggers:
  assumes "0 < lm_max_log_size m" "loggers_ok (lm_loggers m)"
  shows "0 < lm_max_log_size (mgr_apply op m) \<and> loggers_ok (lm_loggers (mgr_apply op m))"
proof -
  have at: "logger_ok lg" if "in_table i m" "lm_loggers m ! nat i = Some lg" for i lg
    using loggers_ok_nth [OF assms(2) in_table_nat] that by blast
  have new: "logger_ok (Logger fmt l (lm_max_log_size m))"
    "logger_ok lg \<Longrightarrow> logger_ok (snd (logger_addSink s fmt l lg))" "logger_ok lg \<Longrightarrow> logger_ok (logger_setLevelFilter l lg)"
    for fmt l s lg
    using assms(1) by (simp_all add: logger_ok_def Logger_def logger_addSink_def logger_setLevelFilter_def)
  show ?thesis
    using assms new at
    by (cases op) (auto simp: setMaxLoggerCount_def setMaxLogSize_def registerLogger_def removeLogger_def mgr_addSink_def
        mgr_setLevelFilter_def Let_def case_prod_unfold loggers_ok_upd loggers_ok_resize split: option.split)
qed

lemma distinct_mset_sub: "mset xs \<subseteq># mset ys \<Longrightarrow> distinct ys \<Longrightarrow> distinct xs"
proof -
  assume s: "mset xs \<subseteq># mset ys" and d: "distinct ys"
  obtain r where "mset ys = mset xs + r" using s by (auto simp: mset_subset_eq_exists_conv)
  moreover obtain zs where "mset zs = r" using ex_mset by blast
  ultimately have "mset ys = mset (xs @ zs)" by simp
  then show ?thesis using d mset_eq_imp_distinct_iff [of ys "xs @ zs"] by simp
qed

lemma mgr_run_sinks:
  "\<exists>new. mset new \<subseteq># mset (concat (map sinks_given ops)) \<and>
     mset (owned (fold mgr_apply ops m)) + mset (lm_deleted (fold mgr_apply ops m)) = mset (owned m) + mset (lm_deleted m) + mset new"
proof (induction ops arbitrary: m)
  case (Cons op ops)
  obtain a where a: "mset a \<subseteq># mset (sinks_given op)"
    "mset (owned (mgr_apply op m)) + mset (lm_deleted (mgr_apply op m)) = mset (owned m) + mset (lm_deleted m) + mset a"
    using mgr_apply_sinks by blast
  obtain b where b: "mset b \<subseteq># mset (concat (map sinks_given ops))"
    "mset (owned (fold mgr_apply ops (mgr_apply op m))) + mset (lm_deleted (fold mgr_apply ops (mgr_apply op m)))
     = mset (owned (mgr_apply op m)) + mset (lm_deleted (mgr_apply op m)) + mset b"
    using Cons.IH by blast
  show ?case using a b by (intro exI [of _ "a @ b"]) (simp add: subset_mset.add_mono)
qed (intro exI [of _ "[]"], simp)

lemma mgr_run_loggers:
  "0 < lm_max_log_size m \<Longrightarrow> loggers_ok (lm_loggers m) \<Longrightarrow>
   0 < lm_max_log_size (fold mgr_apply ops m) \<and> loggers_ok (lm_loggers (fold mgr_apply ops m))"
  by (induction ops arbitrary: m) (simp_all add: mgr_apply_loggers)

lemma logger_log_sinks:
  assumes "logger_ok lg" "logger_log raw ev lg = Some calls"
  shows "fst ` set calls \<subseteq> set (lg_sinks lg)"
proof -
  have "logger_log raw ev lg = (if le_level ev < lg_level lg then Some []
     else case accepting (le_level ev) lg of [] \<Rightarrow> Some []
       | i # js \<Rightarrow> map_option (\<lambda>(b, n). map (\<lambda>j. (lg_sinks lg ! j, take n b)) (i # js)) (format_for raw ev lg i))"
    using assms(1) by (simp add: logger_log_def accepting_def logger_ok_def log_sinks_first)
  moreover have "\<forall>j\<in>set (accepting (le_level ev) lg). j < length (lg_sinks lg)" by (simp add: accepting_def)
  ultimately show ?thesis
    using assms(2) by (cases "accepting (le_level ev) lg") (auto simp: eq_commute [of "Some calls"] split: if_splits)
qed

text \<open>
  C36: however the table of loggers is used, if no sink is given to it twice then the three vectors of every logger stay in step, every
  sink has one owner and is deleted at most once, and a log call reaches no sink that was deleted.
\<close>
theorem logger_table_type:
  assumes "distinct (concat (map sinks_given ops))"
  shows "mgr_ok (fold mgr_apply ops LoggerMgr)
    \<and> (case mgr_log i raw ev (fold mgr_apply ops LoggerMgr) of None \<Rightarrow> True
       | Some calls \<Rightarrow> fst ` set calls \<inter> set (lm_deleted (fold mgr_apply ops LoggerMgr)) = {})"
proof -
  let ?m = "fold mgr_apply ops LoggerMgr"
  have start: "lm_loggers LoggerMgr = [None]" "lm_max_log_size LoggerMgr = 4096" "lm_deleted LoggerMgr = []"
    by (simp_all add: LoggerMgr_def setMaxLogSize_def setMaxLoggerCount_def Let_def)
  obtain new where new: "mset new \<subseteq># mset (concat (map sinks_given ops))" "mset (owned ?m @ lm_deleted ?m) = mset new"
    using mgr_run_sinks [of ops LoggerMgr] by (auto simp: start owned_def)
  moreover have "distinct new" using assms new(1) by (metis distinct_mset_sub)
  ultimately have "distinct (owned ?m @ lm_deleted ?m)" by (metis mset_eq_imp_distinct_iff)
  then have ok: "mgr_ok ?m" using mgr_run_loggers [of LoggerMgr ops] by (simp add: mgr_ok_def start loggers_ok_def)
  have "fst ` set calls \<inter> set (lm_deleted ?m) = {}" if "mgr_log i raw ev ?m = Some calls" for calls
  proof (cases "in_table i ?m \<and> lm_loggers ?m ! nat i \<noteq> None")
    case True
    then obtain lg where lg: "lm_loggers ?m ! nat i = Some lg" "in_table i ?m" by auto
    then have "lg \<in> {lg. Some lg \<in> set (lm_loggers ?m)}" using nth_mem [OF in_table_nat] by fastforce
    then have "set (lg_sinks lg) \<subseteq> set (owned ?m)" by (force simp: owned_def)
    moreover have "fst ` set calls \<subseteq> set (lg_sinks lg)"
      using that lg ok loggers_ok_nth [OF _ in_table_nat]
      by (intro logger_log_sinks) (auto simp: mgr_log_def mgr_ok_def)
    ultimately show ?thesis using ok by (auto simp: mgr_ok_def)
  next
    case False
    then show ?thesis using that by (auto simp: mgr_log_def split: if_splits)
  qed
  then show ?thesis using ok by (simp split: option.split)
qed

text \<open>A sink is added and its logger removed with the table's end.\<close>

theorem logger_table_type_witness:
  "mgr_ok (fold mgr_apply [Register 0 None 0, AddSink 0 7 None 0, SetCount 0] LoggerMgr)"
  by (rule conjunct1 [OF logger_table_type]) simp

end
