(* ===== verification/Log_Setup.thy ===== *)
theory Log_Setup
  imports Logger_Manager Game_Server
begin

text \<open>
  The internal log (\<open>logger_base.h\<close>, \<open>.cc\<close>), the set-up of loggers (\<open>log.h\<close>, \<open>.cc\<close>) and its use by \<open>GameServer\<close>.

  \<open>LogManager\<close> numbers the sinks it makes. Whether the log file can be opened is an argument, as is the C library's
  formatting of the wrapped format string of \<open>logNetMessage\<close>.
\<close>

subsection \<open>\<open>LoggerBase\<close>\<close>

datatype base_log_func = DefaultLogFunc | BaseLogFunc

text \<open>The default writes one line to the standard error stream.\<close>

definition defaultLogFunc :: "int \<Rightarrow> bytes \<Rightarrow> bytes" where
  "defaultLogFunc l t =
     (if l < 0 \<or> 4 \<le> l then []
      else chars ''['' @ [chars ''DEBUG'', chars ''INFO'', chars ''WARNING'', chars ''ERROR''] ! nat l @ chars '']'' @ t @ [10])"

text \<open>The table has three entries for four levels.\<close>

definition log_level_map :: "int list" where
  "log_level_map = [0, 2, 3]"

definition baseLogFunc :: "bytes \<Rightarrow> int \<Rightarrow> bytes \<Rightarrow> log_clock \<Rightarrow> logger_mgr \<Rightarrow> (nat \<times> bytes) list option" where
  "baseLogFunc raw l t clock m =
     (if l < 0 then None
      else case at_index log_level_map (nat l) of None \<Rightarrow> None
        | Some l' \<Rightarrow> mgr_log 0 raw
            \<lparr>le_level = l', le_file = [], le_line = 0, le_func = chars ''base_log'', le_text = t, le_clock = clock\<rparr> m)"

text \<open>\<open>LoggerBase::log\<close> as built with \<open>ZBLUENET_BUILD_ENABLE_BASE_LOG\<close>: what goes to the stream, and the calls to sinks.\<close>

definition base_log :: "base_log_func \<Rightarrow> bytes \<Rightarrow> int \<Rightarrow> bytes \<Rightarrow> log_clock \<Rightarrow> logger_mgr \<Rightarrow> (bytes \<times> (nat \<times> bytes) list) option" where
  "base_log f raw l t clock m =
     (case f of DefaultLogFunc \<Rightarrow> Some (defaultLogFunc l t, [])
      | BaseLogFunc \<Rightarrow> map_option (Pair []) (baseLogFunc raw l t clock m))"

text \<open>
  Once a logger is set up, an internal error message reads past the end of the level table; internal warnings are logged as
  errors and internal notes as warnings.
\<close>
theorem base_log_levels:
  "baseLogFunc raw 3 t clock m = None
   \<and> baseLogFunc raw 2 t clock m = mgr_log 0 raw
       \<lparr>le_level = 3, le_file = [], le_line = 0, le_func = chars ''base_log'', le_text = t, le_clock = clock\<rparr> m
   \<and> baseLogFunc raw 1 t clock m = mgr_log 0 raw
       \<lparr>le_level = 2, le_file = [], le_line = 0, le_func = chars ''base_log'', le_text = t, le_clock = clock\<rparr> m"
  by (simp add: baseLogFunc_def log_level_map_def at_index_def)

subsection \<open>\<open>LogManager\<close>\<close>

record log_system =
  ls_mgr :: logger_mgr
  ls_logger_id :: int
  ls_base :: base_log_func
  ls_next_sink :: nat

definition LogManager :: log_system where
  "LogManager = \<lparr>ls_mgr = LoggerMgr, ls_logger_id = 0, ls_base = DefaultLogFunc, ls_next_sink = 0\<rparr>"

definition ls_setMaxLoggerCount :: "int \<Rightarrow> log_system \<Rightarrow> log_system" where
  "ls_setMaxLoggerCount n s = s\<lparr>ls_mgr := setMaxLoggerCount n (ls_mgr s)\<rparr>"

text \<open>Making a sink and adding it to a logger; if that fails the sink is deleted at once.\<close>

definition add_new_sink :: "int \<Rightarrow> log_system \<Rightarrow> bool \<times> log_system" where
  "add_new_sink i s =
     (let (added, m) = mgr_addSink i (ls_next_sink s) None (-1) (ls_mgr s)
      in (added, s\<lparr>ls_mgr := m, ls_next_sink := Suc (ls_next_sink s)\<rparr>))"

definition initLogger :: "bool \<Rightarrow> bool \<Rightarrow> bool \<Rightarrow> int \<Rightarrow> int \<Rightarrow> log_system \<Rightarrow> bool \<times> log_system" where
  "initLogger path_empty opens log_stderr level_filter logger_id s0 =
     (let s1 = (if logger_id \<noteq> 0 then s0\<lparr>ls_logger_id := logger_id\<rparr> else s0);
          i = ls_logger_id s1;
          (registered, m1) = registerLogger i (Some logFormatter) (-1) (ls_mgr s1)
      in if \<not> registered then (False, s1)
         else let s2 = s1\<lparr>ls_mgr := mgr_setLevelFilter i level_filter m1\<rparr>
           in if \<not> path_empty \<and> \<not> opens then (False, s2)
              else let (ok3, s3) = (if path_empty then (True, s2) else add_new_sink i s2)
                in if \<not> ok3 then (False, s3)
                   else let (ok4, s4) = (if log_stderr then add_new_sink i s3 else (True, s3))
                     in if \<not> ok4 then (False, s4) else (True, s4\<lparr>ls_base := BaseLogFunc\<rparr>))"

definition wrap_format :: "log_clock \<Rightarrow> bytes \<Rightarrow> bytes" where
  "wrap_format clock fmt =
     take 1023 (chars ''[Net]['' @ lc_hms clock @ chars '':'' @ show_padded 3 (nat (getMillisecond (lc_now clock)))
       @ chars ''] '' @ fmt @ [10])"

definition logNetMessage :: "bool \<Rightarrow> (bytes \<Rightarrow> bytes) \<Rightarrow> bytes \<Rightarrow> log_clock \<Rightarrow> int \<Rightarrow> bytes \<Rightarrow> logger_mgr \<Rightarrow> (nat \<times> bytes) list option" where
  "logNetMessage strict formatted raw clock l fmt m = mgr_plainLog strict 1 raw l (formatted (wrap_format clock fmt)) m"

text \<open>What a successful call makes of a free slot.\<close>

definition free_slot :: "int \<Rightarrow> logger_mgr \<Rightarrow> bool" where
  "free_slot i m \<longleftrightarrow> in_table i m \<and> lm_loggers m ! nat i = None"

definition chosen_id :: "int \<Rightarrow> log_system \<Rightarrow> int" where
  "chosen_id logger_id s = (if logger_id \<noteq> 0 then logger_id else ls_logger_id s)"

lemma in_table_set [simp]: "in_table i (set_logger j x m) = in_table i m"
  by (simp add: in_table_def)

lemma slot_set [simp]: "in_table i m \<Longrightarrow> (lm_loggers m)[nat i := x] ! nat i = x"
  by (simp add: in_table_nat)

lemma set_logger_twice [simp]: "set_logger i y (set_logger i x m) = set_logger i y m"
  by (simp add: set_logger_def)

lemma add_new_sink_eq:
  assumes "in_table i (ls_mgr s)" "lm_loggers (ls_mgr s) ! nat i = Some lg"
  shows "add_new_sink i s = (True, s\<lparr>ls_mgr := set_logger i (Some (snd (logger_addSink (ls_next_sink s) None (-1) lg))) (ls_mgr s),
    ls_next_sink := Suc (ls_next_sink s)\<rparr>)"
  using assms by (simp add: add_new_sink_def mgr_addSink_def logger_addSink_def)

text \<open>The sinks of a logger that was set up: the file's, then the standard error stream's.\<close>

definition set_up_logger :: "bool \<Rightarrow> bool \<Rightarrow> int \<Rightarrow> nat \<Rightarrow> nat \<Rightarrow> logger" where
  "set_up_logger path_empty log_stderr lf k mx =
     (let n = (if path_empty then 0 else 1) + (if log_stderr then 1 else 0)
      in \<lparr>lg_formatter = Some logFormatter, lg_level = lf, lg_max_log_size = mx, lg_sinks = [k..<k + n],
          lg_formatters = replicate n None, lg_levels = replicate n (-1)\<rparr>)"

lemma initLogger_eq:
  fixes s :: log_system and logger_id :: int
  defines "s' \<equiv> if logger_id \<noteq> 0 then s\<lparr>ls_logger_id := logger_id\<rparr> else s"
  shows "initLogger path_empty opens log_stderr lf logger_id s =
    (if \<not> free_slot (chosen_id logger_id s) (ls_mgr s) then (False, s')
     else if \<not> path_empty \<and> \<not> opens
       then (False, s'\<lparr>ls_mgr := set_logger (chosen_id logger_id s) (Some (Logger (Some logFormatter) lf (lm_max_log_size (ls_mgr s)))) (ls_mgr s)\<rparr>)
     else (True, s'\<lparr>ls_mgr := set_logger (chosen_id logger_id s)
         (Some (set_up_logger path_empty log_stderr lf (ls_next_sink s) (lm_max_log_size (ls_mgr s)))) (ls_mgr s),
       ls_next_sink := ls_next_sink s + (if path_empty then 0 else 1) + (if log_stderr then 1 else 0), ls_base := BaseLogFunc\<rparr>))"
proof -
  let ?i = "chosen_id logger_id s"
  have i: "ls_logger_id s' = ?i" "ls_mgr s' = ls_mgr s" "ls_next_sink s' = ls_next_sink s"
    by (simp_all add: s'_def chosen_id_def)
  show ?thesis
  proof (cases "free_slot ?i (ls_mgr s)")
    case False
    then have "registerLogger ?i (Some logFormatter) (-1) (ls_mgr s) = (False, ls_mgr s)"
      by (auto simp: free_slot_def registerLogger_def)
    then show ?thesis using False i by (simp add: initLogger_def flip: s'_def)
  next
    case True
    then have t: "in_table ?i (ls_mgr s)" by (simp add: free_slot_def)
    let ?lg = "Logger (Some logFormatter) (-1) (lm_max_log_size (ls_mgr s))"
    have r: "registerLogger ?i (Some logFormatter) (-1) (ls_mgr s) = (True, set_logger ?i (Some ?lg) (ls_mgr s))"
      using True by (auto simp: free_slot_def registerLogger_def)
    have f: "mgr_setLevelFilter ?i lf (set_logger ?i (Some ?lg) (ls_mgr s))
      = set_logger ?i (Some (Logger (Some logFormatter) lf (lm_max_log_size (ls_mgr s)))) (ls_mgr s)"
      using t by (simp add: mgr_setLevelFilter_def logger_setLevelFilter_def Logger_def)
    show ?thesis
      using True t i r f
      by (cases path_empty; cases opens; cases log_stderr)
        (simp_all add: initLogger_def add_new_sink_eq set_up_logger_def Logger_def logger_addSink_def Let_def flip: s'_def)
  qed
qed

text \<open>
  A logger whose file could not be opened stays in the table without a sink: the call fails, every later call for the same id
  fails too whatever it is given, and everything logged under the id is dropped.
\<close>
theorem failed_init_sticks:
  assumes "free_slot (chosen_id logger_id s) (ls_mgr s)"
  shows "let (ok, s1) = initLogger False False log_stderr lf logger_id s
    in \<not> ok \<and> fst (initLogger pe op err lf' (chosen_id logger_id s) s1) = False
      \<and> mgr_log (chosen_id logger_id s) raw ev (ls_mgr s1) = Some []
      \<and> mgr_plainLog strict (chosen_id logger_id s) raw l t (ls_mgr s1) = Some []"
proof -
  let ?i = "chosen_id logger_id s"
  have t: "in_table ?i (ls_mgr s)" using assms by (simp add: free_slot_def)
  define s1 where "s1 = snd (initLogger False False log_stderr lf logger_id s)"
  have 1: "initLogger False False log_stderr lf logger_id s = (False, s1)"
    "ls_mgr s1 = set_logger ?i (Some (Logger (Some logFormatter) lf (lm_max_log_size (ls_mgr s)))) (ls_mgr s)"
    "ls_logger_id s1 = ?i"
    using assms by (simp_all add: s1_def initLogger_eq) (simp_all add: chosen_id_def)
  have c: "chosen_id ?i s1 = ?i" by (simp add: chosen_id_def [of ?i] 1)
  have "\<not> free_slot ?i (ls_mgr s1)" using t by (simp add: free_slot_def 1)
  then have "fst (initLogger pe op err lf' ?i s1) = False" by (simp add: initLogger_eq c)
  then show ?thesis using t
    by (simp add: 1 mgr_log_def mgr_plainLog_def logger_log_def plainLog_def Logger_def)
qed

text \<open>The main logger, when its file cannot be opened.\<close>

theorem failed_init_sticks_witness:
  "fst (initLogger True True True 0 0 (snd (initLogger False False True 0 0 LogManager))) = False"
proof -
  have f: "free_slot (chosen_id 0 LogManager) (ls_mgr LogManager)"
    by (simp add: free_slot_def chosen_id_def LogManager_def LoggerMgr_def setMaxLogSize_def setMaxLoggerCount_def in_table_def)
  have "chosen_id 0 LogManager = 0" by (simp add: chosen_id_def LogManager_def)
  then show ?thesis using failed_init_sticks [OF f, of True 0 True True True 0] by (auto simp: case_prod_unfold)
qed

subsection \<open>The loggers of a server\<close>

definition server_initMainLogger :: "bool \<Rightarrow> bool \<Rightarrow> bool \<Rightarrow> int \<Rightarrow> ('ty, 's) game_server \<times> log_system \<Rightarrow> bool \<times> ('ty, 's) game_server \<times> log_system" where
  "server_initMainLogger path_empty opens err lf = (\<lambda>(g, s).
     let (ok, s') = initLogger path_empty opens err lf 0 s; (r, g') = initMainLogger ok g in (r, g', s'))"

definition server_initNetLogger :: "bool \<Rightarrow> bool \<Rightarrow> bool \<Rightarrow> int \<Rightarrow> ('ty, 's) game_server \<times> log_system \<Rightarrow> bool \<times> ('ty, 's) game_server \<times> log_system" where
  "server_initNetLogger path_empty opens err lf = (\<lambda>(g, s).
     let (ok, s') = initLogger path_empty opens err lf 1 s; (r, g') = initNetLogger ok g in (r, g', s'))"

lemma fresh_table:
  "lm_loggers (setMaxLoggerCount n LoggerMgr) = replicate (if n < 0 then 1 else nat n) None"
proof -
  have "lm_loggers LoggerMgr = [None]" by (simp add: LoggerMgr_def setMaxLogSize_def setMaxLoggerCount_def)
  moreover have "take k [None :: logger option] @ replicate (k - 1) None = replicate k None" for k :: nat by (cases k) auto
  ultimately show ?thesis by (simp add: setMaxLoggerCount_def Let_def)
qed

text \<open>
  A server passes its check of the loggers, with both log files in order, exactly when the table was first enlarged to two loggers
  or more and the main logger is set up before the one of the network: the id of the latter is kept, and taken for the
  main logger's.
\<close>
theorem logger_set_up_order:
  fixes n :: int
  defines "s \<equiv> ls_setMaxLoggerCount n LogManager"
  shows "(game_check (fst (snd (server_initNetLogger False True err' lf' (snd (server_initMainLogger False True err lf (GameServer reactor_num ptr now w, s)))))) \<longleftrightarrow> 2 \<le> n)
    \<and> \<not> game_check (fst (snd (server_initMainLogger False True err lf (snd (server_initNetLogger False True err' lf' (GameServer reactor_num ptr now w, s))))))"
proof -
  let ?m = "setMaxLoggerCount n LoggerMgr"
  have s: "ls_mgr s = ?m" "ls_logger_id s = 0" by (simp_all add: s_def ls_setMaxLoggerCount_def LogManager_def)
  have slot: "free_slot i ?m \<longleftrightarrow> in_table i ?m" for i
    using in_table_nat [of i ?m] by (auto simp: free_slot_def fresh_table)
  have t: "in_table i ?m \<longleftrightarrow> 0 \<le> i \<and> i < (if n < 0 then 1 else n)" for i by (auto simp: in_table_def fresh_table)
  have other: "free_slot 1 (set_logger 0 x m) \<longleftrightarrow> free_slot 1 m" for x m
    by (simp add: free_slot_def)
  have same: "\<not> free_slot 1 (set_logger 1 (Some x) m)" for x m
    using slot_set [of 1 m "Some x"] by (auto simp: free_slot_def)
  have kept: "ls_logger_id (snd (initLogger False True err' lf' 1 s)) = 1" by (simp add: initLogger_eq)
  show ?thesis
  proof
    show "game_check (fst (snd (server_initNetLogger False True err' lf' (snd (server_initMainLogger False True err lf (GameServer reactor_num ptr now w, s)))))) \<longleftrightarrow> 2 \<le> n"
      using slot t other
      by (auto simp: server_initNetLogger_def server_initMainLogger_def game_check_def initMainLogger_def initNetLogger_def GameServer_def
          initLogger_eq chosen_id_def s Let_def)
    show "\<not> game_check (fst (snd (server_initMainLogger False True err lf (snd (server_initNetLogger False True err' lf' (GameServer reactor_num ptr now w, s))))))"
      using slot t same
      by (auto simp: server_initNetLogger_def server_initMainLogger_def game_check_def initMainLogger_def initNetLogger_def GameServer_def
          initLogger_eq chosen_id_def s Let_def)
  qed
qed

end
