(* ===== verification/Log_Sinks.thy ===== *)
theory Log_Sinks
  imports Dynamic_Buffer Message_Queue Thread_Model "HOL-Library.Multiset"
begin

text \<open>
  The sinks of a logger (\<open>logger_file_sink.cc\<close>, \<open>logger_stderr_sink.cc\<close>, \<open>logger_async_sink.cc\<close>, \<open>object_pool.h\<close>).

  The file sink names its file by the time of day: the path of a call and whether \<open>fopen\<close> succeeds are arguments, the contents
  of the files a function of their paths. The asynchronous sink hands its texts to a thread over a bounded queue of
  pooled buffers; its steps are those that run under one of its locks, and loggers of any number of threads, the
  worker and the destructor take them in any order. Its thread is taken to have started (\<open>Thread_Model\<close>: \<open>is_run_\<close> was false).
\<close>

subsection \<open>\<open>LoggerFileSink\<close>\<close>

record file_sink =
  fk_actual_path :: bytes
  fk_fp :: "bytes option"

definition LoggerFileSink :: file_sink where
  "LoggerFileSink = \<lparr>fk_actual_path = [], fk_fp = None\<rparr>"

definition openFile :: "bytes \<Rightarrow> bool \<Rightarrow> file_sink \<Rightarrow> bool \<times> file_sink" where
  "openFile path opens k =
     (if fk_actual_path k = path then (True, k)
      else let k1 = k\<lparr>fk_actual_path := path\<rparr>
        in if \<not> opens then (False, k1) else (True, k1\<lparr>fk_fp := Some path\<rparr>))"

definition file_log :: "bytes \<Rightarrow> bool \<Rightarrow> bytes \<Rightarrow> file_sink \<times> (bytes \<Rightarrow> bytes) \<Rightarrow> (file_sink \<times> (bytes \<Rightarrow> bytes)) option" where
  "file_log path opens t = (\<lambda>(k, files).
     let (ok, k') = openFile path opens k
     in if \<not> ok then Some (k', files)
        else case fk_fp k' of None \<Rightarrow> None | Some p \<Rightarrow> Some (k', files(p := files p @ t)))"

definition stderr_log :: "bytes \<Rightarrow> bytes \<Rightarrow> bytes" where
  "stderr_log t out = out @ t"

fun file_run :: "(bytes \<times> bool \<times> bytes) list \<Rightarrow> file_sink \<times> (bytes \<Rightarrow> bytes) \<Rightarrow> (file_sink \<times> (bytes \<Rightarrow> bytes)) option" where
  "file_run [] s = Some s"
| "file_run ((path, opens, t) # es) s = do { s' \<leftarrow> file_log path opens t s; file_run es s' }"

lemma file_run_total:
  "fk_fp k \<noteq> None \<Longrightarrow> \<exists>k' files'. file_run es (k, files) = Some (k', files') \<and> fk_fp k' \<noteq> None"
  by (induction es arbitrary: k files) (auto simp: file_log_def openFile_def Let_def)

lemma file_run_appends:
  "fk_fp k = Some (fk_actual_path k) \<Longrightarrow> list_all (\<lambda>(path, opens, t). opens) es \<Longrightarrow>
   map_option snd (file_run es (k, files))
   = Some (\<lambda>p. files p @ concat (map (\<lambda>(path, opens, t). if path = p then t else []) es))"
proof (induction es arbitrary: k files)
  case (Cons e es)
  obtain path t where e: "e = (path, True, t)" using Cons.prems(2) by (cases e) auto
  obtain k' where k': "fk_fp k' = Some (fk_actual_path k')"
    "file_log path True t (k, files) = Some (k', files(path := files path @ t))"
  proof (cases "fk_actual_path k = path")
    case True
    then show ?thesis using Cons.prems(1) that [of k] by (simp add: file_log_def openFile_def)
  next
    case False
    then show ?thesis using that [of "k\<lparr>fk_actual_path := path, fk_fp := Some path\<rparr>"] by (simp add: file_log_def openFile_def Let_def)
  qed
  have 1: "file_run (e # es) (k, files) = file_run es (k', files(path := files path @ t))" by (simp add: e k'(2))
  have 2: "(\<lambda>p. (files(path := files path @ t)) p @ concat (map (\<lambda>(path, opens, t). if path = p then t else []) es))
      = (\<lambda>p. files p @ concat (map (\<lambda>(path, opens, t). if path = p then t else []) (e # es)))"
    by (auto simp: e fun_eq_iff)
  have "list_all (\<lambda>(path, opens, t). opens) es" using Cons.prems(2) by simp
  then show ?case by (simp only: 1 Cons.IH [OF k'(1)] 2)
qed simp

text \<open>
  Once its first file is open, a file sink never writes to a null stream; as long as files can be opened, every text is appended
  to the file its path names, in order. When the file of a new path cannot be opened, the text that found out is lost and
  the next ones go to the old file; with no file open yet, the second text is written to a null stream.
\<close>
theorem file_sink_appends:
  "(fk_fp k \<noteq> None \<longrightarrow> file_run es (k, files) \<noteq> None)
   \<and> (fk_fp k = Some (fk_actual_path k) \<and> list_all (\<lambda>(path, opens, t). opens) es \<longrightarrow>
       map_option snd (file_run es (k, files))
       = Some (\<lambda>p. files p @ concat (map (\<lambda>(path, opens, t). if path = p then t else []) es)))
   \<and> (fk_actual_path k \<noteq> path \<longrightarrow>
       map_option snd (file_run [(path, False, t1), (path, o2, t2)] (k, files))
       = map_option (\<lambda>p. files(p := files p @ t2)) (fk_fp k))"
  using file_run_total [of k es files] file_run_appends [of k es files]
  by (auto simp: file_log_def openFile_def Let_def split: option.split)

theorem file_sink_appends_witness:
  "map_option (\<lambda>(k, files). (files [49], files [50])) (file_run [([49], True, [65]), ([50], True, [66]), ([50], True, [67])]
     (\<lparr>fk_actual_path = [49], fk_fp = Some [49]\<rparr>, \<lambda>_. [])) = Some ([65], [66, 67])"
proof -
  define r where "r = file_run [([49], True, [65]), ([50], True, [66]), ([50], True, [67])]
    (\<lparr>fk_actual_path = [49], fk_fp = Some [49]\<rparr>, \<lambda>_. [])"
  have 1: "map_option snd r = Some (\<lambda>p. [] @ concat (map (\<lambda>(path, opens, t). if path = p then t else [])
      [([49], True, [65]), ([50], True, [66]), ([50], True, [67])]))"
    using conjunct1 [OF conjunct2 [OF file_sink_appends [of "\<lparr>fk_actual_path = [49], fk_fp = Some [49]\<rparr>"
      "[([49], True, [65]), ([50], True, [66]), ([50], True, [67])]" "\<lambda>_. []"]]]
    by (simp add: r_def del: file_run.simps)
  have 2: "map_option (\<lambda>(k, files). (files [49], files [50])) r = map_option (\<lambda>files. (files [49], files [50])) (map_option snd r)"
    for r :: "(file_sink \<times> (bytes \<Rightarrow> bytes)) option"
    by (cases r) auto
  show ?thesis unfolding r_def [symmetric] 2 1 by simp
qed

subsection \<open>\<open>ObjectPool\<close>\<close>

text \<open>\<open>fresh\<close>: what \<open>new T\<close> gives, none if it throws.\<close>

definition getObject :: "'a option \<Rightarrow> 'a list \<Rightarrow> ('a \<times> 'a list) option" where
  "getObject fresh pool = (if pool \<noteq> [] then Some (last pool, butlast pool) else map_option (\<lambda>x. (x, pool)) fresh)"

definition returnObject :: "'a \<Rightarrow> 'a list \<Rightarrow> 'a list" where
  "returnObject x pool = pool @ [x]"

subsection \<open>\<open>LoggerAsyncSink\<close>\<close>

record async_sink =
  ak_queue :: "dynamic_buffer option concurrent_queue"
  ak_pool :: "dynamic_buffer list"

definition LoggerAsyncSink :: "nat \<Rightarrow> async_sink" where
  "LoggerAsyncSink queue_size = \<lparr>ak_queue = ConcurrentQueue queue_size, ak_pool = []\<rparr>"

text \<open>\<open>log\<close> up to the push, and the push, which waits while the queue is full.\<close>

definition async_fill :: "bytes \<Rightarrow> async_sink \<Rightarrow> (dynamic_buffer \<times> async_sink) option" where
  "async_fill t a = do {
     (b, pool) \<leftarrow> getObject (DynamicBuffer 1024 1024) (ak_pool a);
     b' \<leftarrow> store_and_write t b;
     Some (b', a\<lparr>ak_pool := pool\<rparr>) }"

definition async_push :: "dynamic_buffer option \<Rightarrow> async_sink \<Rightarrow> async_sink option" where
  "async_push x a = map_option (\<lambda>q. a\<lparr>ak_queue := q\<rparr>) (cq_push x (ak_queue a))"

text \<open>The worker: a pop, which waits for an item, then the adapted sink is given the text and the buffer is emptied.\<close>

definition async_pop :: "async_sink \<Rightarrow> (dynamic_buffer option \<times> async_sink) option" where
  "async_pop a = map_option (\<lambda>(x, q). (x, a\<lparr>ak_queue := q\<rparr>)) (cq_pop (ak_queue a))"

definition write_out :: "dynamic_buffer \<Rightarrow> (bytes \<times> dynamic_buffer) option" where
  "write_out b = do {
     t \<leftarrow> mem_read (db_buffer b) (readBegin b) (readableBytes b);
     Some (t, db_read (readableBytes b) b) }"

definition async_return :: "dynamic_buffer \<Rightarrow> async_sink \<Rightarrow> async_sink" where
  "async_return b a = a\<lparr>ak_pool := returnObject b (ak_pool a)\<rparr>"

text \<open>
  The sink with its users: the buffers that loggers have filled but not pushed, the worker, the destructor. Three histories go with
  it, which no operation reads: the texts \<open>log\<close> was called with, in the order in which the buffers were filled; the texts of
  the calls that have pushed, in the order of the pushes; and the texts the adapted sink was given. What a call was given
  is remembered with its buffer, apart from what the buffer holds.
\<close>

datatype log_worker = Fetching | Returning dynamic_buffer | Finished

record async_system =
  ay_sink :: async_sink
  ay_held :: "(bytes \<times> dynamic_buffer) list"
  ay_worker :: log_worker
  ay_closing :: bool
  ay_given :: "bytes list"
  ay_pushed :: "bytes list"
  ay_written :: "bytes list"

definition async_start :: "nat \<Rightarrow> async_system" where
  "async_start queue_size = \<lparr>ay_sink = LoggerAsyncSink queue_size, ay_held = [], ay_worker = Fetching, ay_closing = False,
     ay_given = [], ay_pushed = [], ay_written = []\<rparr>"

definition drop_at :: "nat \<Rightarrow> 'a list \<Rightarrow> 'a list" where
  "drop_at i xs = take i xs @ drop (Suc i) xs"

text \<open>The steps of the worker, \<open>logThreadFunc\<close>.\<close>

inductive worker_step :: "async_system \<Rightarrow> async_system \<Rightarrow> bool" where
  work: "ay_worker s = Fetching \<Longrightarrow> async_pop (ay_sink s) = Some (Some b, a) \<Longrightarrow> write_out b = Some (t, b') \<Longrightarrow>
     worker_step s (s\<lparr>ay_sink := a, ay_worker := Returning b', ay_written := ay_written s @ [t]\<rparr>)"
| give_back: "ay_worker s = Returning b \<Longrightarrow>
     worker_step s (s\<lparr>ay_sink := async_return b (ay_sink s), ay_worker := Fetching\<rparr>)"
| finish: "ay_worker s = Fetching \<Longrightarrow> async_pop (ay_sink s) = Some (None, a) \<Longrightarrow>
     worker_step s (s\<lparr>ay_sink := a, ay_worker := Finished\<rparr>)"

inductive_cases worker_stepE: "worker_step s t"

text \<open>
  All steps, for texts of at most \<open>mx\<close> bytes. The destructor (\<open>stop\<close>) must not run beside a \<open>log\<close>, and \<open>log\<close> not after it.
\<close>

inductive async_step :: "nat \<Rightarrow> async_system \<Rightarrow> async_system \<Rightarrow> bool" for mx where
  fill: "\<not> ay_closing s \<Longrightarrow> length t \<le> mx \<Longrightarrow> async_fill t (ay_sink s) = Some (b, a) \<Longrightarrow>
     async_step mx s (s\<lparr>ay_sink := a, ay_held := ay_held s @ [(t, b)], ay_given := ay_given s @ [t]\<rparr>)"
| push: "i < length (ay_held s) \<Longrightarrow> async_push (Some (snd (ay_held s ! i))) (ay_sink s) = Some a \<Longrightarrow>
     async_step mx s (s\<lparr>ay_sink := a, ay_held := drop_at i (ay_held s), ay_pushed := ay_pushed s @ [fst (ay_held s ! i)]\<rparr>)"
| stop: "\<not> ay_closing s \<Longrightarrow> ay_held s = [] \<Longrightarrow> async_push None (ay_sink s) = Some a \<Longrightarrow>
     async_step mx s (s\<lparr>ay_sink := a, ay_closing := True\<rparr>)"
| worker: "worker_step s u \<Longrightarrow> async_step mx s u"

inductive_cases async_stepE: "async_step mx s t"

inductive async_reachable :: "nat \<Rightarrow> nat \<Rightarrow> async_system \<Rightarrow> bool" for n mx where
  start: "async_reachable n mx (async_start n)"
| step: "async_reachable n mx s \<Longrightarrow> async_step mx s t \<Longrightarrow> async_reachable n mx t"

subsection \<open>Its invariant\<close>

text \<open>A pooled buffer is empty and of bounded size, a buffer on its way holds one text.\<close>

definition pooled :: "nat \<Rightarrow> dynamic_buffer \<Rightarrow> bool" where
  "pooled mx b \<longleftrightarrow> buffer_ok b \<and> db_expand_size b = 1024 \<and> db_read_index b = 0 \<and> db_write_index b = 0
     \<and> length (db_buffer b) \<le> 2 * mx + 1024"

definition in_flight :: "nat \<Rightarrow> dynamic_buffer \<Rightarrow> bool" where
  "in_flight mx b \<longleftrightarrow> buffer_ok b \<and> db_expand_size b = 1024 \<and> length (db_buffer b) \<le> 2 * mx + 1024"

definition queue_shape :: "async_system \<Rightarrow> bool" where
  "queue_shape s \<longleftrightarrow> (\<exists>bs. cq_items (ak_queue (ay_sink s)) = map Some bs @ (if ay_closing s \<and> ay_worker s \<noteq> Finished then [None] else [])
     \<and> ay_pushed s = ay_written s @ map content bs \<and> (ay_worker s = Finished \<longrightarrow> bs = []))"

definition queue_bounds :: "'a concurrent_queue \<Rightarrow> bool" where
  "queue_bounds q \<longleftrightarrow> (cq_bounded q \<longrightarrow> 0 < cq_max_size q \<and> length (cq_items q) \<le> cq_max_size q)"

text \<open>A held buffer holds the text its call was given, and no text is nowhere.\<close>

definition async_inv :: "nat \<Rightarrow> async_system \<Rightarrow> bool" where
  "async_inv mx s \<longleftrightarrow> list_all (pooled mx) (ak_pool (ay_sink s)) \<and> queue_bounds (ak_queue (ay_sink s))
     \<and> list_all (\<lambda>(t, b). in_flight mx b \<and> content b = t) (ay_held s)
     \<and> mset (ay_given s) = mset (ay_pushed s) + mset (map fst (ay_held s))
     \<and> (\<forall>b. Some b \<in> set (cq_items (ak_queue (ay_sink s))) \<longrightarrow> in_flight mx b)
     \<and> (\<forall>b. ay_worker s = Returning b \<longrightarrow> pooled mx b)
     \<and> (ay_closing s \<longrightarrow> ay_held s = []) \<and> (ay_worker s = Finished \<longrightarrow> ay_closing s) \<and> queue_shape s"

lemma fill_ok:
  assumes p: "pooled mx b" and t: "length t \<le> mx" and mx: "3 * mx + 2048 < vec_max"
  shows "\<exists>b'. store_and_write t b = Some b' \<and> in_flight mx b' \<and> content b' = t"
proof -
  have ok: "buffer_ok b" "room (length t) b" using p t mx by (auto simp: pooled_def room_def)
  have e: "content b = []" using p by (simp add: pooled_def content_def)
  obtain b1 where b1: "reserveWritableBytes (length t) b = Some b1" "length (db_buffer b1) \<le> 2 * mx + 1024"
  proof (cases "length t \<le> writableBytes b")
    case True
    then show ?thesis using p by (intro that [of b]) (auto simp: reserveWritableBytes_def pooled_def)
  next
    case False
    then have "length (db_buffer b) < mx" using p t ok by (simp add: buf_simps) (simp add: pooled_def)
    moreover obtain b1 where "reserveWritableBytes (length t) b = Some b1"
      "length (db_buffer b1) \<le> length (db_buffer b) + length t + db_expand_size b"
      by (rule reserve_ok [OF ok])
    ultimately show ?thesis using p t by (intro that [of b1]) (simp_all add: pooled_def)
  qed
  obtain b' where b': "store_and_write t b = Some b'" "buffer_ok b'" "content b' = content b @ t" "db_expand_size b' = db_expand_size b"
    by (rule append_ok [OF ok])
  have "length (db_buffer b') = length (db_buffer b1)"
    using b'(1) b1(1) by (auto simp: store_and_write_def db_write_def mem_write_def split: bind_splits if_splits)
  then show ?thesis using b' b1 p e by (auto simp: in_flight_def pooled_def)
qed

lemma write_out_ok:
  assumes "in_flight mx b"
  shows "\<exists>b'. write_out b = Some (content b, b') \<and> pooled mx b'"
proof -
  have ok: "buffer_ok b" using assms by (simp add: in_flight_def)
  then have "sz_add (db_read_index b) (readableBytes b) = db_write_index b"
    by (subst sz_add_small) (auto simp: buf_simps buffer_ok_def dest: vec_max_le_sz_max)
  then have "db_read (readableBytes b) b = db_clear (b\<lparr>db_read_index := db_write_index b\<rparr>)"
    by (simp add: db_read_def)
  then show ?thesis using read_content [OF ok] assms
    by (simp add: write_out_def in_flight_def pooled_def db_clear_def buffer_ok_def)
qed

lemma new_buffer_pooled: "mx + 2048 < vec_max \<Longrightarrow> \<exists>b. DynamicBuffer 1024 1024 = Some b \<and> pooled mx b"
  by (simp add: DynamicBuffer_def vec_alloc_Some pooled_def buffer_ok_def)

lemma async_fill_ok:
  assumes "list_all (pooled mx) (ak_pool a)" "length t \<le> mx" "3 * mx + 2048 < vec_max"
  shows "\<exists>b pool. async_fill t a = Some (b, a\<lparr>ak_pool := pool\<rparr>) \<and> in_flight mx b \<and> content b = t \<and> list_all (pooled mx) pool"
proof -
  obtain b pool where g: "getObject (DynamicBuffer 1024 1024) (ak_pool a) = Some (b, pool)" "pooled mx b" "list_all (pooled mx) pool"
    using new_buffer_pooled [of mx] assms
    by (cases "ak_pool a" rule: rev_cases) (auto simp: getObject_def)
  obtain b' where "store_and_write t b = Some b'" "in_flight mx b'" "content b' = t"
    using fill_ok [OF g(2) assms(2,3)] by blast
  then show ?thesis using g by (intro exI [of _ b'] exI [of _ pool]) (simp add: async_fill_def)
qed

lemma list_all_drop_at: "list_all P xs \<Longrightarrow> list_all P (drop_at i xs)"
  by (auto simp: drop_at_def list_all_iff dest: in_set_takeD in_set_dropD)

lemma drop_at_parts:
  assumes "i < length xs"
  shows "mset (drop_at i xs) + {#xs ! i#} = mset xs"
proof -
  have "mset xs = mset (take i xs @ xs ! i # drop (Suc i) xs)" using assms by (simp add: id_take_nth_drop [symmetric])
  then show ?thesis by (simp add: drop_at_def)
qed

lemma pop_eq: "async_pop a = Some (x, a') \<longleftrightarrow>
    (\<exists>r. cq_items (ak_queue a) = x # r \<and> a' = a\<lparr>ak_queue := ak_queue a\<lparr>cq_items := r\<rparr>\<rparr>)"
  by (auto simp: async_pop_def cq_pop_def split: list.splits)

lemma push_eq: "async_push x a = Some a' \<longleftrightarrow>
    \<not> fullNoLock (ak_queue a) \<and> a' = a\<lparr>ak_queue := ak_queue a\<lparr>cq_items := cq_items (ak_queue a) @ [x]\<rparr>\<rparr>"
  by (auto simp: async_push_def cq_push_def)

lemma push_bounds: "queue_bounds q \<Longrightarrow> \<not> fullNoLock q \<Longrightarrow> queue_bounds (q\<lparr>cq_items := cq_items q @ [x]\<rparr>)"
  by (auto simp: queue_bounds_def fullNoLock_def)

lemma pop_bounds: "queue_bounds q \<Longrightarrow> cq_items q = x # r \<Longrightarrow> queue_bounds (q\<lparr>cq_items := r\<rparr>)"
  by (auto simp: queue_bounds_def)

lemma worker_step_inv:
  assumes "worker_step s u" "async_inv mx s"
  shows "async_inv mx u"
  using assms(1)
proof (cases rule: worker_step.cases)
  case (work b a t b')
  obtain r where r: "cq_items (ak_queue (ay_sink s)) = Some b # r" "a = ay_sink s\<lparr>ak_queue := ak_queue (ay_sink s)\<lparr>cq_items := r\<rparr>\<rparr>"
    using work by (auto simp: pop_eq)
  have "in_flight mx b" using assms(2) r by (auto simp: async_inv_def)
  then have b': "t = content b" "pooled mx b'" using write_out_ok work by fastforce+
  obtain bs where bs: "Some b # r = map Some bs @ (if ay_closing s then [None] else [])" "ay_pushed s = ay_written s @ map content bs"
    using assms(2) work r by (auto simp: async_inv_def queue_shape_def)
  then obtain bs' where "bs = b # bs'" "r = map Some bs' @ (if ay_closing s then [None] else [])"
    by (cases bs) (auto split: if_splits)
  then show ?thesis using work assms(2) r b' bs
    by (auto simp: async_inv_def queue_shape_def intro: exI [of _ bs'] pop_bounds)
next
  case (give_back b)
  then show ?thesis using assms(2) by (auto simp: async_inv_def queue_shape_def async_return_def returnObject_def)
next
  case (finish a)
  obtain r where r: "cq_items (ak_queue (ay_sink s)) = None # r" "a = ay_sink s\<lparr>ak_queue := ak_queue (ay_sink s)\<lparr>cq_items := r\<rparr>\<rparr>"
    using finish by (auto simp: pop_eq)
  obtain bs where bs: "None # r = map Some bs @ (if ay_closing s then [None] else [])" "ay_pushed s = ay_written s @ map content bs"
    using assms(2) finish r by (auto simp: async_inv_def queue_shape_def)
  then have "bs = []" "r = []" "ay_closing s" by (cases bs; auto split: if_splits)+
  then show ?thesis using finish assms(2) r bs by (auto simp: async_inv_def queue_shape_def intro: pop_bounds)
qed

lemma async_step_inv:
  assumes "async_step mx s u" "async_inv mx s" "3 * mx + 2048 < vec_max"
  shows "async_inv mx u"
  using assms(1)
proof (cases rule: async_step.cases)
  case (fill t b a)
  obtain pool where "a = ay_sink s\<lparr>ak_pool := pool\<rparr>" "in_flight mx b" "content b = t" "list_all (pooled mx) pool"
    using async_fill_ok [of mx "ay_sink s" t] fill assms(2,3) by (auto simp: async_inv_def)
  then show ?thesis using fill assms(2) by (auto simp: async_inv_def queue_shape_def)
next
  case (push i a)
  obtain t b where tb: "ay_held s ! i = (t, b)" by fastforce
  note a = push(3) [unfolded push_eq tb snd_conv]
  have c: "\<not> ay_closing s" using push assms(2) by (auto simp: async_inv_def)
  then have f: "ay_worker s \<noteq> Finished" using assms(2) by (auto simp: async_inv_def)
  obtain bs where bs: "cq_items (ak_queue (ay_sink s)) = map Some bs" "ay_pushed s = ay_written s @ map content bs"
    using assms(2) c by (auto simp: async_inv_def queue_shape_def)
  have b: "in_flight mx b" "content b = t" using push(2) tb assms(2) by (auto simp: async_inv_def list_all_length)
  have "mset (map fst (drop_at i (ay_held s))) + {#t#} = mset (map fst (ay_held s))"
    using arg_cong [OF drop_at_parts [OF push(2)], of "image_mset fst"] tb by simp
  moreover have "queue_bounds (ak_queue (ay_sink s)\<lparr>cq_items := map Some bs @ [Some b]\<rparr>)"
    using push_bounds [of "ak_queue (ay_sink s)" "Some b"] a bs(1) assms(2) by (simp add: async_inv_def)
  ultimately show ?thesis using push assms(2) a c f bs tb b
    by (auto simp: async_inv_def queue_shape_def list_all_drop_at intro: exI [of _ "bs @ [b]"])
next
  case (stop a)
  note a = stop(4) [unfolded push_eq]
  have "ay_worker s \<noteq> Finished" using stop assms(2) by (auto simp: async_inv_def)
  then show ?thesis using stop assms(2) a by (auto simp: async_inv_def queue_shape_def push_bounds)
next
  case worker
  then show ?thesis using worker_step_inv assms(2) by blast
qed

lemma async_reachable_inv:
  assumes "async_reachable n mx s" "3 * mx + 2048 < vec_max"
  shows "async_inv mx s"
  using assms(1)
proof (induction rule: async_reachable.induct)
  case start
  show ?case by (simp add: async_inv_def queue_shape_def queue_bounds_def async_start_def LoggerAsyncSink_def ConcurrentQueue_def)
next
  case (step s t)
  then show ?case using async_step_inv assms(2) by blast
qed

text \<open>
  C37: the asynchronous sink gives every text to the adapted sink whole, once and in the order of the pushes, in whatever order the loggers,
  the worker and the destructor run. Every text \<open>log\<close> was called with waits for its push or was pushed, and none more often
  than it was given; what is written is at any time a prefix of the texts pushed, the buffers that wait hold exactly the
  others, in order; and once the worker has ended, everything \<open>log\<close> was called with was written.
\<close>
theorem async_log_order:
  assumes "async_reachable n mx s" "3 * mx + 2048 < vec_max"
  shows "mset (ay_given s) = mset (ay_pushed s) + mset (map fst (ay_held s))
    \<and> map (content \<circ> snd) (ay_held s) = map fst (ay_held s)
    \<and> (\<exists>bs. ay_pushed s = ay_written s @ map content bs
      \<and> cq_items (ak_queue (ay_sink s)) = map Some bs @ (if ay_closing s \<and> ay_worker s \<noteq> Finished then [None] else []))
    \<and> (ay_worker s = Finished \<longrightarrow> ay_written s = ay_pushed s \<and> mset (ay_written s) = mset (ay_given s))"
proof -
  have inv: "async_inv mx s" by (rule async_reachable_inv [OF assms])
  then have "map (content \<circ> snd) (ay_held s) = map fst (ay_held s)" by (auto simp: async_inv_def list_all_iff)
  then show ?thesis using inv by (auto simp: async_inv_def queue_shape_def)
qed

lemma one_text_pushed:
  assumes "3 * 4 + 2048 < vec_max"
  shows "\<exists>s. async_reachable 1 4 s \<and> ay_given s = [[65], [66]] \<and> ay_pushed s = [[65]] \<and> length (ay_held s) = 1 \<and> \<not> ay_closing s
    \<and> ay_worker s = Fetching \<and> ay_written s = []"
proof -
  obtain b pool where f: "async_fill [65] (LoggerAsyncSink 1) = Some (b, LoggerAsyncSink 1\<lparr>ak_pool := pool\<rparr>)" "content b = [65]"
    "list_all (pooled 4) pool"
    using async_fill_ok [of 4 "LoggerAsyncSink 1" "[65]"] assms by (auto simp: LoggerAsyncSink_def)
  define a1 where "a1 = LoggerAsyncSink 1\<lparr>ak_pool := pool\<rparr>"
  obtain b2 pool2 where g: "async_fill [66] a1 = Some (b2, a1\<lparr>ak_pool := pool2\<rparr>)"
    using async_fill_ok [of 4 a1 "[66]"] assms f(3) by (auto simp: a1_def)
  define s1 where "s1 = async_start 1\<lparr>ay_sink := a1, ay_held := [([65], b)], ay_given := [[65]]\<rparr>"
  define s2 where "s2 = s1\<lparr>ay_sink := a1\<lparr>ak_pool := pool2\<rparr>, ay_held := [([65], b), ([66], b2)], ay_given := [[65], [66]]\<rparr>"
  have "async_step 4 (async_start 1) s1"
    using async_step.fill [of "async_start 1" "[65]" 4 b] f(1) by (simp add: s1_def a1_def async_start_def)
  then have r1: "async_reachable 1 4 s1" using async_reachable.start async_reachable.step by blast
  have "async_step 4 s1 s2"
    using async_step.fill [of s1 "[66]" 4 b2] g by (simp add: s1_def s2_def async_start_def)
  then have r2: "async_reachable 1 4 s2" by (rule async_reachable.step [OF r1])
  have "\<not> fullNoLock (ak_queue (ay_sink s2))"
    by (simp add: s2_def a1_def fullNoLock_def LoggerAsyncSink_def ConcurrentQueue_def)
  then obtain a where a: "async_push (Some b) (ay_sink s2) = Some a" by (simp add: async_push_def cq_push_def)
  define s3 where "s3 = s2\<lparr>ay_sink := a, ay_held := [([66], b2)], ay_pushed := [[65]]\<rparr>"
  have "async_step 4 s2 s3"
    using async_step.push [of 0 s2 a 4] a by (simp add: s1_def s2_def s3_def drop_at_def async_start_def)
  then have "async_reachable 1 4 s3" by (rule async_reachable.step [OF r2])
  then show ?thesis by (intro exI [of _ s3]) (simp add: s3_def s2_def s1_def async_start_def)
qed

text \<open>Two texts are given to a sink whose queue has one place: the first is in it, the second is held.\<close>

theorem async_log_order_witness:
  "\<exists>s b h. async_reachable 1 4 s \<and> ay_given s = [[65], [66]] \<and> cq_items (ak_queue (ay_sink s)) = [Some b] \<and> content b = [65]
    \<and> ay_held s = [([66], h)] \<and> content h = [66]"
proof -
  have small: "3 * 4 + 2048 < vec_max" by (simp add: vec_max_def)
  obtain s where s: "async_reachable 1 4 s" "ay_given s = [[65], [66]]" "ay_pushed s = [[65]]" "length (ay_held s) = 1" "\<not> ay_closing s"
    "ay_written s = []" using one_text_pushed [OF small] by blast
  obtain t h where h: "ay_held s = [(t, h)]" using s(4) by (cases "ay_held s") auto
  note order = async_log_order [OF s(1) small]
  then obtain bs where bs: "ay_pushed s = ay_written s @ map content bs" "cq_items (ak_queue (ay_sink s)) = map Some bs"
    using s(5) by auto
  then obtain b where b: "bs = [b]" "content b = [65]" using s(3,6) by (cases bs) auto
  have t: "t = [66]" "content h = t" using order s(2,3) h by auto
  show ?thesis
    by (rule exI [of _ s], rule exI [of _ b], rule exI [of _ h]) (use s(1,2) h bs(2) b t in simp)
qed

lemma worker_step_keeps:
  "worker_step s u \<Longrightarrow> ay_held u = ay_held s \<and> ay_closing u = ay_closing s \<and> ay_pushed u = ay_pushed s \<and> ay_given u = ay_given s"
  by (erule worker_stepE) simp_all

lemma worker_can:
  assumes "async_inv mx s" and "cq_items (ak_queue (ay_sink s)) = x # r" and "ay_worker s = Fetching"
  shows "\<exists>u. worker_step s u \<and> cq_items (ak_queue (ay_sink u)) = r \<and> cq_max_size (ak_queue (ay_sink u)) = cq_max_size (ak_queue (ay_sink s))
    \<and> ay_worker u = (case x of None \<Rightarrow> Finished | Some b \<Rightarrow> Returning (snd (the (write_out b))))"
proof -
  define a where "a = ay_sink s\<lparr>ak_queue := ak_queue (ay_sink s)\<lparr>cq_items := r\<rparr>\<rparr>"
  have pop: "async_pop (ay_sink s) = Some (x, a)" using assms(2) by (simp add: pop_eq a_def)
  show ?thesis
  proof (cases x)
    case None
    then have "worker_step s (s\<lparr>ay_sink := a, ay_worker := Finished\<rparr>)" using worker_step.finish [OF assms(3)] pop by simp
    then show ?thesis by (intro exI [of _ "s\<lparr>ay_sink := a, ay_worker := Finished\<rparr>"]) (simp add: a_def None)
  next
    case (Some b)
    then have "in_flight mx b" using assms(1,2) by (auto simp: async_inv_def)
    then obtain b' where "write_out b = Some (content b, b')" using write_out_ok by blast
    then have "worker_step s (s\<lparr>ay_sink := a, ay_worker := Returning b', ay_written := ay_written s @ [content b]\<rparr>)"
      "snd (the (write_out b)) = b'" using worker_step.work [OF assms(3)] pop Some by auto
    then show ?thesis
      by (intro exI [of _ "s\<lparr>ay_sink := a, ay_worker := Returning b', ay_written := ay_written s @ [content b]\<rparr>"])
        (simp add: a_def Some)
  qed
qed

lemma worker_fetches:
  "\<exists>u. worker_step\<^sup>*\<^sup>* s u \<and> ak_queue (ay_sink u) = ak_queue (ay_sink s)
    \<and> ay_worker u = (if \<exists>b. ay_worker s = Returning b then Fetching else ay_worker s)"
proof (cases "ay_worker s")
  case (Returning b)
  have "worker_step\<^sup>*\<^sup>* s (s\<lparr>ay_sink := async_return b (ay_sink s), ay_worker := Fetching\<rparr>)"
    using worker_step.give_back [OF Returning] by blast
  then show ?thesis
    by (intro exI [of _ "s\<lparr>ay_sink := async_return b (ay_sink s), ay_worker := Fetching\<rparr>"])
      (simp add: async_return_def Returning)
qed (auto intro: exI [of _ s])

lemma worker_run_keeps:
  "worker_step\<^sup>*\<^sup>* s u \<Longrightarrow> async_inv mx s \<Longrightarrow>
     async_inv mx u \<and> ay_held u = ay_held s \<and> ay_closing u = ay_closing s \<and> ay_pushed u = ay_pushed s \<and> ay_given u = ay_given s"
  by (induction rule: rtranclp_induct) (auto simp: worker_step_keeps worker_step_inv)

lemma worker_makes_room:
  assumes inv: "async_inv mx s" and "\<not> ay_closing s"
  shows "\<exists>u. worker_step\<^sup>*\<^sup>* s u \<and> \<not> fullNoLock (ak_queue (ay_sink u))"
proof (cases "fullNoLock (ak_queue (ay_sink s))")
  case True
  obtain s1 where s1: "worker_step\<^sup>*\<^sup>* s s1" "ak_queue (ay_sink s1) = ak_queue (ay_sink s)"
    "ay_worker s1 = (if \<exists>b. ay_worker s = Returning b then Fetching else ay_worker s)" using worker_fetches by blast
  have inv1: "async_inv mx s1" "\<not> ay_closing s1" using worker_run_keeps [OF s1(1) inv] assms(2) by auto
  then have "ay_worker s1 = Fetching" using s1(3) by (cases "ay_worker s") (auto simp: async_inv_def)
  moreover obtain x r where xr: "cq_items (ak_queue (ay_sink s1)) = x # r"
    using True inv s1(2) by (cases "cq_items (ak_queue (ay_sink s1))") (auto simp: fullNoLock_def async_inv_def queue_bounds_def)
  ultimately obtain u where u: "worker_step s1 u" "cq_items (ak_queue (ay_sink u)) = r"
    "cq_max_size (ak_queue (ay_sink u)) = cq_max_size (ak_queue (ay_sink s1))" using worker_can [OF inv1(1)] by blast
  have "length (x # r) \<le> cq_max_size (ak_queue (ay_sink s1))"
    using inv1(1) True xr s1(2) by (auto simp: async_inv_def queue_bounds_def fullNoLock_def)
  then have "\<not> fullNoLock (ak_queue (ay_sink u))" using u by (simp add: fullNoLock_def)
  then show ?thesis using s1(1) u(1) by (meson rtranclp.rtrancl_into_rtrancl)
qed blast

lemma worker_ends:
  "async_inv mx s \<Longrightarrow> ay_closing s \<Longrightarrow> length (cq_items (ak_queue (ay_sink s))) = k \<Longrightarrow>
     \<exists>u. worker_step\<^sup>*\<^sup>* s u \<and> ay_worker u = Finished"
proof (induction k arbitrary: s rule: less_induct)
  case (less k)
  obtain s1 where s1: "worker_step\<^sup>*\<^sup>* s s1" "ak_queue (ay_sink s1) = ak_queue (ay_sink s)"
    "ay_worker s1 = (if \<exists>b. ay_worker s = Returning b then Fetching else ay_worker s)" using worker_fetches by blast
  have inv1: "async_inv mx s1" "ay_closing s1" using worker_run_keeps [OF s1(1) less.prems(1)] less.prems(2) by auto
  show ?case
  proof (cases "ay_worker s1 = Finished")
    case False
    then have w: "ay_worker s1 = Fetching" using s1(3) by (cases "ay_worker s") auto
    then have "cq_items (ak_queue (ay_sink s1)) \<noteq> []" using inv1 by (auto simp: async_inv_def queue_shape_def)
    then obtain x r where xr: "cq_items (ak_queue (ay_sink s1)) = x # r" by (cases "cq_items (ak_queue (ay_sink s1))") auto
    obtain u where u: "worker_step s1 u" "cq_items (ak_queue (ay_sink u)) = r" using worker_can [OF inv1(1) xr w] by blast
    have "async_inv mx u" "ay_closing u" using worker_step_inv [OF u(1) inv1(1)] worker_step_keeps [OF u(1)] inv1(2) by auto
    moreover have "length r < k" using xr s1(2) less.prems(3) by auto
    ultimately obtain v where "worker_step\<^sup>*\<^sup>* u v" "ay_worker v = Finished" using less.IH [of "length r" u] u(2) by blast
    then show ?thesis using s1(1) u(1) by (meson rtranclp.rtrancl_into_rtrancl rtranclp_trans)
  qed (use s1(1) in blast)
qed

text \<open>
  C38: nobody waits for ever on the asynchronous sink. As long as the destructor has not run, a \<open>log\<close> gets its buffer and fills it,
  whatever the text, and for a \<open>log\<close> that waits to push - and for the destructor's own push - the worker's steps alone, from
  wherever it is, come to a state in which the push goes through. Once the destructor has pushed, the worker's steps
  alone come to the end of the worker, for which the destructor waits, with every text written.
\<close>
theorem async_log_progress:
  assumes "async_reachable n mx s" "3 * mx + 2048 < vec_max"
  shows "(\<not> ay_closing s \<longrightarrow>
      (\<forall>t. length t \<le> mx \<longrightarrow> (\<exists>b a. async_fill t (ay_sink s) = Some (b, a) \<and> content b = t))
      \<and> (\<exists>u. worker_step\<^sup>*\<^sup>* s u \<and> ay_held u = ay_held s \<and> \<not> ay_closing u \<and> (\<forall>x. async_push x (ay_sink u) \<noteq> None)))
    \<and> (ay_closing s \<longrightarrow> (\<exists>u. worker_step\<^sup>*\<^sup>* s u \<and> ay_worker u = Finished \<and> ay_written u = ay_pushed s \<and> mset (ay_written u) = mset (ay_given s)))"
proof (intro conjI impI allI)
  have inv: "async_inv mx s" by (rule async_reachable_inv [OF assms])
  show "\<exists>b a. async_fill t (ay_sink s) = Some (b, a) \<and> content b = t" if "length t \<le> mx" for t
    using async_fill_ok [of mx "ay_sink s" t] inv that assms(2) by (auto simp: async_inv_def)
  show "\<exists>u. worker_step\<^sup>*\<^sup>* s u \<and> ay_held u = ay_held s \<and> \<not> ay_closing u \<and> (\<forall>x. async_push x (ay_sink u) \<noteq> None)" if c: "\<not> ay_closing s"
  proof -
    obtain u where u: "worker_step\<^sup>*\<^sup>* s u" "\<not> fullNoLock (ak_queue (ay_sink u))" using worker_makes_room [OF inv c] by blast
    then show ?thesis using worker_run_keeps [OF u(1) inv] c by (auto simp: async_push_def cq_push_def)
  qed
  show "\<exists>u. worker_step\<^sup>*\<^sup>* s u \<and> ay_worker u = Finished \<and> ay_written u = ay_pushed s \<and> mset (ay_written u) = mset (ay_given s)" if c: "ay_closing s"
  proof -
    obtain u where u: "worker_step\<^sup>*\<^sup>* s u" "ay_worker u = Finished" using worker_ends [OF inv c refl] by blast
    note keeps = worker_run_keeps [OF u(1) inv]
    then have "ay_written u = ay_pushed u" "mset (ay_given u) = mset (ay_pushed u)"
      using u(2) by (auto simp: async_inv_def queue_shape_def)
    then show ?thesis using u keeps by auto
  qed
qed

text \<open>The sink with the full queue: the second logger waits, and gets through when the worker has run.\<close>

theorem async_log_progress_witness:
  "\<exists>s h u. async_reachable 1 4 s \<and> ay_held s = [([66], h)] \<and> async_push (Some h) (ay_sink s) = None
    \<and> worker_step\<^sup>*\<^sup>* s u \<and> ay_held u = ay_held s \<and> async_push (Some h) (ay_sink u) \<noteq> None"
proof -
  have small: "3 * 4 + 2048 < vec_max" by (simp add: vec_max_def)
  obtain s where s: "async_reachable 1 4 s" "ay_given s = [[65], [66]]" "ay_pushed s = [[65]]" "length (ay_held s) = 1" "\<not> ay_closing s"
    "ay_written s = []" using one_text_pushed [OF small] by blast
  have inv: "async_inv 4 s" by (rule async_reachable_inv [OF s(1) small])
  then obtain h where h: "ay_held s = [([66], h)]" using s(2,3,4) by (cases "ay_held s") (auto simp: async_inv_def)
  have "cq_max_size (ak_queue (ay_sink s)) = 1 \<and> cq_bounded (ak_queue (ay_sink s))"
    using s(1)
    by (induction rule: async_reachable.induct)
      (auto simp: async_start_def LoggerAsyncSink_def ConcurrentQueue_def async_fill_def push_eq pop_eq
        async_return_def elim!: async_stepE worker_stepE split: bind_splits)
  moreover have "length (cq_items (ak_queue (ay_sink s))) = 1"
    using inv s(3,5,6) by (auto simp: async_inv_def queue_shape_def)
  ultimately have "async_push (Some h) (ay_sink s) = None" by (simp add: async_push_def cq_push_def fullNoLock_def)
  then show ?thesis using async_log_progress [OF s(1) small] s(1,5) h by blast
qed

end
