(* ===== verification/Client_Thread.thy ===== *)
theory Client_Thread
  imports Net_Thread_Safety Thread_Model
begin

text \<open>
  The thread of a client (\<open>client/net_client_thread.h\<close>, \<open>.cc\<close>), a \<open>NetThread\<close> that opens one connection itself and opens it
  again after a while when it is lost. Its state extends the one of a network thread; the operations of
  \<open>Net_Thread\<close> work on it unchanged.

  What \<open>activeOpenNonblock\<close> answers (\<open>Tcp_Socket\<close>) and the address of the socket's object are a script, \<open>nc_opens\<close>. The
  class declares a member \<open>new_net_cmd_cb_\<close> of its own, which hides the one that \<open>NetThread::init\<close> sets;
  \<open>nc_has_cmd_cb\<close> says whether it is set, and calling it unset ends the program: \<open>None\<close>.
\<close>

subsection \<open>State\<close>

record 'm client_state = "'m thread_state" +
  nc_connected :: bool
  nc_interval :: int
  nc_socket_id :: int
  nc_timer :: timer_id
  nc_id_value :: "32 word"
  nc_opens :: "(int \<times> int) option list"
  nc_has_cmd_cb :: bool

text \<open>The reactor's only timer of the client is the one to reconnect.\<close>

type_synonym 'm net_client = "(unit, 'm client_state) epoll_reactor"

definition NetClientThread :: "int \<Rightarrow> nat \<Rightarrow> int \<Rightarrow> (int \<times> int) option list \<Rightarrow> 'm client_state option" where
  "NetClientThread pipe_ptr max_send_packet_length interval opens =
     map_option (\<lambda>t. thread_state.extend t
       (client_state.fields False interval (-1) null_timer 0 opens False)) (NetThread pipe_ptr max_send_packet_length)"

subsection \<open>Connecting\<close>

definition nc_disconnect :: "'m net_client \<Rightarrow> 'm net_client" where
  "nc_disconnect r =
     (if nc_connected (ts r)
      then upd_rest (\<lambda>t. t\<lparr>nc_connected := False, nc_socket_id := -1\<rparr>) (nt_closeSocket (nc_socket_id (ts r)) r) else r)"

definition stopConnectTimer :: "'m net_client \<Rightarrow> 'm net_client" where
  "stopConnectTimer r = (if nc_timer (ts r) \<noteq> null_timer then stopTimer (nc_timer (ts r)) r else r)"

definition startConnectTimer :: "'m net_client \<Rightarrow> 'm net_client" where
  "startConnectTimer r =
     (let (i, r1) = startTimer (nc_interval (ts r)) (UserTimer ()) 1 (stopConnectTimer r)
      in upd_rest (\<lambda>t. t\<lparr>nc_timer := i\<rparr>) r1)"

definition nc_connect :: "'m net_client \<Rightarrow> (bool \<times> 'm net_client) option" where
  "nc_connect r =
     (case nc_opens (ts r) of
        Some (fd, p) # opens \<Rightarrow>
          let (i, v) = socket_nextId (word_of_int fd) (nc_id_value (ts r));
              r1 = upd_rest (\<lambda>t. t\<lparr>nc_opens := opens, nc_id_value := v, nc_socket_id := sint i, nc_connected := True\<rparr>) r
          in do { r2 \<leftarrow> nt_attach ((IODevice p)\<lparr>dev_id := sint i, dev_fd := fd\<rparr>) r1; Some (True, r2) }
      | opens \<Rightarrow> Some (False, startConnectTimer (upd_rest (\<lambda>t. t\<lparr>nc_opens := tl opens\<rparr>) r)))"

definition nc_onTimer :: "timer_id \<Rightarrow> 'm net_client \<Rightarrow> 'm net_client option" where
  "nc_onTimer i r =
     (if i = nc_timer (ts r) then map_option snd (nc_connect (upd_rest (\<lambda>t. t\<lparr>nc_timer := null_timer\<rparr>) r)) else Some r)"

definition nc_onClose :: "'m net_client \<Rightarrow> 'm net_client" where
  "nc_onClose r = startConnectTimer (nc_disconnect r)"

definition nc_onPeerClose :: "int \<Rightarrow> 'm net_client \<Rightarrow> 'm net_client" where
  "nc_onPeerClose sid r = nc_onClose r"

definition nc_onError :: "int \<Rightarrow> int \<Rightarrow> 'm net_client \<Rightarrow> 'm net_client" where
  "nc_onError sid e r = nc_onClose r"

text \<open>Called from the thread that owns the client: \<open>NetThread::stop\<close> closes the thread object and sends no command to quit.\<close>

definition nc_stop :: "'m net_client \<times> thread_object \<Rightarrow> 'm net_client \<times> thread_object" where
  "nc_stop = (\<lambda>(r, t). (nc_disconnect (stopConnectTimer r), thread_close t))"

definition nc_push :: "'m net_command option \<Rightarrow> 'm net_client \<Rightarrow> 'm net_client option" where
  "nc_push cmd r = nt_push cmd r"

subsection \<open>Callbacks\<close>

text \<open>
  The loop of \<open>onRecvMessage\<close> is the one of \<open>GameServer::onRecvMessage\<close>, but a complete message goes to the hidden callback, and
  on a bad one the client disconnects.
\<close>

definition nc_onRecvMessage :: "'m protocol \<Rightarrow> int \<Rightarrow> 'm net_client \<Rightarrow> 'm net_client option" where
  "nc_onRecvMessage pr sid r =
     (case rx_connections r sid of None \<Rightarrow> None
      | Some c \<Rightarrow> do {
          (cmds, closed, b) \<leftarrow> onRecvMessage (pr_max pr) (pr_create pr) (pr_decode pr) (nt_id (ts r)) (nc_socket_id (ts r)) (tc_read_buffer c);
          if cmds \<noteq> [] \<and> \<not> nc_has_cmd_cb (ts r) then None
          else let r1 = fold nt_emit cmds (upd_conn sid (\<lambda>c. c\<lparr>tc_read_buffer := b\<rparr>) r)
               in Some (if closed then startConnectTimer (nc_disconnect r1) else r1) })"

definition nc_callbacks :: "'m protocol \<Rightarrow> (unit, 'm client_state epoll_world) reactor_callbacks" where
  "nc_callbacks pr = \<lparr>cb_recv_message = nc_onRecvMessage pr, cb_peer_close = nc_onPeerClose, cb_error = nc_onError,
     cb_closeSocket = er_closeSocket\<rparr>"

subsection \<open>Commands\<close>

text \<open>\<open>onNetCommand\<close>; when a message cannot be sent it returns and leaves the rest of the queue.\<close>

definition nc_command :: "'m protocol \<Rightarrow> 'm net_command \<Rightarrow> 'm net_client \<Rightarrow> (bool \<times> 'm net_client) option" where
  "nc_command pr cmd r =
     (if cmd_type cmd = MESSAGE then do {
        (ok, r1) \<leftarrow> encode_command pr cmd r;
        if \<not> ok then Some (False, nc_onClose r1)
        else do {
          bs \<leftarrow> encoded r1;
          (sent, r2) \<leftarrow> reactor_sendMessage (nc_callbacks pr) (nc_socket_id (ts r1)) bs NoCallback r1;
          if \<not> sent then Some (False, nc_onClose r2) else Some (True, r2) } }
      else Some (True, r))"

primrec nc_commands :: "'m protocol \<Rightarrow> 'm net_command option list \<Rightarrow> 'm net_client \<Rightarrow> 'm net_client option" where
  "nc_commands pr [] r = Some r"
| "nc_commands pr (c # cs) r =
     (let q = nt_queue (ts r); r1 = set_queue (q\<lparr>mq_queue := (mq_queue q)\<lparr>cq_items := cs\<rparr>\<rparr>) r
      in case c of None \<Rightarrow> Some (reactor_quit r1)
         | Some cmd \<Rightarrow> do { (go_on, r2) \<leftarrow> nc_command pr cmd r1; if go_on then nc_commands pr cs r2 else Some r2 })"

definition nc_onNetCommand :: "'m protocol \<Rightarrow> 'm net_client \<Rightarrow> 'm net_client option" where
  "nc_onNetCommand pr r = nc_commands pr (cq_items (mq_queue (nt_queue (ts r)))) r"

definition nc_pipeReadCallback :: "'m protocol \<Rightarrow> 'm net_client \<Rightarrow> 'm net_client option" where
  "nc_pipeReadCallback pr r = do { q \<leftarrow> mq_drain (nt_queue (ts r)); nc_onNetCommand pr (set_queue q r) }"

definition nc_read :: "'m protocol \<Rightarrow> io_device \<Rightarrow> 'm net_client \<Rightarrow> 'm net_client option" where
  "nc_read pr d r =
     (if ew_objects (rx_world r) (dev_ptr d) = Some PipeRef then nc_pipeReadCallback pr r
      else map_option snd (onSocketRead (nc_callbacks pr) (dev_id d) r))"

definition nc_dispatch :: "'m protocol \<Rightarrow> (int \<Rightarrow> int \<times> int) \<Rightarrow> 'm net_client dispatch" where
  "nc_dispatch pr errs =
     \<lparr>ds_epoller = the_epoller, ds_set_epoller = set_epoller, ds_device = nt_device,
      ds_write = (\<lambda>d r. onSocketWrite (nc_callbacks pr) (dev_id d) r),
      ds_read = nc_read pr,
      ds_error = (\<lambda>d r. Some (onSocketError (nc_callbacks pr) (dev_id d) (fst (errs (dev_id d))) (snd (errs (dev_id d))) r))\<rparr>"

text \<open>\<open>startRun\<close>: the thread connects, runs the loop and disconnects.\<close>

definition nc_user :: "unit \<Rightarrow> timer_id \<Rightarrow> 'm net_client \<Rightarrow> 'm net_client" where
  "nc_user u i r = (case nc_onTimer i r of None \<Rightarrow> r | Some r1 \<Rightarrow> r1)"

definition nc_run :: "'m protocol \<Rightarrow> (int \<Rightarrow> int \<times> int) \<Rightarrow> round list \<Rightarrow> 'm net_client \<Rightarrow> (dispatch_error + 'm net_client) option" where
  "nc_run pr errs rds r =
     map_option (\<lambda>(_, r1). bind_sum (er_loop (nc_dispatch pr errs) (reactor_checkTimeout (nc_callbacks pr) nc_user) rds r1)
       (\<lambda>r2. Inr (nc_disconnect r2))) (nc_connect r)"

subsection \<open>What a client keeps true\<close>

text \<open>
  It never asks its loop to quit, on neither of the two flags, as long as no null command is queued, it has no timer running while it is connected, it
  has at most one socket, the one it remembers, its hidden callback is not set, and it has passed on no message.
\<close>

definition client_inv :: "(int \<times> epoll_events) set \<Rightarrow> 'm net_client \<Rightarrow> bool" where
  "client_inv batch r \<longleftrightarrow> thread_inv batch r \<and> \<not> rx_quit r \<and> \<not> rx_service_quit r \<and> None \<notin> set (cq_items (mq_queue (nt_queue (ts r))))
     \<and> (nc_connected (ts r) \<longrightarrow> nc_timer (ts r) = null_timer) \<and> \<not> nc_has_cmd_cb (ts r)
     \<and> MESSAGE \<notin> cmd_type ` set (nt_emitted (ts r))
     \<and> (\<forall>sid s. rx_sockets r sid = Some s \<longrightarrow> nc_connected (ts r) \<and> sid = nc_socket_id (ts r))"

lemma nextId_not_null: "nextId i \<noteq> null_timer"
proof -
  have "sint (null_timer) < 0" by (simp add: null_timer_def)
  then show ?thesis by (auto simp: nextId_def Let_def)
qed

lemma startTimer_world [simp]:
  "rx_sockets (snd (startTimer ms cb n r)) = rx_sockets r" "ts (snd (startTimer ms cb n r)) = ts r"
  "rx_quit (snd (startTimer ms cb n r)) = rx_quit r" "rx_service_quit (snd (startTimer ms cb n r)) = rx_service_quit r" "thread_inv batch (snd (startTimer ms cb n r)) = thread_inv batch r"
  "rx_clock (snd (startTimer ms cb n r)) = rx_clock r" "rx_connections (snd (startTimer ms cb n r)) = rx_connections r"
  by (simp_all add: startTimer_def split_beta)

lemma stopTimer_world [simp]:
  "rx_sockets (stopTimer i r) = rx_sockets r" "ts (stopTimer i r) = ts r"
  "rx_quit (stopTimer i r) = rx_quit r" "rx_service_quit (stopTimer i r) = rx_service_quit r" "thread_inv batch (stopTimer i r) = thread_inv batch r"
  "rx_clock (stopTimer i r) = rx_clock r" "rx_connections (stopTimer i r) = rx_connections r"
  by (simp_all add: stopTimer_def)

lemma stopConnectTimer_world [simp]:
  "rx_sockets (stopConnectTimer r) = rx_sockets r" "ts (stopConnectTimer r) = ts r"
  "rx_quit (stopConnectTimer r) = rx_quit r" "rx_service_quit (stopConnectTimer r) = rx_service_quit r" "thread_inv batch (stopConnectTimer r) = thread_inv batch r"
  "rx_clock (stopConnectTimer r) = rx_clock r" "rx_connections (stopConnectTimer r) = rx_connections r"
  by (simp_all add: stopConnectTimer_def)

lemma startTimer_id: "th_map (rx_timers r) (nextId (th_next_id (rx_timers r))) = None \<Longrightarrow> fst (startTimer ms cb n r) \<noteq> null_timer"
  using nextId_not_null [of "th_next_id (rx_timers r)"] by (simp add: startTimer_def addTimer_def split_beta Let_def)

lemma quit_simps [simp]:
  "rx_quit (set_epoller e r) = rx_quit r" "rx_service_quit (set_epoller e r) = rx_service_quit r" "rx_quit (upd_rest f r) = rx_quit r" "rx_service_quit (upd_rest f r) = rx_service_quit r" "rx_quit (object_at p x r) = rx_quit r" "rx_service_quit (object_at p x r) = rx_service_quit r"
  "rx_quit (upd_conn sid g r) = rx_quit r" "rx_service_quit (upd_conn sid g r) = rx_service_quit r" "rx_quit (setWriteCallback sid on r) = rx_quit r" "rx_service_quit (setWriteCallback sid on r) = rx_service_quit r"
  "rx_quit (reactor_closeSocket sid r) = rx_quit r" "rx_service_quit (reactor_closeSocket sid r) = rx_service_quit r"
  by (simp_all add: set_epoller_def upd_rest_def object_at_def upd_conn_def setWriteCallback_def reactor_closeSocket_def)

lemma quit_close [simp]: "rx_quit (er_closeSocket sid r) = rx_quit r" "rx_service_quit (er_closeSocket sid r) = rx_service_quit r" "rx_quit (nt_emit cmd r) = rx_quit r" "rx_service_quit (nt_emit cmd r) = rx_service_quit r"
  by (auto simp: nt_emit_def er_closeSocket_def detachIOService_def er_removeIODevice_def destroy_device_def
      split: option.split prod.split)

lemma emit_world [simp]:
  "ts (nt_emit cmd r) = (ts r)\<lparr>nt_emitted := nt_emitted (ts r) @ [cmd]\<rparr>" "rx_sockets (nt_emit cmd r) = rx_sockets r"
  by (simp_all add: nt_emit_def)

lemma emits_world [simp]:
  "ts (fold nt_emit cmds r) = (ts r)\<lparr>nt_emitted := nt_emitted (ts r) @ cmds\<rparr>" "rx_sockets (fold nt_emit cmds r) = rx_sockets r"
  "rx_quit (fold nt_emit cmds r) = rx_quit r" "rx_service_quit (fold nt_emit cmds r) = rx_service_quit r"
  by (induction cmds arbitrary: r) simp_all

lemma close_world:
  assumes "thread_inv batch r"
  shows "rx_sockets (er_closeSocket sid r) = (rx_sockets r)(sid := None)" "ts (er_closeSocket sid r) = ts r"
proof -
  show "rx_sockets (er_closeSocket sid r) = (rx_sockets r)(sid := None)"
    using er_closeSocket_eq(1) [OF assms] by (cases "rx_sockets r sid") (auto simp: er_closeSocket_def)
  show "ts (er_closeSocket sid r) = ts r"
    using er_closeSocket_eq(4) [OF assms] by (cases "rx_sockets r sid") (auto simp: er_closeSocket_def)
qed

lemma nt_close_world:
  assumes "thread_inv batch r"
  shows "rx_sockets (nt_closeSocket sid r) = (rx_sockets r)(sid := None)" "rx_quit (nt_closeSocket sid r) = rx_quit r" "rx_service_quit (nt_closeSocket sid r) = rx_service_quit r"
    "ts (nt_closeSocket sid r) = (ts r)\<lparr>nt_emitted := nt_emitted (ts r) @ [own_command CLOSE sid r]\<rparr>"
  using close_world [OF thread_inv_emit [OF assms]] by (simp_all add: nt_closeSocket_def sendNetCommandClose_def)

text \<open>The changes the invariant does not see, and the ones to the client's own members.\<close>

lemma client_inv_frame [simp]:
  "client_inv batch (r\<lparr>rx_kernel := k\<rparr>) = client_inv batch r" "client_inv batch (r\<lparr>rx_timers := h\<rparr>) = client_inv batch r"
  "client_inv batch (r\<lparr>rx_socket_to_timer := a\<rparr>) = client_inv batch r"
  "client_inv batch (r\<lparr>rx_timer_to_socket := b\<rparr>) = client_inv batch r"
  "client_inv batch (r\<lparr>rx_clock := now\<rparr>) = client_inv batch r"
  by (simp_all add: client_inv_def)

lemma client_inv_rest:
  assumes "client_inv batch r" "nt_queue (f (ts r)) = nt_queue (ts r)" "nc_connected (f (ts r)) = nc_connected (ts r)"
    "nc_socket_id (f (ts r)) = nc_socket_id (ts r)" "nc_timer (f (ts r)) = nc_timer (ts r)" "nc_has_cmd_cb (f (ts r)) = nc_has_cmd_cb (ts r)"
    "nt_emitted (f (ts r)) = nt_emitted (ts r)"
  shows "client_inv batch (upd_rest f r)"
  using assms thread_inv_rest [of batch r f] by (simp add: client_inv_def)

lemma client_inv_upd_conn:
  "client_inv batch r \<Longrightarrow> (\<And>c. rx_connections r sid = Some c \<Longrightarrow> conn_ok c \<Longrightarrow> conn_ok (f c)) \<Longrightarrow> client_inv batch (upd_conn sid f r)"
  using thread_inv_upd_conn [of batch r sid f] by (simp add: client_inv_def)

lemma client_inv_setWriteCallback: "client_inv batch r \<Longrightarrow> client_inv batch (setWriteCallback sid on r)"
  using thread_inv_setWriteCallback [of batch r sid on]
  by (auto simp: client_inv_def) (auto simp: setWriteCallback_def split: if_splits)

lemma client_inv_close: "client_inv batch r \<Longrightarrow> client_inv batch (er_closeSocket sid r)"
  using thread_inv_closeSocket [of batch r sid] by (fastforce simp: client_inv_def close_world split: if_splits)

lemma client_inv_emits:
  "client_inv batch r \<Longrightarrow> MESSAGE \<notin> cmd_type ` set cmds \<Longrightarrow> client_inv batch (fold nt_emit cmds r)"
  using thread_inv_emits [of batch r cmds] by (simp add: client_inv_def image_Un)

lemma own_command_type [simp]: "cmd_type (own_command typ sid r) = typ"
  by (simp add: own_command_def NetCommand_def)

lemma client_inv_disconnect:
  assumes "client_inv batch r"
  shows "client_inv batch (nc_disconnect r)" "\<not> nc_connected (ts (nc_disconnect r))"
proof -
  have inv: "thread_inv batch r" using assms by (simp add: client_inv_def)
  note close = nt_close_world [OF inv]
  let ?f = "\<lambda>t. t\<lparr>nc_connected := False, nc_socket_id := -1\<rparr>"
  have "thread_inv batch (upd_rest ?f (nt_closeSocket (nc_socket_id (ts r)) r))"
    using thread_inv_nt_closeSocket [OF inv] by (rule thread_inv_rest) simp_all
  then show "client_inv batch (nc_disconnect r)"
    using assms by (auto simp: client_inv_def nc_disconnect_def close)
  show "\<not> nc_connected (ts (nc_disconnect r))" by (simp add: nc_disconnect_def)
qed

lemma client_inv_startTimer:
  assumes "client_inv batch r" "\<not> nc_connected (ts r)"
  shows "client_inv batch (startConnectTimer r)"
proof -
  let ?p = "startTimer (nc_interval (ts r)) (UserTimer ()) 1 (stopConnectTimer r)"
  have "thread_inv batch (upd_rest (\<lambda>t. t\<lparr>nc_timer := fst ?p\<rparr>) (snd ?p))"
    using assms(1) by (intro thread_inv_rest) (simp_all add: client_inv_def)
  then show ?thesis using assms by (simp add: client_inv_def startConnectTimer_def split_beta Let_def)
qed

lemma client_inv_onClose: "client_inv batch r \<Longrightarrow> client_inv batch (nc_onClose r)"
  by (simp add: nc_onClose_def client_inv_startTimer client_inv_disconnect)

lemma client_inv_recv:
  assumes "client_inv batch r" and "nc_onRecvMessage pr sid r = Some r'"
  shows "client_inv batch r'"
proof -
  obtain c cmds closed b where c: "rx_connections r sid = Some c"
    "onRecvMessage (pr_max pr) (pr_create pr) (pr_decode pr) (nt_id (ts r)) (nc_socket_id (ts r)) (tc_read_buffer c) = Some (cmds, closed, b)"
    and none: "cmds = []" and r': "r' = (let r1 = fold nt_emit cmds (upd_conn sid (\<lambda>c. c\<lparr>tc_read_buffer := b\<rparr>) r)
                   in if closed then startConnectTimer (nc_disconnect r1) else r1)"
    using assms by (auto simp: nc_onRecvMessage_def client_inv_def Let_def split: option.splits bind_splits if_splits)
  have "buffer_ok (tc_read_buffer c)" using assms(1) c(1) by (auto simp: client_inv_def thread_inv_def reactor_inv_def conn_ok_def)
  then have b: "buffer_ok b" using c(2) by (rule onRecvMessage_some_ok)
  have "client_inv batch (fold nt_emit cmds (upd_conn sid (\<lambda>c. c\<lparr>tc_read_buffer := b\<rparr>) r))"
    by (rule client_inv_emits, rule client_inv_upd_conn [OF assms(1)]) (use b none in \<open>simp_all add: conn_ok_def\<close>)
  then show ?thesis by (simp add: r' Let_def client_inv_startTimer client_inv_disconnect)
qed

interpretation nc: reactor_callbacks_ok "nc_callbacks pr" "client_inv batch" for pr batch
  by unfold_locales
    (simp_all add: nc_callbacks_def nc_onPeerClose_def nc_onError_def client_inv_onClose client_inv_close
      client_inv_upd_conn client_inv_setWriteCallback client_inv_recv,
     simp add: client_inv_def thread_inv_def)

subsection \<open>Its event loop\<close>

lemma client_inv_encode: "client_inv batch r \<Longrightarrow> encode_command pr cmd r = Some (ok, r') \<Longrightarrow> client_inv batch r'"
  by (auto simp: encode_command_def client_inv_rest split: bind_splits)

lemma client_inv_command:
  assumes inv: "client_inv batch r" and step: "nc_command pr cmd r = Some (go_on, r')"
  shows "client_inv batch r'"
proof (cases "cmd_type cmd = MESSAGE")
  case True
  then obtain ok r1 where e: "encode_command pr cmd r = Some (ok, r1)"
    using step by (auto simp: nc_command_def split: bind_splits)
  have r1: "client_inv batch r1" by (rule client_inv_encode [OF inv e])
  show ?thesis
  proof (cases ok)
    case ok: True
    then obtain bs sent r2 where r2: "reactor_sendMessage (nc_callbacks pr) (nc_socket_id (ts r1)) bs NoCallback r1 = Some (sent, r2)"
      "(if \<not> sent then Some (False, nc_onClose r2) else Some (True, r2)) = Some (go_on, r')"
      using step True e by (auto simp: nc_command_def split: bind_splits)
    have "client_inv batch r2" by (rule nc.reactor_sendMessage_inv [OF r1 r2(1)])
    then show ?thesis using r2(2) client_inv_onClose by (auto split: if_splits)
  next
    case False
    then show ?thesis using step True e client_inv_onClose [OF r1] by (simp add: nc_command_def)
  qed
next
  case False
  then show ?thesis using step inv by (simp add: nc_command_def)
qed

lemma client_inv_set_queue:
  "client_inv batch r \<Longrightarrow> sp_device (mq_pipe q) = pipe_device r \<Longrightarrow> sp_nonblock (mq_pipe q) = sp_nonblock (mq_pipe (nt_queue (ts r))) \<Longrightarrow>
   None \<notin> set (cq_items (mq_queue q)) \<Longrightarrow> client_inv batch (set_queue q r)"
  using thread_inv_set_queue [of batch r q] by (simp add: client_inv_def set_queue_def)

lemma client_inv_commands:
  "client_inv batch r \<Longrightarrow> None \<notin> set cs \<Longrightarrow> nc_commands pr cs r = Some r' \<Longrightarrow> client_inv batch r'"
proof (induction cs arbitrary: r)
  case (Cons c cs)
  let ?q = "nt_queue (ts r)"
  let ?r1 = "set_queue (?q\<lparr>mq_queue := (mq_queue ?q)\<lparr>cq_items := cs\<rparr>\<rparr>) r"
  obtain cmd where c: "c = Some cmd" using Cons.prems(2) by (cases c) auto
  have r1: "client_inv batch ?r1" using Cons.prems by (intro client_inv_set_queue) simp_all
  obtain go_on r2 where r2: "nc_command pr cmd ?r1 = Some (go_on, r2)"
    "(if go_on then nc_commands pr cs r2 else Some r2) = Some r'"
    using Cons.prems(3) c by (auto simp: Let_def split: bind_splits)
  then show ?case
    using Cons.IH [OF client_inv_command [OF r1 r2(1)]] Cons.prems(2) client_inv_command [OF r1 r2(1)] by (auto split: if_splits)
qed simp

lemma client_inv_read:
  assumes "client_inv batch r" and "nc_read pr d r = Some r'"
  shows "client_inv batch r'"
proof (cases "objects r (dev_ptr d) = Some PipeRef")
  case True
  have nb: "sp_nonblock (mq_pipe (nt_queue (ts r)))" using assms(1) by (simp add: client_inv_def thread_inv_def objects_ok_def)
  let ?q = "(nt_queue (ts r))\<lparr>mq_pipe := (mq_pipe (nt_queue (ts r)))\<lparr>sp_bytes := 0\<rparr>\<rparr>"
  have none: "None \<notin> set (cq_items (mq_queue (nt_queue (ts r))))" using assms(1) by (simp add: client_inv_def)
  then have inv: "client_inv batch (set_queue ?q r)" by (intro client_inv_set_queue [OF assms(1)]) simp_all
  have "nc_onNetCommand pr (set_queue ?q r) = Some r'"
    using assms(2) True by (simp add: nc_read_def nc_pipeReadCallback_def mq_drain_eq [OF nb])
  then show ?thesis
    unfolding nc_onNetCommand_def using none by (intro client_inv_commands [OF inv]) (simp_all add: set_queue_def)
next
  case False
  then show ?thesis using assms by (auto simp: nc_read_def dest: nc.onSocketRead_inv)
qed

lemma nc_dispatch_simps [simp]:
  "ds_epoller (nc_dispatch pr errs) = the_epoller" "ds_set_epoller (nc_dispatch pr errs) = set_epoller"
  "ds_device (nc_dispatch pr errs) = nt_device"
  "ds_write (nc_dispatch pr errs) d r = onSocketWrite (nc_callbacks pr) (dev_id d) r"
  "ds_read (nc_dispatch pr errs) = nc_read pr"
  "ds_error (nc_dispatch pr errs) d r
     = Some (onSocketError (nc_callbacks pr) (dev_id d) (fst (errs (dev_id d))) (snd (errs (dev_id d))) r)"
  by (simp_all add: nc_dispatch_def)

lemma client_inv_live: "client_inv batch r \<Longrightarrow> (p, fl) \<in> batch \<Longrightarrow> checkIODeviceExist p (the_epoller r) \<Longrightarrow>
    \<exists>d. nt_device r p = Some d \<and> answers d fl"
  by (rule nt_device_live) (simp_all add: client_inv_def)

interpretation nc_loop: event_loop "nc_dispatch pr errs" client_inv reportable for pr errs
proof (unfold_locales, unfold nc_dispatch_simps option.inject, goal_cases)
  case (1 batch s p fl d s1)
  then show ?case using nc.onSocketWrite_inv by blast
next
  case (2 batch s p d s1)
  then show ?case using client_inv_read by blast
next
  case (3 batch s p d s1)
  then show ?case using nc.onSocketError_inv by blast
next
  case (4 batch s p fl)
  then show ?case by (rule client_inv_live)
next
  case (5 s evs)
  then show ?case using reportable_batch [of s evs] by (simp add: client_inv_def)
next
  case (6 batch s e)
  then show ?case using thread_inv_drop_batch [of batch s] by (simp add: client_inv_def thread_inv_events_end)
qed simp

lemma client_doEvent_ok:
  assumes "client_inv {} r" and "reportable r evs"
  shows "case doEvent (nc_dispatch pr errs) (Events evs) r of Inl e \<Rightarrow> e = CallbackFailed
         | Inr (ret, r') \<Rightarrow> ret = 0 \<and> client_inv {} r' \<and> ep_removed (the_epoller r') = {}"
  using nc_loop.doEvent_keeps [of r "Events evs" pr errs] assms by (auto simp: nc_loop.answered_def split: sum.splits)

subsection \<open>Runs of a client\<close>

text \<open>The memory a new socket gets is not in use.\<close>

definition opens_fresh :: "'m net_client \<Rightarrow> bool" where
  "opens_fresh r \<longleftrightarrow> (\<forall>fd p opens. nc_opens (ts r) = Some (fd, p) # opens \<longrightarrow> objects r p = None)"

text \<open>
  The steps: a batch of events, a timer of the reactor or of the client, a command pushed by another thread (the service pushes no
  null command), \<open>stop\<close>, the kernel and the clock.
\<close>

inductive nc_step :: "'m protocol \<Rightarrow> (int \<Rightarrow> int \<times> int) \<Rightarrow> 'm net_client \<Rightarrow> 'm net_client \<Rightarrow> bool" for pr errs where
  polled: "reportable r evs \<Longrightarrow> doEvent (nc_dispatch pr errs) (Events evs) r = Inr (ret, r') \<Longrightarrow> nc_step pr errs r r'"
| send_timer: "nc_step pr errs r (onSendMessageError (nc_callbacks pr) i r)"
| reconnect: "i \<noteq> null_timer \<Longrightarrow> opens_fresh r \<Longrightarrow> nc_onTimer i r = Some r' \<Longrightarrow> nc_step pr errs r r'"
| command: "nc_push (Some cmd) r = Some r' \<Longrightarrow> nc_step pr errs r r'"
| stop: "nc_step pr errs r (fst (nc_stop (r, t)))"
| kernel: "nc_step pr errs r (r\<lparr>rx_kernel := k\<rparr>)"
| time: "nc_step pr errs r (r\<lparr>rx_clock := now, rx_timers := h\<rparr>)"

inductive nc_reachable :: "'m protocol \<Rightarrow> (int \<Rightarrow> int \<times> int) \<Rightarrow> 'm net_client \<Rightarrow> bool" for pr errs where
  initial: "NetClientThread ptr send_length interval opens = Some t \<Longrightarrow>
     nt_init i mr ms fds nb ce (EpollReactor n now k limit fd cloexec t) = (True, r0) \<Longrightarrow> opens_fresh r0 \<Longrightarrow>
     nc_connect r0 = Some (b, r) \<Longrightarrow> nc_reachable pr errs r"
| step: "nc_reachable pr errs r \<Longrightarrow> nc_step pr errs r r' \<Longrightarrow> nc_reachable pr errs r'"

lemma quit_attach: "er_attachSocket peer r = Some (ok, r') \<Longrightarrow> rx_quit r' = rx_quit r \<and> rx_service_quit r' = rx_service_quit r"
  by (auto simp: er_attachSocket_def attachIOService_def detachIOService_def er_addIODevice_def er_removeIODevice_def split_beta Let_def
      split: bind_splits if_splits)

lemma client_inv_connect:
  assumes inv: "client_inv batch r" and idle: "\<not> nc_connected (ts r)" "nc_timer (ts r) = null_timer" and fresh_mem: "opens_fresh r"
    and step: "nc_connect r = Some (b, r')"
  shows "client_inv batch r'"
proof (cases "nc_opens (ts r) = [] \<or> hd (nc_opens (ts r)) = None")
  case True
  then have "r' = startConnectTimer (upd_rest (\<lambda>t. t\<lparr>nc_opens := tl (nc_opens (ts r))\<rparr>) r)"
    using step by (cases "nc_opens (ts r)") (auto simp: nc_connect_def)
  then show ?thesis using client_inv_rest [OF inv] idle by (simp add: client_inv_startTimer)
next
  case False
  then obtain fd p opens where o: "nc_opens (ts r) = Some (fd, p) # opens" by (cases "nc_opens (ts r)") auto
  obtain i v where i: "socket_nextId (word_of_int fd) (nc_id_value (ts r)) = (i, v)" by fastforce
  define r1 where "r1 = upd_rest (\<lambda>t. t\<lparr>nc_opens := opens, nc_id_value := v, nc_socket_id := sint i, nc_connected := True\<rparr>) r"
  define peer where "peer = (IODevice p)\<lparr>dev_id := sint i, dev_fd := fd\<rparr>"
  obtain ok r2 where r2: "er_attachSocket peer r1 = Some (ok, r2)" "r' = sendNetCommandNew (sint i) r2"
    using step o i by (auto simp: nc_connect_def nt_attach_def r1_def peer_def Let_def split: bind_splits)
  have t1: "thread_inv batch r1" unfolding r1_def using inv by (intro thread_inv_rest) (simp_all add: client_inv_def)
  have "fresh peer r1" using fresh_mem o by (simp add: fresh_def peer_def r1_def IODevice_def opens_fresh_def)
  then have t2: "thread_inv batch r2" by (rule thread_inv_attachSocket [OF t1 _ r2(1)])
  have none: "rx_sockets r j = None" for j using inv idle by (cases "rx_sockets r j") (auto simp: client_inv_def)
  have "\<not> dev_attached peer" "\<not> dev_write_cb peer" by (simp_all add: peer_def IODevice_def)
  from this r2(1) have eff: "ts r2 = ts r1 \<and> (\<forall>j s. rx_sockets r2 j = Some s \<longrightarrow> j = sint i)"
  proof (cases rule: er_attachSocket_cases)
    case refused
    then show ?thesis using none by (simp add: r1_def)
  next
    case (attached connection)
    then show ?thesis using none by (simp add: r1_def peer_def)
  qed
  have "client_inv batch r2"
    using t2 eff inv idle quit_attach [OF r2(1)] by (simp add: client_inv_def r1_def)
  then show ?thesis using client_inv_emits [of batch r2 "[own_command NEW (sint i) r2]"] by (simp add: r2(2) sendNetCommandNew_def)
qed

lemma NetClientThread_fields:
  assumes "NetClientThread ptr send_length interval opens = Some t"
  shows "nt_queue t = MessageQueue 0 ptr" "\<not> nc_connected t" "nc_timer t = null_timer" "\<not> nc_has_cmd_cb t" "nc_opens t = opens"
    "nt_emitted t = []"
  using assms by (auto simp: NetClientThread_def thread_state.defs client_state.defs NetThread_queue NetThread_def split: bind_splits)

lemma nt_init_effect:
  fixes r :: "('u, 'm, 'z) net_thread_scheme"
  assumes q: "nt_queue t = MessageQueue 0 ptr"
    and init: "nt_init i mr ms fds nb ce (EpollReactor n now k limit fd cloexec t) = (True, r)"
  shows "rx_sockets r = Map.empty" "\<not> rx_quit r \<and> \<not> rx_service_quit r" "\<exists>q'. ts r = t\<lparr>nt_queue := q', nt_id := i\<rparr> \<and> cq_items (mq_queue q') = []"
proof -
  define r1 :: "('u, 'm, 'z) net_thread_scheme" where "r1 = setSendBufferInitSize 1024 (setRecvBufferInitSize 1024 (setSendBufferExpandSize 1024
      (setRecvBufferExpandSize 1024 (setSendBufferMaxSize ms
        (setRecvBufferMaxSize mr (EpollReactor n now k limit fd cloexec t))))))"
  have new: "rx_sockets r1 = Map.empty" "ts r1 = t" "\<not> rx_quit r1" "\<not> rx_service_quit r1"
    by (simp_all add: r1_def setRecvBufferInitSize_def setRecvBufferExpandSize_def setRecvBufferMaxSize_def
      setSendBufferInitSize_def setSendBufferExpandSize_def setSendBufferMaxSize_def EpollReactor_def Reactor_def ts_def)
  obtain q r2 where a: "mq_attach er_addIODevice er_removeIODevice fds nb ce (nt_queue (ts r1)) r1 = (True, q, r2)"
    and r: "r = upd_rest (\<lambda>t. t\<lparr>nt_id := i\<rparr>) (object_at (dev_ptr (sp_device (mq_pipe q))) (Some PipeRef) (set_queue q r2))"
    using init by (auto simp: nt_init_def r1_def Let_def split: prod.splits if_splits)
  from a new(2) q obtain rd where "er_addIODevice ((IODevice ptr)\<lparr>dev_fd := rd, dev_read_cb := True\<rparr>) r1 = (True, r2)"
    "mq_queue q = ConcurrentQueue 0"
    by (auto elim: mq_attach_new)
  note r2 = er_add_some(1) [OF this(1)] and items = this(2)
  show "rx_sockets r = Map.empty" "\<not> rx_quit r \<and> \<not> rx_service_quit r" "\<exists>q'. ts r = t\<lparr>nt_queue := q', nt_id := i\<rparr> \<and> cq_items (mq_queue q') = []"
    using new items by (simp_all add: r r2 set_queue_def ConcurrentQueue_def exI [of _ q])
qed

lemma client_inv_init:
  assumes t: "NetClientThread ptr send_length interval opens = Some t"
    and init: "nt_init i mr ms fds nb ce (EpollReactor n now k limit fd cloexec t) = (True, r)"
  shows "client_inv {} r" "\<not> nc_connected (ts r)" "nc_timer (ts r) = null_timer"
proof -
  note f = NetClientThread_fields [OF t]
  obtain q where q: "ts r = t\<lparr>nt_queue := q, nt_id := i\<rparr>" "cq_items (mq_queue q) = []"
    using nt_init_effect(3) [OF f(1) init] by blast
  show "client_inv {} r" "\<not> nc_connected (ts r)" "nc_timer (ts r) = null_timer"
    using nt_init_inv [OF f(1) init] nt_init_effect(1,2) [OF f(1) init] f q by (simp_all add: client_inv_def)
qed

lemma nc_step_inv:
  assumes "nc_step pr errs r r'" and inv: "client_inv {} r"
  shows "client_inv {} r'"
  using assms(1)
proof (cases rule: nc_step.cases)
  case (polled evs ret)
  then show ?thesis using client_doEvent_ok [OF inv, of evs pr errs] by simp
next
  case (send_timer i)
  then show ?thesis using nc.onSendMessageError_inv [OF inv] by simp
next
  case (reconnect i)
  show ?thesis
  proof (cases "i = nc_timer (ts r)")
    case True
    define r0 where "r0 = upd_rest (\<lambda>t. t\<lparr>nc_timer := null_timer\<rparr>) r"
    have idle: "\<not> nc_connected (ts r)" using inv True reconnect by (auto simp: client_inv_def)
    have "thread_inv {} r0" unfolding r0_def using inv by (intro thread_inv_rest) (simp_all add: client_inv_def)
    then have 0: "client_inv {} r0" using inv by (simp add: client_inv_def r0_def)
    obtain b where "nc_connect r0 = Some (b, r')" using reconnect True by (auto simp: nc_onTimer_def r0_def)
    moreover have "\<not> nc_connected (ts r0)" "nc_timer (ts r0) = null_timer" "opens_fresh r0"
      using idle reconnect by (simp_all add: r0_def opens_fresh_def)
    ultimately show ?thesis using client_inv_connect [OF 0] by blast
  next
    case False
    then show ?thesis using reconnect inv by (simp add: nc_onTimer_def)
  qed
next
  case (command cmd)
  then obtain q where q: "mq_push (Some cmd) (nt_queue (ts r)) = Some q" "r' = set_queue q r"
    by (auto simp: nc_push_def nt_push_def)
  have "None \<notin> set (cq_items (mq_queue q))" using q(1) inv
    by (auto simp: mq_push_def cq_push_def client_inv_def split: bind_splits if_splits)
  then show ?thesis using q inv
    by (auto simp: mq_push_def sp_write_keeps intro!: client_inv_set_queue split: bind_splits)
next
  case (stop t)
  have "client_inv {} (stopConnectTimer r)" using inv by (simp add: client_inv_def)
  then show ?thesis using stop client_inv_disconnect(1) by (simp add: nc_stop_def)
next
  case (kernel k)
  then show ?thesis using inv by simp
next
  case (time now h)
  then show ?thesis using inv by simp
qed

lemma nc_reachable_inv: "nc_reachable pr errs r \<Longrightarrow> client_inv {} r"
proof (induction rule: nc_reachable.induct)
  case (initial ptr send_length interval opens t i mr ms fds nb ce n now k limit fd cloexec r0 b r)
  note i = client_inv_init [OF initial(1,2)]
  show ?case by (rule client_inv_connect [OF i initial(3,4)])
next
  case (step r r')
  then show ?case using nc_step_inv by blast
qed

end
