(* ===== verification/Client_Flow.thy ===== *)
theory Client_Flow
  imports Client_Thread Net_Thread_Flow
begin

text \<open>
  What the client's thread does: its event loop is safe, it never gets a message, it does not stop, and when it is not
  connected, sending puts off the next attempt to connect.
\<close>

subsection \<open>A client for the examples\<close>

definition example_client_state :: "(int \<times> int) option list \<Rightarrow> byte client_state" where
  "example_client_state opens =
     thread_state.extend example_state (client_state.fields False 5000 (-1) null_timer 0 opens False)"

definition client_base :: "kernel \<Rightarrow> (int \<times> int) option list \<Rightarrow> byte net_client" where
  "client_base k opens = setSendBufferInitSize 1024 (setRecvBufferInitSize 1024 (setSendBufferExpandSize 1024
     (setRecvBufferExpandSize 1024 (setSendBufferMaxSize 409600 (setRecvBufferMaxSize 81920
       (EpollReactor 10 (Timestamp 0 0) k 10 3 True (example_client_state opens)))))))"

definition new_client :: "kernel \<Rightarrow> (int \<times> int) option list \<Rightarrow> byte net_client" where
  "new_client k opens =
     upd_rest (\<lambda>t. t\<lparr>nt_id := 0\<rparr>) (object_at 9 (Some PipeRef) (set_queue example_queue
       (set_epoller ((the_epoller (client_base k opens))\<lparr>ek_interest := [5 \<mapsto> (9, {EPOLLIN, EPOLLPRI})]\<rparr>) (client_base k opens))))"

lemma client_base_simps [simp]:
  "the_epoller (client_base k opens) = \<lparr>ep_fd = 3, ep_events_size = 32, ep_removed = {}, ek_interest = Map.empty, ek_max_watches = 10\<rparr>"
  "ts (client_base k opens) = example_client_state opens" "objects (client_base k opens) = Map.empty"
  "rx_sockets (client_base k opens) = Map.empty" "rx_connections (client_base k opens) = Map.empty"
  "rx_kernel (client_base k opens) = k" "rx_read_max (client_base k opens) = 81920" "rx_timers (client_base k opens) = TimerHeap"
  "rx_read_expand (client_base k opens) = 1024" "rx_read_init (client_base k opens) = 1024"
  "rx_write_expand (client_base k opens) = 1024" "rx_write_init (client_base k opens) = 1024"
  "rx_clock (client_base k opens) = Timestamp 0 0"
  by (simp_all add: client_base_def setRecvBufferInitSize_def setRecvBufferExpandSize_def setRecvBufferMaxSize_def
      setSendBufferInitSize_def setSendBufferExpandSize_def setSendBufferMaxSize_def EpollReactor_def Reactor_def ts_def
      the_epoller_def ep_create_def Epoller_def)

lemma example_client_state_simps [simp]:
  "nt_queue (example_client_state opens) = MessageQueue 0 9" "nc_connected (example_client_state opens) = False"
  "nc_interval (example_client_state opens) = 5000" "nc_timer (example_client_state opens) = null_timer"
  "nc_opens (example_client_state opens) = opens" "nc_id_value (example_client_state opens) = 0"
  "nt_encode_buffer (example_client_state opens) = nt_encode_buffer example_state"
  by (simp_all add: example_client_state_def thread_state.defs client_state.defs example_state_def)

lemma example_client_made: "NetClientThread 9 64 5000 opens = Some (example_client_state opens)"
  by (simp add: NetClientThread_def example_thread_init example_client_state_def)

lemma example_client_init:
  "nt_init 0 81920 409600 (Some (5, 6)) (True, True) (True, True) (EpollReactor 10 (Timestamp 0 0) k 10 3 True (example_client_state opens))
     = (True, new_client k opens)"
proof -
  have "er_addIODevice ((IODevice 9)\<lparr>dev_fd := 5, dev_read_cb := True\<rparr>) (client_base k opens)
      = (True, set_epoller ((the_epoller (client_base k opens))\<lparr>ek_interest := [5 \<mapsto> (9, {EPOLLIN, EPOLLPRI})]\<rparr>) (client_base k opens))"
    by (simp add: er_addIODevice_def ep_add_def ctl_add_def IODevice_def wanted_events_def)
  then have "mq_attach er_addIODevice er_removeIODevice (Some (5, 6)) (True, True) (True, True) (MessageQueue 0 9) (client_base k opens)
      = (True, example_queue,
         set_epoller ((the_epoller (client_base k opens))\<lparr>ek_interest := [5 \<mapsto> (9, {EPOLLIN, EPOLLPRI})]\<rparr>) (client_base k opens))"
    unfolding example_queue_def by (rule mq_attach_new_ok)
  then show ?thesis
    unfolding nt_init_def client_base_def [symmetric] Let_def
    by (simp add: new_client_def example_queue_def IODevice_def)
qed

lemma world_frame [simp]:
  "rx_timers (upd_rest f r) = rx_timers r" "rx_clock (upd_rest f r) = rx_clock r" "rx_read_max (upd_rest f r) = rx_read_max r"
  "rx_read_init (upd_rest f r) = rx_read_init r" "rx_write_init (upd_rest f r) = rx_write_init r"
  "rx_timers (object_at p x r) = rx_timers r" "rx_clock (object_at p x r) = rx_clock r" "rx_read_max (object_at p x r) = rx_read_max r"
  "rx_read_init (object_at p x r) = rx_read_init r" "rx_write_init (object_at p x r) = rx_write_init r"
  "rx_timers (set_epoller e r) = rx_timers r" "rx_clock (set_epoller e r) = rx_clock r" "rx_read_max (set_epoller e r) = rx_read_max r"
  "rx_read_init (set_epoller e r) = rx_read_init r" "rx_write_init (set_epoller e r) = rx_write_init r"
  by (simp_all add: upd_rest_def object_at_def set_epoller_def)

lemma new_client_simps [simp]:
  "rx_sockets (new_client k opens) = Map.empty" "rx_connections (new_client k opens) = Map.empty"
  "ts (new_client k opens) = (example_client_state opens)\<lparr>nt_queue := example_queue, nt_id := 0\<rparr>"
  "objects (new_client k opens) = [9 \<mapsto> PipeRef]" "rx_kernel (new_client k opens) = k" "rx_timers (new_client k opens) = TimerHeap"
  "rx_clock (new_client k opens) = Timestamp 0 0" "rx_read_max (new_client k opens) = 81920"
  "the_epoller (new_client k opens) = \<lparr>ep_fd = 3, ep_events_size = 32, ep_removed = {}, ek_interest = [5 \<mapsto> (9, {EPOLLIN, EPOLLPRI})],
     ek_max_watches = 10\<rparr>"
  "rx_read_expand (new_client k opens) = 1024" "rx_read_init (new_client k opens) = 1024"
  "rx_write_expand (new_client k opens) = 1024" "rx_write_init (new_client k opens) = 1024"
  by (simp_all add: new_client_def set_queue_def)

text \<open>The one that could not connect, with its timer running, and the one that is connected.\<close>

definition waiting_client :: "kernel \<Rightarrow> byte net_client" where
  "waiting_client k = startConnectTimer (new_client k [])"

lemma waiting_client_reachable: "nc_reachable pr errs (waiting_client k)"
proof -
  have "nc_connect (new_client k []) = Some (False, startConnectTimer (upd_rest (\<lambda>t. t\<lparr>nc_opens := []\<rparr>) (new_client k [])))"
    by (simp add: nc_connect_def)
  moreover have "upd_rest (\<lambda>t. t\<lparr>nc_opens := []\<rparr>) (new_client k []) = new_client k []"
    by (simp add: upd_rest_def new_client_def set_queue_def object_at_def set_epoller_def client_base_def
      setRecvBufferInitSize_def setRecvBufferExpandSize_def setRecvBufferMaxSize_def
      setSendBufferInitSize_def setSendBufferExpandSize_def setSendBufferMaxSize_def EpollReactor_def Reactor_def
      example_client_state_def thread_state.defs client_state.defs example_state_def)
  ultimately have "nc_connect (new_client k []) = Some (False, waiting_client k)" by (simp add: waiting_client_def)
  moreover have "opens_fresh (new_client k [])" by (simp add: opens_fresh_def)
  ultimately show ?thesis by (rule nc_reachable.initial [OF example_client_made example_client_init, rotated])
qed

subsection \<open>Its event loop\<close>

text \<open>
  C32: the event loop of a client never goes wrong by itself, and never ends. In every reachable state of a client and for
  every batch of events the kernel may report, \<open>doEvent\<close> uses no device that is gone and calls no device callback
  that is not set, although the client closes and opens sockets in its callbacks; unless a callback fails, it ends
  in a reachable state, with neither of the quit flags set and no message passed on to the owner of the client.
\<close>
theorem client_loop_safe:
  assumes "nc_reachable pr errs r" and "reportable r evs"
  shows "case doEvent (nc_dispatch pr errs) (Events evs) r of Inl e \<Rightarrow> e = CallbackFailed
         | Inr (ret, r') \<Rightarrow> ret = 0 \<and> nc_reachable pr errs r' \<and> \<not> rx_quit r' \<and> \<not> rx_service_quit r' \<and> MESSAGE \<notin> cmd_type ` set (nt_emitted (ts r'))"
proof (cases "doEvent (nc_dispatch pr errs) (Events evs) r")
  case (Inl e)
  then show ?thesis using client_doEvent_ok [OF nc_reachable_inv [OF assms(1)] assms(2), of pr errs] by simp
next
  case (Inr x)
  then obtain ret r' where x: "doEvent (nc_dispatch pr errs) (Events evs) r = Inr (ret, r')" by (cases x) auto
  have "nc_reachable pr errs r'" by (rule nc_reachable.step [OF assms(1) nc_step.polled [OF assms(2) x]])
  then show ?thesis
    using client_doEvent_ok [OF nc_reachable_inv [OF assms(1)] assms(2), of pr errs] x by (simp add: client_inv_def)
qed

theorem client_loop_safe_witness:
  "\<exists>r evs. evs = [(9, {EPOLLIN})] \<and> reportable r evs
     \<and> (case doEvent (nc_dispatch example_protocol (\<lambda>_. (0, 0))) (Events evs) r of Inl e \<Rightarrow> e = CallbackFailed
        | Inr (ret, r') \<Rightarrow> ret = 0 \<and> \<not> rx_quit (r' :: byte net_client) \<and> \<not> rx_service_quit r')"
proof -
  let ?r = "waiting_client (example_kernel [] [] [])" and ?evs = "[(9, {EPOLLIN})]"
  have rep: "reportable ?r ?evs"
    by (simp add: waiting_client_def startConnectTimer_def startTimer_def stopConnectTimer_def stopTimer_def split_beta Let_def
      reportable_def permitted_def)
  have "case doEvent (nc_dispatch example_protocol (\<lambda>_. (0, 0))) (Events ?evs) ?r of Inl e \<Rightarrow> e = CallbackFailed
        | Inr (ret, r') \<Rightarrow> ret = 0 \<and> \<not> rx_quit r' \<and> \<not> rx_service_quit r'"
    using client_loop_safe [OF waiting_client_reachable rep, of example_protocol "\<lambda>_. (0, 0)"] by (auto split: sum.splits)
  with rep show ?thesis by blast
qed

subsection \<open>It does not stop\<close>

lemma unconnected:
  assumes "client_inv {} r" and "\<not> nc_connected (ts r)"
  shows "rx_connections r = Map.empty"
proof -
  have "rx_sockets r sid = None" for sid using assms by (cases "rx_sockets r sid") (auto simp: client_inv_def)
  then have "dom (rx_sockets r) = {}" by auto
  moreover have "dom (rx_sockets r) = dom (rx_connections r)"
    using assms(1) by (simp add: client_inv_def thread_inv_def reactor_inv_def)
  ultimately show ?thesis by simp
qed

lemma er_closeSocket_timers: "rx_timers (er_closeSocket sid r) = rx_timers r"
  by (auto simp: er_closeSocket_def detachIOService_def er_removeIODevice_def ep_del_def ctl_del_def destroy_device_def
      reactor_closeSocket_def set_epoller_def object_at_def Let_def split: option.split prod.split)

lemma nc_stop_effect:
  fixes t :: thread_object
  assumes inv: "client_inv {} r"
  defines "r' \<equiv> fst (nc_stop (r, t))"
  shows "\<not> nc_connected (ts r')" "rx_sockets r' = Map.empty" "rx_connections r' = Map.empty"
    "nt_emitted (ts r') = nt_emitted (ts r) @ (if nc_connected (ts r) then [own_command CLOSE (nc_socket_id (ts r)) r] else [])"
    "nc_timer (ts r) \<noteq> null_timer \<Longrightarrow> th_map (rx_timers r') (nc_timer (ts r)) = None"
proof -
  let ?r1 = "stopConnectTimer r"
  have r': "r' = nc_disconnect ?r1" by (simp add: r'_def nc_stop_def)
  have inv1: "client_inv {} ?r1" using inv by (simp add: client_inv_def)
  note off = client_inv_disconnect [OF inv1]
  show "\<not> nc_connected (ts r')" unfolding r' by (rule off(2))
  show "rx_connections r' = Map.empty" unfolding r' by (rule unconnected [OF off])
  then show "rx_sockets r' = Map.empty"
    using off(1) by (auto simp: r' client_inv_def thread_inv_def reactor_inv_def)
  have tinv: "thread_inv {} ?r1" using inv1 by (simp add: client_inv_def)
  show "nt_emitted (ts r') = nt_emitted (ts r) @ (if nc_connected (ts r) then [own_command CLOSE (nc_socket_id (ts r)) r] else [])"
    by (simp add: r' nc_disconnect_def nt_close_world [OF tinv] own_command_def)
  have timers: "rx_timers (nc_disconnect ?r1) = rx_timers ?r1"
    by (simp add: nc_disconnect_def nt_closeSocket_def er_closeSocket_timers sendNetCommandClose_def nt_emit_def)
  show "th_map (rx_timers r') (nc_timer (ts r)) = None" if "nc_timer (ts r) \<noteq> null_timer"
    using that unfolding r' timers by (simp add: stopConnectTimer_def stopTimer_def removeTimer_def Let_def split: option.split)
qed

text \<open>
  C33: stopping a client waits for ever. \<open>stop\<close> - and the destructor of \<open>TcpClientService\<close>, which calls it - stops the timer to
  connect, takes the one socket the client has off its reactor with a last \<open>CLOSE\<close>, and then waits for the thread: for its
  worker, which runs if \<open>is_run_\<close> was false when the object was made, and for nobody if it happened to be true. In both
  cases the wait cannot go on as the worker stands, and nothing asks the worker's loop to quit, in no state that can follow.
\<close>
theorem client_stop_waits:
  assumes "nc_reachable pr errs r" and "used_once garbage t"
    and "to_workers t = (if garbage then [] else [Running])" and "to_closer t = NotClosing"
  shows "case nc_stop (r, t) of (r', t') \<Rightarrow>
      \<not> nc_connected (ts r') \<and> rx_sockets r' = Map.empty \<and> rx_connections r' = Map.empty
    \<and> nt_emitted (ts r') = nt_emitted (ts r) @ (if nc_connected (ts r) then [own_command CLOSE (nc_socket_id (ts r)) r] else [])
    \<and> (nc_timer (ts r) \<noteq> null_timer \<longrightarrow> th_map (rx_timers r') (nc_timer (ts r)) = None)
    \<and> to_closer t' = Closing \<and> to_workers t' = to_workers t \<and> used_once garbage t' \<and> sem_woken (to_sem t') = None
    \<and> (\<forall>r''. (nc_step pr errs)\<^sup>*\<^sup>* r' r'' \<longrightarrow> \<not> rx_quit r'' \<and> \<not> rx_service_quit r'')"
proof -
  let ?r = "fst (nc_stop (r, t))"
  note eff = nc_stop_effect [OF nc_reachable_inv [OF assms(1)], of t]
  have r: "nc_reachable pr errs ?r" by (rule nc_reachable.step [OF assms(1) nc_step.stop])
  have "nc_reachable pr errs r''" if "(nc_step pr errs)\<^sup>*\<^sup>* ?r r''" for r''
    using that by (induction rule: rtranclp_induct) (auto intro: r nc_reachable.step)
  then have quit: "\<not> rx_quit r'' \<and> \<not> rx_service_quit r''" if "(nc_step pr errs)\<^sup>*\<^sup>* ?r r''" for r''
    using nc_reachable_inv [of pr errs r''] that by (simp add: client_inv_def)
  have "to_is_run t" "to_sem t = \<lparr>wait_count = 0, wakeup_count = 0\<rparr>"
    using used_once_inv [OF assms(2)] assms(3,4) by (auto simp: once_inv_def never_started_def split: if_splits)
  then have "to_closer (thread_close t) = Closing" "sem_woken (to_sem (thread_close t)) = None"
    "to_workers (thread_close t) = to_workers t"
    by (simp_all add: thread_close_def sem_wait_def sem_woken_def)
  moreover have "used_once garbage (thread_close t)" using used_once.close [OF assms(2)] assms(4) by simp
  moreover have "nc_stop (r, t) = (?r, thread_close t)" by (simp add: nc_stop_def)
  ultimately show ?thesis using eff quit by auto
qed

lemma new_buffer:
  assumes "n < vec_max" and "0 < e"
  shows "\<exists>b. DynamicBuffer n e = Some b \<and> buffer_ok b \<and> content b = [] \<and> length (db_buffer b) = n \<and> db_expand_size b = e"
  using assms by (simp add: DynamicBuffer_def vec_alloc_def buffer_ok_def content_def)

text \<open>The client whose first attempt to connect succeeds: the descriptor is 7 and the socket's object at address 1000.\<close>

lemma connected_client:
  "\<exists>r sid c. nc_connect (new_client k [Some (7, 1000)]) = Some (True, r) \<and> rx_connections r sid = Some c
    \<and> buffer_ok (tc_read_buffer c) \<and> content (tc_read_buffer c) = [] \<and> room 5 (tc_read_buffer c)
    \<and> rx_read_max r = 81920 \<and> rx_kernel r = k"
proof -
  obtain i v where i: "socket_nextId 7 0 = (i, v)" by fastforce
  obtain b where b: "DynamicBuffer 1024 1024 = Some b" "buffer_ok b" "content b = []" "length (db_buffer b) = 1024"
    "db_expand_size b = 1024"
    using new_buffer [of 1024 1024] by (auto simp: vec_max_def)
  let ?r = "upd_rest (\<lambda>t. t\<lparr>nc_opens := [], nc_id_value := v, nc_socket_id := sint i, nc_connected := True\<rparr>)
    (new_client k [Some (7, 1000)])"
  let ?peer = "(IODevice 1000)\<lparr>dev_id := sint i, dev_fd := 7\<rparr>"
  have "\<exists>r2 c. er_attachSocket ?peer ?r = Some (True, r2) \<and> rx_connections r2 (sint i) = Some c
      \<and> tc_read_buffer c = b \<and> rx_read_max r2 = 81920 \<and> rx_kernel r2 = k"
    by (simp add: er_attachSocket_def attachIOService_def er_addIODevice_def ep_add_def ctl_add_def IODevice_def wanted_events_def
      TcpConnection_def b(1))
  moreover have "room 5 b" using b by (simp add: room_def vec_max_def)
  ultimately show ?thesis
    using b i by (force simp: nc_connect_def nt_attach_def sendNetCommandNew_def nt_emit_def Let_def)
qed

text \<open>A connected client is stopped: its connection is gone, \<open>CLOSE\<close> is said, and \<open>stop\<close> waits for the running worker.\<close>

theorem client_stop_waits_witness:
  "\<exists>r t. used_once False t \<and> to_workers t = [Running] \<and> nc_connected (ts r) \<and> rx_connections r \<noteq> Map.empty \<and>
     (case nc_stop (r, t) of (r' :: byte net_client, t') \<Rightarrow> rx_connections r' = Map.empty
        \<and> map cmd_type (nt_emitted (ts r')) = map cmd_type (nt_emitted (ts r)) @ [CLOSE]
        \<and> to_closer t' = Closing \<and> sem_woken (to_sem t') = None)"
proof -
  let ?k = "example_kernel [] [] []" and ?t = "thread_start (Thread False)"
  have t: "to_workers ?t = (if False then [] else [Running])" "to_closer ?t = NotClosing" by (simp_all add: thread_start_def Thread_def)
  obtain r sid c where r: "nc_connect (new_client ?k [Some (7, 1000)]) = Some (True, r)" "rx_connections r sid = Some c"
    using connected_client [of ?k] by blast
  have "opens_fresh (new_client ?k [Some (7, 1000)])" by (simp add: opens_fresh_def)
  then have reach: "nc_reachable example_protocol (\<lambda>_. (0, 0)) r"
    by (rule nc_reachable.initial [OF example_client_made example_client_init _ r(1)])
  have conn: "rx_connections r \<noteq> Map.empty" using r(2) by auto
  then have on: "nc_connected (ts r)" using unconnected [OF nc_reachable_inv [OF reach]] by blast
  obtain r' t' where s: "nc_stop (r, ?t) = (r', t')" by fastforce
  then have "rx_connections r' = Map.empty \<and> map cmd_type (nt_emitted (ts r')) = map cmd_type (nt_emitted (ts r)) @ [CLOSE]
      \<and> to_closer t' = Closing \<and> sem_woken (to_sem t') = None"
    using client_stop_waits [OF reach used_once.fresh t] on by (simp add: own_command_def NetCommand_def)
  then show ?thesis using used_once.fresh t(1) s on conn by (intro exI [of _ r] exI [of _ ?t]) simp
qed

subsection \<open>It receives nothing\<close>

text \<open>
  C34: the first message ends the client. When the read loop of a client's socket has taken data and the buffer then holds
  a complete message, the handler calls \<open>new_net_cmd_cb_\<close>, which in \<open>NetClientThread\<close> is a second member that nobody sets:
  the program ends. It goes on exactly when there is no message, only part of one.
\<close>
theorem client_first_message_fatal:
  assumes inv: "client_inv {} r" and c: "rx_connections r sid = Some c"
    and loop: "read_loop sid (rx_read_max r) False (tc_read_buffer c) (rx_kernel r) = Some (True, e, b, k)"
    and e: "e = Drained \<or> e = PeerClosed"
    and p: "parse_stream (pr_max pr) (pr_create pr) (pr_decode pr) (content b) = (msgs, closed, rest)"
  shows "onSocketRead (nc_callbacks pr) sid r = None \<longleftrightarrow> msgs \<noteq> []"
proof -
  define r1 where "r1 = (upd_conn sid (\<lambda>c. c\<lparr>tc_read_buffer := b\<rparr>) r)\<lparr>rx_kernel := k\<rparr>"
  have "buffer_ok (tc_read_buffer c)" using inv c by (auto simp: client_inv_def thread_inv_def reactor_inv_def conn_ok_def)
  then have b: "buffer_ok b" using loop by (rule read_loop_some_ok)
  have c1: "rx_connections r1 sid = Some (c\<lparr>tc_read_buffer := b\<rparr>)" using c by (simp add: r1_def)
  have t1: "ts r1 = ts r" by (simp add: r1_def ts_def)
  have "nc_onRecvMessage pr sid r1 = None \<longleftrightarrow> msgs \<noteq> []"
    using onRecvMessage_refines [OF b p, of "nt_id (ts r)" "nc_socket_id (ts r)"] inv
    by (auto simp: nc_onRecvMessage_def c1 t1 client_inv_def Let_def)
  moreover have "onSocketRead (nc_callbacks pr) sid r = finish_read (nc_callbacks pr) sid True e r1"
    using c loop by (simp add: onSocketRead_def r1_def)
  ultimately show ?thesis using e by (auto simp: finish_read_def nc_callbacks_def split: bind_splits)
qed

lemma read_once:
  assumes b: "buffer_ok b" "room 5 b" "content b = []" and mx: "5 \<le> mx"
    and k: "k_readable k = [5]" "k_recvs k = [Available 5]" "k_incoming k sid = bs" "length bs = 5"
  shows "\<exists>b' k'. read_loop sid mx False b k = Some (True, Drained, b', k') \<and> content b' = bs"
proof -
  have "readableBytes b = 0" using length_content [OF b(1)] b(3) by simp
  then have add: "sz_add 5 (readableBytes b) = 5" by (simp add: sz_add_small sz_max_def)
  obtain b1 block where b1: "reserveWritableBytes 5 b = Some b1" "mem_write (db_buffer b1) (writeBegin b1) bs = Some block"
    "content (db_write (length bs) (b1\<lparr>db_buffer := block\<rparr>)) = bs"
    using store_received [OF b(1) _ b(2), of bs] k(4) b(3) by auto
  have bs: "bs \<noteq> []" "take 5 bs = bs" using k(4) by auto
  show ?thesis
    using b1 k mx add bs
    by (subst read_loop.simps, subst read_loop.simps) (simp add: sock_readableBytes_def sock_recv_def Let_def)
qed

theorem client_first_message_fatal_witness:
  "\<exists>r sid c. client_inv {} r \<and> rx_connections r sid = Some c \<and> content (tc_read_buffer c) = []
    \<and> onSocketRead (nc_callbacks example_protocol) sid (r :: byte net_client) = None"
proof -
  let ?k = "(example_kernel [] [Available 5] [0, 7, 0, 1, 42])\<lparr>k_readable := [5]\<rparr>"
  obtain r sid c where r: "nc_connect (new_client ?k [Some (7, 1000)]) = Some (True, r)" "rx_connections r sid = Some c"
    "buffer_ok (tc_read_buffer c)" "content (tc_read_buffer c) = []" "room 5 (tc_read_buffer c)" "rx_read_max r = 81920"
    "rx_kernel r = ?k"
    using connected_client [of ?k] by blast
  have "opens_fresh (new_client ?k [Some (7, 1000)])" by (simp add: opens_fresh_def)
  then have inv: "client_inv {} r"
    using client_inv_connect [OF client_inv_init [OF example_client_made example_client_init]] r(1) by blast
  obtain b k where l: "read_loop sid 81920 False (tc_read_buffer c) ?k = Some (True, Drained, b, k)" "content b = [0, 7, 0, 1, 42]"
    using read_once [OF r(3,5,4), of 81920 ?k sid "[0, 7, 0, 1, 42]"] by (auto simp: example_kernel_def)
  have p: "parse_stream (pr_max example_protocol) (pr_create example_protocol) (pr_decode example_protocol) (content b)
      = ([(7, 42)], False, [])"
    unfolding l(2) by (subst parse_stream.simps, subst parse_stream.simps)
      (simp add: example_protocol_def frame_length_def frame_message_def be_word16_def byte_create_def byte_decode_def)
  then have "onSocketRead (nc_callbacks example_protocol) sid r = None"
    using client_first_message_fatal [OF inv r(2) _ _ p] l(1) r(6,7) by auto
  then show ?thesis using inv r(2,4) by blast
qed

subsection \<open>Sending without a connection\<close>

text \<open>
  C35: sending puts off the reconnection. When a client that is not connected and waits for its timer finds a message in its
  queue, it takes that message, drops it, leaves the rest of the queue, and starts its timer anew from now: a program that
  sends more often than the interval never gets its connection back, and loses a message each time.
\<close>
theorem sending_postpones_reconnect:
  assumes inv: "client_inv {} r" and off: "\<not> nc_connected (ts r)" and timer: "nc_timer (ts r) \<noteq> null_timer"
    and queue: "cq_items (mq_queue (nt_queue (ts r))) = Some cmd # cs"
    and msg: "cmd_type cmd = MESSAGE" "cmd_message cmd = Some m" "buffer_ok (nt_encode_buffer (ts r))"
      "pr_encode pr m (capacity (nt_encode_buffer (ts r)) - 4) = Some body" "length body + 4 \<le> capacity (nt_encode_buffer (ts r))"
    and heap: "heap_inv (rx_timers r)" and now: "normal (rx_clock r)"
    and new: "th_map (rx_timers (stopTimer (nc_timer (ts r)) r)) (nextId (th_next_id (rx_timers r))) = None"
  shows "\<exists>r'. nc_onNetCommand pr r = Some r' \<and> cq_items (mq_queue (nt_queue (ts r'))) = cs \<and> \<not> nc_connected (ts r')
    \<and> k_wire (rx_kernel r') = k_wire (rx_kernel r)
    \<and> nc_timer (ts r') = nextId (th_next_id (rx_timers r))
    \<and> timers (rx_timers r') = ((timers (rx_timers r))(nc_timer (ts r) := None))
        (nc_timer (ts r') \<mapsto> (Timer (nc_timer (ts r')) (plus_ms (rx_clock r) (max 0 (nc_interval (ts r))))
           (max 0 (nc_interval (ts r))) (UserTimer ()) 1)\<lparr>t_heap_pos := 0\<rparr>)"
proof -
  let ?q = "(nt_queue (ts r))\<lparr>mq_queue := (mq_queue (nt_queue (ts r)))\<lparr>cq_items := cs\<rparr>\<rparr>"
  let ?i = "nextId (th_next_id (rx_timers r))" and ?r0 = "set_queue ?q r"
  obtain b where b: "writeMessage (pr_encode pr) (cmd_message_id cmd) m (nt_encode_buffer (ts r)) = Some (True, b)" "buffer_ok b"
    using writeMessage_ok [of "nt_encode_buffer (ts r)" body "pr_encode pr" m "cmd_message_id cmd"] msg by blast
  define r1 where "r1 = upd_rest (\<lambda>t. t\<lparr>nt_encode_buffer := b\<rparr>) ?r0"
  have enc: "encode_command pr cmd ?r0 = Some (True, r1)" "encoded r1 = Some (content b)"
    using b by (simp_all add: encode_command_def msg(2) r1_def encoded_def set_queue_def Let_def read_content)
  have r1: "rx_timers r1 = rx_timers r" "rx_clock r1 = rx_clock r" "rx_connections r1 = rx_connections r"
    "rx_kernel r1 = rx_kernel r" "nt_queue (ts r1) = ?q" "nc_connected (ts r1) = nc_connected (ts r)"
    "nc_timer (ts r1) = nc_timer (ts r)" "nc_interval (ts r1) = nc_interval (ts r)"
    by (simp_all add: r1_def set_queue_def)
  have none: "reactor_sendMessage (nc_callbacks pr) sid bs cb r1 = Some (False, r1)" for sid bs cb
    using unconnected [OF inv off] by (simp add: reactor_sendMessage_def r1)
  have run: "nc_onNetCommand pr r = Some (nc_onClose r1)"
    using enc none by (simp add: nc_onNetCommand_def queue nc_command_def msg Let_def)
  have close: "nc_onClose r1 = startConnectTimer r1" using off by (simp add: nc_onClose_def nc_disconnect_def r1)
  let ?h = "removeTimer (nc_timer (ts r)) (rx_timers r)"
  note rem = removeTimer_ok [OF heap, of "nc_timer (ts r)"]
  have fresh: "th_map ?h (nextId (th_next_id ?h)) = None" using new rem(4) by (simp add: stopTimer_def)
  obtain h' where h': "addTimer (rx_clock r) (nc_interval (ts r)) (UserTimer ()) 1 ?h = (nextId (th_next_id ?h), h')"
    "timers h' = (timers ?h)(nextId (th_next_id ?h) \<mapsto> (Timer (nextId (th_next_id ?h)) (plus_ms (rx_clock r) (max 0 (nc_interval (ts r))))
       (max 0 (nc_interval (ts r))) (UserTimer ()) 1)\<lparr>t_heap_pos := 0\<rparr>)"
    using addTimer_fresh [OF rem(1) now fresh] by metis
  have "startConnectTimer r1 = upd_rest (\<lambda>t. t\<lparr>nc_timer := ?i\<rparr>) (r1\<lparr>rx_timers := h'\<rparr>)"
    using timer h'(1) rem(4) by (simp add: startConnectTimer_def stopConnectTimer_def startTimer_def stopTimer_def r1)
  then show ?thesis using run close off h'(2) rem(2,4) by (simp add: r1)
qed

theorem sending_postpones_reconnect_witness:
  "\<exists>r r' cmd1 cmd2. cq_items (mq_queue (nt_queue (ts r))) = [Some cmd1, Some cmd2] \<and> rx_clock r = Timestamp 4 0
     \<and> nc_onNetCommand example_protocol (r :: byte net_client) = Some r' \<and> cq_items (mq_queue (nt_queue (ts r'))) = [Some cmd2]
     \<and> map_option t_value (timers (rx_timers r') (nc_timer (ts r'))) = Some (Timestamp 9 0)"
proof -
  let ?k = "example_kernel [] [] []" and ?cmd = "(NetCommand MESSAGE)\<lparr>cmd_message_id := 7, cmd_message := Some (42 :: byte)\<rparr>"
  let ?i = "nextId 0" and ?i2 = "nextId (nextId 0)"
  define w where "w = waiting_client ?k"
  define q where "q = example_queue\<lparr>mq_queue := (mq_queue example_queue)\<lparr>cq_items := [Some ?cmd, Some ?cmd]\<rparr>\<rparr>"
  define r where "r = set_queue q (w\<lparr>rx_clock := Timestamp 4 0\<rparr>)"
  have heap0: "heap_inv (TimerHeap :: unit timer_cb timer_heap)" by (rule conjunct1 [OF TimerHeap_ok])
  obtain h where h: "addTimer (Timestamp 0 0) 5000 (UserTimer ()) 1 (TimerHeap :: unit timer_cb timer_heap) = (?i, h)"
    "heap_inv h" "timers h = [?i \<mapsto> (Timer ?i (plus_ms (Timestamp 0 0) (max 0 5000)) (max 0 5000) (UserTimer ()) 1)\<lparr>t_heap_pos := 0\<rparr>]"
    "th_next_id h = ?i"
    using addTimer_fresh [OF heap0, of "Timestamp 0 0" 5000 "UserTimer ()" 1]
    by (auto simp: TimerHeap_def normal_def timers_def)
  have w: "w = upd_rest (\<lambda>t. t\<lparr>nc_timer := ?i\<rparr>) ((new_client ?k [])\<lparr>rx_timers := h\<rparr>)"
    using h(1) by (simp add: w_def waiting_client_def startConnectTimer_def stopConnectTimer_def startTimer_def)
  have i: "?i \<noteq> null_timer" by (rule nextId_not_null)
  have cw: "client_inv {} w" using nc_reachable_inv [OF waiting_client_reachable] by (simp add: w_def)
  have "ts w = (example_client_state [])\<lparr>nt_queue := example_queue, nt_id := 0, nc_timer := ?i\<rparr>" by (simp add: w)
  then have tr: "ts r = (example_client_state [])\<lparr>nt_queue := q, nt_id := 0, nc_timer := ?i\<rparr>"
    by (simp add: r_def set_queue_def ts_def upd_rest_def)
  have inv: "client_inv {} r"
    unfolding r_def by (rule client_inv_set_queue) (use cw in \<open>simp_all add: w q_def\<close>)
  have r: "rx_timers r = h" "rx_clock r = Timestamp 4 0" by (simp_all add: r_def set_queue_def w upd_rest_def)
  have buf: "buffer_ok (nt_encode_buffer example_state)" "capacity (nt_encode_buffer example_state) = 64"
    by (simp_all add: example_state_def buffer_ok_def capacity_def vec_max_def)
  have "timers (removeTimer ?i h) ?i2 = None"
    using removeTimer_ok(2) [OF h(2), of ?i] h(3) by (simp add: nextId_def)
  then obtain r' where r': "nc_onNetCommand example_protocol r = Some r'" "cq_items (mq_queue (nt_queue (ts r'))) = [Some ?cmd]"
    "nc_timer (ts r') = ?i2"
    "timers (rx_timers r') = ((timers h)(?i := None))
        (?i2 \<mapsto> (Timer ?i2 (plus_ms (Timestamp 4 0) 5000) 5000 (UserTimer ()) 1)\<lparr>t_heap_pos := 0\<rparr>)"
    using sending_postpones_reconnect [OF inv, of ?cmd "[Some ?cmd]" 42 example_protocol "[42]"] i h(2,4) r buf
    by (auto simp: tr q_def NetCommand_def stopTimer_def example_protocol_def byte_encode_def normal_def)
  show ?thesis
    by (rule exI [of _ r], rule exI [of _ r'], rule exI [of _ ?cmd], rule exI [of _ ?cmd], intro conjI)
      (use r' r tr in \<open>simp_all add: q_def Timer_def plus_ms_def cdiv_def cmod_def Let_def\<close>)
qed

end
