(* ===== verification/Client_Service.thy ===== *)
theory Client_Service
  imports Client_Flow Tcp_Service
begin

text \<open>
  The client as its owner uses it (\<open>client/tcp_client_service.h\<close>, \<open>.cc\<close>, \<open>client/tcp_client.h\<close>, \<open>.cc\<close>), in the branch for
  systems other than Windows: a \<open>TcpClientService\<close> with its thread and its table of handlers, and the \<open>TcpClient\<close> with
  the queue through which the commands of that thread come to the thread of the game server.

  A handler is a name \<open>'h\<close>; what it does is an argument of the operations that call it. What \<open>onConnect\<close> and
  \<open>onDisconnect\<close> log is not modelled.
\<close>

subsection \<open>\<open>TcpClientService\<close>\<close>

record ('m, 'h) client_service =
  cs_net :: "'m net_client"
  cs_thread :: thread_object
  cs_handlers :: "int \<rightharpoonup> 'h"

text \<open>\<open>garbage\<close> is what \<open>is_run_\<close> of its thread holds before anything is assigned to it.\<close>

definition TcpClientService ::
  "bool \<Rightarrow> int \<Rightarrow> (int \<times> int) option list \<Rightarrow> int \<Rightarrow> kernel \<Rightarrow> nat \<Rightarrow> int \<Rightarrow> bool \<Rightarrow> timestamp \<Rightarrow> ('m, 'h) client_service option" where
  "TcpClientService garbage pipe_ptr opens reconnect_interval_ms k limit fd cloexec now =
     map_option (\<lambda>t. \<lparr>cs_net = EpollReactor 10 now k limit fd cloexec t, cs_thread = Thread garbage, cs_handlers = Map.empty\<rparr>)
       (NetClientThread pipe_ptr 40960 reconnect_interval_ms opens)"

text \<open>\<open>createClient\<close>: the thread connects when it has started.\<close>

definition createClient ::
  "(int \<times> int) option \<Rightarrow> bool \<times> bool \<Rightarrow> bool \<times> bool \<Rightarrow> ('m, 'h) client_service \<Rightarrow> bool \<times> ('m, 'h) client_service" where
  "createClient fds nonblock cloexec s =
     (let (ok, r) = nt_init 0 81920 409600 fds nonblock cloexec (cs_net s)
      in if \<not> ok then (False, s\<lparr>cs_net := r\<rparr>) else (True, s\<lparr>cs_net := r, cs_thread := thread_start (cs_thread s)\<rparr>))"

definition destroy_client_service :: "('m, 'h) client_service \<Rightarrow> ('m, 'h) client_service" where
  "destroy_client_service s = (let (r, t) = nc_stop (cs_net s, cs_thread s) in s\<lparr>cs_net := r, cs_thread := t\<rparr>)"

definition cs_push :: "'m net_command \<Rightarrow> ('m, 'h) client_service \<Rightarrow> ('m, 'h) client_service option" where
  "cs_push cmd s = map_option (\<lambda>r. s\<lparr>cs_net := r\<rparr>) (nc_push (Some cmd) (cs_net s))"

definition cs_sendMessage :: "int \<Rightarrow> 'm option \<Rightarrow> ('m, 'h) client_service \<Rightarrow> ('m, 'h) client_service option" where
  "cs_sendMessage message_id message s =
     cs_push ((NetCommand MESSAGE)\<lparr>cmd_message_id := message_id, cmd_message := message\<rparr>) s"

definition cs_getMessageHandler :: "int \<Rightarrow> ('m, 'h) client_service \<Rightarrow> 'h option" where
  "cs_getMessageHandler message_id s = cs_handlers s message_id"

definition cs_setMessageHandler :: "int \<Rightarrow> 'h \<Rightarrow> ('m, 'h) client_service \<Rightarrow> ('m, 'h) client_service" where
  "cs_setMessageHandler message_id h s = s\<lparr>cs_handlers := (cs_handlers s)(message_id \<mapsto> h)\<rparr>"

subsection \<open>\<open>TcpClient\<close>\<close>

record ('m, 'h, 'w) tcp_client =
  tl_service :: "('m, 'h) client_service"
  tl_queue :: "'m net_command message_queue"
  tl_creates :: "int \<rightharpoonup> (unit \<Rightarrow> 'm)"
  tl_user :: 'w

definition tl_onNetCommand :: "'m net_command \<Rightarrow> ('m, 'h, 'w) tcp_client \<Rightarrow> ('m, 'h, 'w) tcp_client option" where
  "tl_onNetCommand cmd c = map_option (\<lambda>q. c\<lparr>tl_queue := q\<rparr>) (mq_push cmd (tl_queue c))"

definition tl_registerMessageCreateFunc :: "int \<Rightarrow> (unit \<Rightarrow> 'm) \<Rightarrow> ('m, 'h, 'w) tcp_client \<Rightarrow> bool \<times> ('m, 'h, 'w) tcp_client" where
  "tl_registerMessageCreateFunc i f c =
     (if tl_creates c i \<noteq> None then (False, c) else (True, c\<lparr>tl_creates := (tl_creates c)(i \<mapsto> f)\<rparr>))"

definition tl_createMessageMap :: "int \<Rightarrow> ('m, 'h, 'w) tcp_client \<Rightarrow> 'm option" where
  "tl_createMessageMap i c = (case tl_creates c i of None \<Rightarrow> None | Some f \<Rightarrow> Some (f ()))"

definition tl_sendMessage :: "int \<Rightarrow> 'm option \<Rightarrow> ('m, 'h, 'w) tcp_client \<Rightarrow> ('m, 'h, 'w) tcp_client option" where
  "tl_sendMessage message_id message c =
     map_option (\<lambda>s. c\<lparr>tl_service := s\<rparr>) (cs_sendMessage message_id message (tl_service c))"

text \<open>\<open>processNetCommand\<close> of the service; a message without a handler is dropped with a warning.\<close>

definition cs_processNetCommand ::
  "('h \<Rightarrow> 'm option \<Rightarrow> ('m, 'h, 'w) tcp_client \<Rightarrow> ('m, 'h, 'w) tcp_client) \<Rightarrow> 'm net_command \<Rightarrow> ('m, 'h, 'w) tcp_client \<Rightarrow>
     ('m, 'h, 'w) tcp_client" where
  "cs_processNetCommand call cmd c =
     (case cmd_type cmd of
        MESSAGE \<Rightarrow> (case cs_getMessageHandler (cmd_message_id cmd) (tl_service c) of
                      None \<Rightarrow> c | Some h \<Rightarrow> call h (cmd_message cmd) c)
      | _ \<Rightarrow> c)"

text \<open>The loop of \<open>onClientNetCommandQueueRead\<close>, with the number of commands it may still handle.\<close>

primrec tl_queue_read ::
  "('h \<Rightarrow> 'm option \<Rightarrow> ('m, 'h, 'w) tcp_client \<Rightarrow> ('m, 'h, 'w) tcp_client) \<Rightarrow> nat \<Rightarrow> ('m, 'h, 'w) tcp_client \<Rightarrow> ('m, 'h, 'w) tcp_client" where
  "tl_queue_read call 0 c = c"
| "tl_queue_read call (Suc n) c =
     (case mq_pop (tl_queue c) of
        (None, q) \<Rightarrow> c\<lparr>tl_queue := q\<rparr>
      | (Some cmd, q) \<Rightarrow> tl_queue_read call n (cs_processNetCommand call cmd (c\<lparr>tl_queue := q\<rparr>)))"

definition tl_onQueueRead ::
  "('h \<Rightarrow> 'm option \<Rightarrow> ('m, 'h, 'w) tcp_client \<Rightarrow> ('m, 'h, 'w) tcp_client) \<Rightarrow> ('m, 'h, 'w) tcp_client \<Rightarrow> ('m, 'h, 'w) tcp_client" where
  "tl_onQueueRead call c = tl_queue_read call 100 c"

text \<open>
  \<open>start\<close>: the queue is attached to the game server's service; before \<open>createService\<close> there is none (\<open>None\<close>). That it cannot
  be attached is not reported.
\<close>

definition tl_start ::
  "(int \<times> int) option \<times> (bool \<times> bool) \<times> (bool \<times> bool) \<Rightarrow> (int \<times> int) option \<times> (bool \<times> bool) \<times> (bool \<times> bool) \<Rightarrow>
     ('m, 'h, 'w) tcp_client \<Rightarrow> ('u, 'm, 'k, 't, 'v) tcp_service \<Rightarrow>
     (bool \<times> ('m, 'h, 'w) tcp_client \<times> ('u, 'm, 'k, 't, 'v) tcp_service) option" where
  "tl_start env1 env2 c g =
     (let (created, s) = createClient (fst env1) (fst (snd env1)) (snd (snd env1)) (tl_service c);
          c1 = c\<lparr>tl_service := s\<rparr>
      in if \<not> created then Some (False, c1, g)
         else do { (q, g1) \<leftarrow> attachNetCommandQueue (fst env2) (fst (snd env2)) (snd (snd env2)) (tl_queue c1) g;
                   Some (True, c1\<lparr>tl_queue := q\<rparr>, g1) })"

subsection \<open>What its owner sees\<close>

text \<open>A command as the handlers see it, when a handler \<open>h\<close> changes the owner's part of the state with \<open>act h\<close>.\<close>

definition client_event :: "('h \<Rightarrow> 'm option \<Rightarrow> 'w \<Rightarrow> 'w) \<Rightarrow> (int \<rightharpoonup> 'h) \<Rightarrow> 'm net_command \<Rightarrow> 'w \<Rightarrow> 'w" where
  "client_event act handlers cmd w =
     (if cmd_type cmd = MESSAGE
      then case handlers (cmd_message_id cmd) of None \<Rightarrow> w | Some h \<Rightarrow> act h (cmd_message cmd) w else w)"

lemma process_event:
  assumes "\<And>h m c. call h m c = c\<lparr>tl_user := act h m (tl_user c)\<rparr>"
  shows "cs_processNetCommand call cmd c = c\<lparr>tl_user := client_event act (cs_handlers (tl_service c)) cmd (tl_user c)\<rparr>"
  by (simp add: cs_processNetCommand_def cs_getMessageHandler_def client_event_def assms split: command_type.split option.split)

lemma queue_read_events:
  assumes "\<And>h m c. call h m c = c\<lparr>tl_user := act h m (tl_user c)\<rparr>"
  shows "tl_queue_read call n c = (let xs = cq_items (mq_queue (tl_queue c))
    in c\<lparr>tl_queue := (tl_queue c)\<lparr>mq_queue := (mq_queue (tl_queue c))\<lparr>cq_items := drop n xs\<rparr>\<rparr>,
         tl_user := fold (client_event act (cs_handlers (tl_service c))) (take n xs) (tl_user c)\<rparr>)"
proof (induction n arbitrary: c)
  case (Suc n)
  have process: "cs_processNetCommand call cmd c = c\<lparr>tl_user := client_event act (cs_handlers (tl_service c)) cmd (tl_user c)\<rparr>"
    for cmd c by (rule process_event) (rule assms)
  show ?case
    by (cases "cq_items (mq_queue (tl_queue c))") (simp_all add: mq_pop_def popIfNotEmpty_def process Suc Let_def)
qed simp

text \<open>
  The owner's handlers get the messages in order. When the handlers do not touch the client's queue, one wake-up gives the
  first 100 commands of the queue, in order, to the handlers registered for their ids - messages without a handler are
  dropped - and leaves the others in the queue.
\<close>
theorem client_queue_read:
  assumes "\<And>h m c. call h m c = c\<lparr>tl_user := act h m (tl_user c)\<rparr>"
  shows "tl_user (tl_onQueueRead call c)
      = fold (client_event act (cs_handlers (tl_service c))) (take 100 (cq_items (mq_queue (tl_queue c)))) (tl_user c)
    \<and> cq_items (mq_queue (tl_queue (tl_onQueueRead call c))) = drop 100 (cq_items (mq_queue (tl_queue c)))"
proof -
  have read: "tl_onQueueRead call c = (let xs = cq_items (mq_queue (tl_queue c))
      in c\<lparr>tl_queue := (tl_queue c)\<lparr>mq_queue := (mq_queue (tl_queue c))\<lparr>cq_items := drop 100 xs\<rparr>\<rparr>,
           tl_user := fold (client_event act (cs_handlers (tl_service c))) (take 100 xs) (tl_user c)\<rparr>)"
    unfolding tl_onQueueRead_def by (rule queue_read_events) (rule assms)
  show ?thesis unfolding read by (simp add: Let_def)
qed

text \<open>
  The tables of a client: a function to create messages is kept once it is there, a handler is replaced.
\<close>

lemma register_twice:
  "tl_registerMessageCreateFunc i f c = (ok, c1) \<Longrightarrow> tl_registerMessageCreateFunc i g c1 = (False, c1)"
  by (auto simp: tl_registerMessageCreateFunc_def split: if_splits)

lemma tl_createMessageMap_register:
  "tl_registerMessageCreateFunc i f c = (True, c1) \<Longrightarrow> tl_createMessageMap j c1 = (if j = i then Some (f ()) else tl_createMessageMap j c)"
  by (auto simp: tl_registerMessageCreateFunc_def tl_createMessageMap_def split: if_splits)

lemma handler_set: "cs_getMessageHandler j (cs_setMessageHandler i h s) = (if j = i then Some h else cs_getMessageHandler j s)"
  by (simp add: cs_getMessageHandler_def cs_setMessageHandler_def)

end
