(* ===== verification/Attached_Client.thy ===== *)
theory Attached_Client
  imports Client_Service Game_Server
begin

text \<open>
  A client attached to the game server: \<open>TcpClient::start\<close> (\<open>client/tcp_client.cc\<close>) attaches the queue of the client to the
  multiplexer of the server's main thread, so that the loop of that thread reads two pipes, its own and the one of the client.

  The client is the user's part of the state of the service, where the callbacks and handlers of the server can reach it; the
  handlers of the client change the client.
\<close>

subsection \<open>The loop with both queues\<close>

type_synonym ('u, 'm, 'h, 't, 'k, 'w) app = "('u, 'm, 'h, 't, ('m, 'k, 'w) tcp_client) tcp_service"

definition own_device :: "('u, 'm, 'h, 't, 'w) tcp_service \<Rightarrow> io_device" where
  "own_device s = sp_device (mq_pipe (sv_queue s))"

definition client_device :: "('m, 'k, 'w) tcp_client \<Rightarrow> io_device" where
  "client_device c = sp_device (mq_pipe (tl_queue c))"

text \<open>\<open>pipeReadCallback\<close> of the client's queue.\<close>

definition tl_pipeRead ::
  "('k \<Rightarrow> 'm option \<Rightarrow> ('m, 'k, 'w) tcp_client \<Rightarrow> ('m, 'k, 'w) tcp_client) \<Rightarrow> ('m, 'k, 'w) tcp_client \<Rightarrow> ('m, 'k, 'w) tcp_client option" where
  "tl_pipeRead call c = do { q \<leftarrow> mq_drain (tl_queue c); Some (tl_onQueueRead call (c\<lparr>tl_queue := q\<rparr>)) }"

definition app_dispatch ::
  "(('u, 'm, 'h, 't, 'k, 'w) app) service_callbacks \<Rightarrow>
   ('h \<Rightarrow> net_id \<Rightarrow> 'm option \<Rightarrow> ('u, 'm, 'h, 't, 'k, 'w) app \<Rightarrow> ('u, 'm, 'h, 't, 'k, 'w) app) \<Rightarrow>
   ('k \<Rightarrow> 'm option \<Rightarrow> ('m, 'k, 'w) tcp_client \<Rightarrow> ('m, 'k, 'w) tcp_client) \<Rightarrow> (nat \<Rightarrow> timestamp) \<Rightarrow>
     (('u, 'm, 'h, 't, 'k, 'w) app) dispatch" where
  "app_dispatch cbs call client_call clock =
     (svc_dispatch cbs call clock)
     \<lparr>ds_device := (\<lambda>s p. if p = dev_ptr (own_device s) then Some (own_device s)
                       else if p = dev_ptr (client_device (sv_user s)) then Some (client_device (sv_user s)) else None),
      ds_read := (\<lambda>d s. if dev_ptr d = dev_ptr (own_device s) then svc_pipeRead cbs call clock s
                     else map_option (\<lambda>c. s\<lparr>sv_user := c\<rparr>) (tl_pipeRead client_call (sv_user s)))\<rparr>"

definition app_loop ::
  "(('u, 'm, 'h, 't, 'k, 'w) app) service_callbacks \<Rightarrow>
   ('h \<Rightarrow> net_id \<Rightarrow> 'm option \<Rightarrow> ('u, 'm, 'h, 't, 'k, 'w) app \<Rightarrow> ('u, 'm, 'h, 't, 'k, 'w) app) \<Rightarrow>
   ('k \<Rightarrow> 'm option \<Rightarrow> ('m, 'k, 'w) tcp_client \<Rightarrow> ('m, 'k, 'w) tcp_client) \<Rightarrow> (nat \<Rightarrow> timestamp) \<Rightarrow>
   ('t \<Rightarrow> timer_id \<Rightarrow> ('u, 'm, 'h, 't, 'k, 'w) app \<Rightarrow> ('u, 'm, 'h, 't, 'k, 'w) app) \<Rightarrow> round list \<Rightarrow>
     ('u, 'm, 'h, 't, 'k, 'w) app \<Rightarrow> dispatch_error + ('u, 'm, 'h, 't, 'k, 'w) app" where
  "app_loop cbs call client_call clock user rds s =
     (if sv_epoll s = None then Inl Dangling else es_loop (app_dispatch cbs call client_call clock) (svc_access user) rds s)"

lemma app_dispatch_simps [simp]:
  "ds_write (app_dispatch cbs call client_call clock) d s = Some s" "ds_error (app_dispatch cbs call client_call clock) d s = Some s"
  "ds_epoller (app_dispatch cbs call client_call clock) s = (case sv_epoll s of None \<Rightarrow> Epoller 0 | Some es \<Rightarrow> es_epoller es)"
  "ds_set_epoller (app_dispatch cbs call client_call clock) e s = svc_set_epoll (\<lambda>es. es\<lparr>es_epoller := e\<rparr>) s"
  "ds_read (app_dispatch cbs call client_call clock) d s = (if dev_ptr d = dev_ptr (own_device s) then svc_pipeRead cbs call clock s
     else map_option (\<lambda>c. s\<lparr>sv_user := c\<rparr>) (tl_pipeRead client_call (sv_user s)))"
  "ds_device (app_dispatch cbs call client_call clock) s p = (if p = dev_ptr (own_device s) then Some (own_device s)
     else if p = dev_ptr (client_device (sv_user s)) then Some (client_device (sv_user s)) else None)"
  by (simp_all add: app_dispatch_def svc_dispatch_def)

subsection \<open>Its invariant\<close>

text \<open>
  Registered are the pipe of the service and, when it could be attached, the pipe of the client, both with their read callback and for
  input only.
\<close>

definition readable :: "('u, 'm, 'h, 't, 'k, 'w) app \<Rightarrow> int \<Rightarrow> epoll_events \<Rightarrow> bool" where
  "readable s p fl \<longleftrightarrow> fl \<subseteq> {EPOLLIN, EPOLLPRI} \<and> (p = dev_ptr (own_device s) \<and> dev_read_cb (own_device s)
     \<or> p = dev_ptr (client_device (sv_user s)) \<and> p \<noteq> dev_ptr (own_device s) \<and> dev_read_cb (client_device (sv_user s)))"

definition app_inv :: "('u, 'm, 'h, 't, 'k, 'w) app \<Rightarrow> bool" where
  "app_inv s \<longleftrightarrow> (case sv_epoll s of None \<Rightarrow> False
     | Some es \<Rightarrow> \<forall>fd p w. ek_interest (es_epoller es) fd = Some (p, w) \<longrightarrow> readable s p w)"

text \<open>
  What the kernel reports: registered devices with flags asked for, and no error, as every pipe holds its own write end. The
  registrations are those of a state \<open>s0\<close> that the loop starts in.
\<close>

definition app_reported :: "('u, 'm, 'h, 't, 'k, 'w) app \<Rightarrow> (int \<times> epoll_events) list \<Rightarrow> bool" where
  "app_reported s0 evs \<longleftrightarrow> (case sv_epoll s0 of None \<Rightarrow> False
     | Some es \<Rightarrow> list_all (\<lambda>(p, fl). \<exists>fd w. ek_interest (es_epoller es) fd = Some (p, w) \<and> fl \<subseteq> w) evs)"

definition client_quiet :: "('k \<Rightarrow> 'm option \<Rightarrow> ('m, 'k, 'w) tcp_client \<Rightarrow> ('m, 'k, 'w) tcp_client) \<Rightarrow> bool" where
  "client_quiet client_call \<longleftrightarrow> (\<forall>h m c. client_device (client_call h m c) = client_device c)"

definition app_safe ::
  "(('u, 'm, 'h, 't, 'k, 'w) app) service_callbacks \<Rightarrow>
   ('h \<Rightarrow> net_id \<Rightarrow> 'm option \<Rightarrow> ('u, 'm, 'h, 't, 'k, 'w) app \<Rightarrow> ('u, 'm, 'h, 't, 'k, 'w) app) \<Rightarrow>
   ('k \<Rightarrow> 'm option \<Rightarrow> ('m, 'k, 'w) tcp_client \<Rightarrow> ('m, 'k, 'w) tcp_client) \<Rightarrow>
   ('t \<Rightarrow> timer_id \<Rightarrow> ('u, 'm, 'h, 't, 'k, 'w) app \<Rightarrow> ('u, 'm, 'h, 't, 'k, 'w) app) \<Rightarrow> ('u, 'm, 'h, 't, 'k, 'w) app \<Rightarrow>
     (int \<times> epoll_events) set \<Rightarrow> ('u, 'm, 'h, 't, 'k, 'w) app \<Rightarrow> bool" where
  "app_safe cbs call client_call user s0 bt s \<longleftrightarrow> quiet client_device cbs call user \<and> client_quiet client_call \<and> app_inv s0
     \<and> same_loop client_device s0 s \<and> (\<forall>(p, fl) \<in> bt. readable s0 p fl)"

lemma same_readable: "same_loop client_device s s' \<Longrightarrow> readable s' = readable s"
  by (intro ext) (simp add: same_loop_def readable_def own_device_def)

lemma same_app_inv: "same_loop client_device s s' \<Longrightarrow> app_inv s \<Longrightarrow> app_inv s'"
  using same_readable [of s s'] by (cases "sv_epoll s"; cases "sv_epoll s'") (auto simp: app_inv_def same_loop_def)

lemma app_safe_same:
  "same_loop client_device s s' \<Longrightarrow> app_safe cbs call client_call user s0 bt s \<Longrightarrow> app_safe cbs call client_call user s0 bt s'"
  using same_loop_trans [of client_device s0 s s'] by (simp add: app_safe_def)

lemma tl_queue_read_device: "client_quiet client_call \<Longrightarrow> client_device (tl_queue_read client_call n c) = client_device c"
proof (induction n arbitrary: c)
  case (Suc n)
  obtain x q where q: "mq_pop (tl_queue c) = (x, q)" by fastforce
  have d: "client_device (c\<lparr>tl_queue := q\<rparr>) = client_device c"
    using q by (cases x) (auto simp: client_device_def dest: mq_pop_cases)
  show ?case
  proof (cases x)
    case (Some cmd)
    have "client_device (cs_processNetCommand client_call cmd (c\<lparr>tl_queue := q\<rparr>)) = client_device c"
      using Suc.prems d by (simp add: cs_processNetCommand_def client_quiet_def split: command_type.split option.split)
    then show ?thesis using Suc q Some by simp
  qed (use q d in simp)
qed simp

lemma same_loop_client:
  assumes "client_quiet client_call" and "tl_pipeRead client_call (sv_user s) = Some c"
  shows "same_loop client_device s (s\<lparr>sv_user := c\<rparr>)"
proof -
  obtain q where q: "mq_drain (tl_queue (sv_user s)) = Some q" "c = tl_onQueueRead client_call ((sv_user s)\<lparr>tl_queue := q\<rparr>)"
    using assms(2) by (auto simp: tl_pipeRead_def split: bind_splits)
  then have "client_device c = client_device (sv_user s)"
    using mq_drain_device [OF q(1)] by (simp add: tl_onQueueRead_def tl_queue_read_device [OF assms(1)]) (simp add: client_device_def)
  then show ?thesis by (simp add: same_loop_def)
qed

interpretation app_rounds: service_loop "app_dispatch cbs call client_call clock" "app_safe cbs call client_call user s0"
    "\<lambda>s evs. app_reported s0 evs" "svc_access user"
  for cbs :: "(('u, 'm, 'h, 't, 'k, 'w) app) service_callbacks" and call client_call clock user s0
proof (unfold_locales, goal_cases)
  case (2 bt s p d s1)
  then have "same_loop client_device s s1"
    using same_loop_pipe [of client_device cbs call user clock s s1] same_loop_client [of client_call s]
    by (auto simp: app_safe_def split: if_splits)
  then show ?case by (rule app_safe_same) (rule 2(1))
next
  case (4 bt s p fl)
  then have "readable s p fl" using same_readable [of s0 s] by (auto simp: app_safe_def)
  then show ?case by (auto simp: readable_def answers_def)
next
  case (5 s evs)
  then obtain es where es: "sv_epoll s0 = Some es"
    "\<forall>x \<in> set evs. case x of (p, fl) \<Rightarrow> \<exists>fd w. ek_interest (es_epoller es) fd = Some (p, w) \<and> fl \<subseteq> w"
    by (auto simp: app_reported_def list_all_iff split: option.splits)
  have "readable s0 p fl" if "(p, fl) \<in> set evs" for p fl
  proof -
    from bspec [OF es(2) that] obtain fd w where "ek_interest (es_epoller es) fd = Some (p, w)" "fl \<subseteq> w" by auto
    moreover have "app_inv s0" using 5(1) by (simp add: app_safe_def)
    ultimately show ?thesis using es(1) unfolding app_inv_def readable_def by fastforce
  qed
  then show ?case using 5(1) by (auto simp: app_safe_def)
next
  case (6 bt s e)
  then have "same_loop client_device s (svc_set_epoll (\<lambda>es. es\<lparr>es_epoller := e\<rparr>) s)"
    by (cases "sv_epoll s") (auto simp: same_loop_def svc_set_epoll_def)
  then show ?case using app_safe_same 6(1) by (fastforce simp: app_safe_def)
next
  case (7 bt s e)
  then have "app_inv s" using same_app_inv [of s0 s] by (simp add: app_safe_def)
  then show ?case by (cases "sv_epoll s") (auto simp: app_inv_def svc_set_epoll_def)
next
  case (8 s now s1)
  then have "same_loop client_device s s1"
    using same_loop_checkTimeout [of client_device cbs call user now s s1] by (auto simp: app_safe_def svc_access_def)
  then show ?case by (rule app_safe_same) (rule 8(1))
next
  case (9 s b)
  show ?case by (rule app_safe_same [OF _ 9]) (simp add: svc_access_def)
qed auto

subsection \<open>Attaching\<close>

lemma es_attach_new:
  assumes "mq_attach es_addIODevice es_removeIODevice fds nb ce (MessageQueue k p) es = (ok, q, es')"
  shows "dev_ptr (sp_device (mq_pipe q)) = p" "ek_interest (es_epoller es') fd = Some (x, w) \<Longrightarrow>
    ek_interest (es_epoller es) fd = Some (x, w) \<or> x = p \<and> w = {EPOLLIN, EPOLLPRI} \<and> dev_read_cb (sp_device (mq_pipe q))"
  using assms
  by (auto simp: mq_attach_def sp_open_def MessageQueue_def SelfPipe_def IODevice_def sp_setNonblock_def sp_setCloseOnExec_def
      attachIOService_def es_addIODevice_def ep_add_def ctl_add_def wanted_events_def Let_def split: option.splits prod.splits if_splits)

lemma tl_start_client:
  "tl_start env1 env2 c s = Some (ok, c', s') \<Longrightarrow> (\<exists>es q es'. sv_epoll s = Some es \<and> tl_queue c' = q \<and> s' = s\<lparr>sv_epoll := Some es'\<rparr>
     \<and> (\<exists>b. mq_attach es_addIODevice es_removeIODevice (fst env2) (fst (snd env2)) (snd (snd env2)) (tl_queue c) es = (b, q, es')))
   \<or> s' = s \<and> \<not> ok"
  by (auto simp: tl_start_def attachNetCommandQueue_def Let_def split: prod.splits option.splits if_splits bind_splits)

lemma started_app_inv:
  assumes "svc_at p s" and "tl_queue c = MessageQueue n p2" "p2 \<noteq> p" and "tl_start env1 env2 c s = Some (ok, c', s2)"
  shows "app_inv (s2\<lparr>sv_user := c'\<rparr>)"
proof -
  obtain es where es: "sv_epoll s = Some es" and own: "dev_ptr (own_device s) = p" "dev_read_cb (own_device s)"
    "\<And>fd x w. ek_interest (es_epoller es) fd = Some (x, w) \<Longrightarrow> x = p \<and> w \<subseteq> {EPOLLIN, EPOLLPRI}"
    using assms(1) by (auto simp: svc_at_def svc_inv_def own_device_def split: option.splits)
  from tl_start_client [OF assms(4)] consider
    (attached) es' b where "s2 = s\<lparr>sv_epoll := Some es'\<rparr>"
      "mq_attach es_addIODevice es_removeIODevice (fst env2) (fst (snd env2)) (snd (snd env2)) (MessageQueue n p2) es = (b, tl_queue c', es')"
    | (failed) "s2 = s" using assms(2) es by auto
  then show ?thesis
  proof cases
    case attached
    have "readable (s2\<lparr>sv_user := c'\<rparr>) x w" if "ek_interest (es_epoller es') fd = Some (x, w)" for fd x w
      using es_attach_new(2) [OF attached(2) that] es_attach_new(1) [OF attached(2)] own assms(3)
      by (auto simp: readable_def attached(1) own_device_def client_device_def)
    then show ?thesis by (simp add: app_inv_def attached(1))
  next
    case failed
    then show ?thesis using own es by (auto simp: app_inv_def readable_def own_device_def)
  qed
qed

lemma tl_start_attaches:
  assumes "sv_epoll s = Some es" "tl_queue c = MessageQueue n p2" "createClient (fst env1) (fst (snd env1)) (snd (snd env1)) (tl_service c) = (True, cs)"
    and "0 \<le> rd2" "ep_fd (es_epoller es) \<noteq> -1" "ek_interest (es_epoller es) rd2 = None"
      "card (dom (ek_interest (es_epoller es))) < ek_max_watches (es_epoller es)"
  shows "tl_start env1 (Some (rd2, wr2), (True, True), (True, True)) c s
    = Some (True, c\<lparr>tl_service := cs, tl_queue := opened_queue n p2 rd2 wr2\<rparr>, s\<lparr>sv_epoll := Some (watching rd2 p2 es)\<rparr>)"
  by (simp add: tl_start_def assms(1-3) attachNetCommandQueue_def attach_opens_and_watches [OF assms(4-7)])

lemma app_loop_ok:
  fixes s :: "('u, 'm, 'h, 't, 'k, 'w) app"
  assumes inv: "app_inv s" and users: "quiet client_device cbs call user" "client_quiet client_call"
    and answers: "\<forall>rd \<in> set rds. \<forall>t. case rd_answer rd t of WaitFailed e \<Rightarrow> True | Events evs \<Rightarrow> app_reported s evs"
  shows "case app_loop cbs call client_call clock user rds s of Inl e \<Rightarrow> e = CallbackFailed
    | Inr s' \<Rightarrow> app_inv s' \<and> same_loop client_device s s'"
proof -
  have "case es_loop (app_dispatch cbs call client_call clock) (svc_access user) rds s of Inl e \<Rightarrow> e = CallbackFailed
      | Inr s' \<Rightarrow> app_safe cbs call client_call user s {} s'"
    using users inv answers by (intro app_rounds.loop_ok) (auto simp: app_safe_def app_rounds.answered_def)
  moreover have "sv_epoll s \<noteq> None" using inv by (auto simp: app_inv_def split: option.splits)
  ultimately show ?thesis
    using same_app_inv [OF _ inv] by (auto simp: app_loop_def app_safe_def split: sum.splits)
qed

text \<open>
  C31: a server with a client is safe. When a client with a queue of its own has been started on a server that can run its main loop,
  whether its pipe could be attached or not, the loop with both pipes never reaches a device that is gone or a device
  callback that is not set, as long as the callbacks, handlers and timers leave the pipes and their registrations alone; the
  devices and their registrations are at the end what they were.
\<close>
theorem attached_client_safe:
  fixes s s2 :: "('u, 'm, 'h, 't, 'k, 'w) app"
  assumes server: "svc_at p s" and client: "tl_queue c = MessageQueue n p2" "p2 \<noteq> p"
    and start: "tl_start env1 env2 c s = Some (True, c', s2)"
    and users: "quiet client_device cbs call user" "client_quiet client_call"
    and answers: "\<forall>rd \<in> set rds. \<forall>t. case rd_answer rd t of WaitFailed e \<Rightarrow> True
      | Events evs \<Rightarrow> app_reported (s2\<lparr>sv_user := c'\<rparr>) evs"
  shows "case app_loop cbs call client_call clock user rds (s2\<lparr>sv_user := c'\<rparr>) of Inl e \<Rightarrow> e = CallbackFailed
    | Inr s' \<Rightarrow> app_inv s' \<and> same_loop client_device (s2\<lparr>sv_user := c'\<rparr>) s'"
  by (rule app_loop_ok [OF started_app_inv [OF server client start] users answers])

text \<open>A server and a client, both pipes attached, for one round in which both are readable.\<close>

definition example_app_queue :: "byte net_command message_queue" where
  "example_app_queue = \<lparr>mq_queue = ConcurrentQueue 0,
     mq_pipe = \<lparr>sp_device = (IODevice 8)\<lparr>dev_fd := 15, dev_read_cb := True, dev_attached := True\<rparr>, sp_fd1 = 16, sp_bytes = 1, sp_nonblock = True\<rparr>\<rparr>"

definition example_app :: "(byte, unit, byte option list) tcp_client \<Rightarrow> (unit, byte, unit, unit, unit, byte option list) app" where
  "example_app c = (TcpService 1 8 (Timestamp 0 0) c)
     \<lparr>sv_queue := example_app_queue,
      sv_epoll := Some ((EpollService 16 14 True)\<lparr>es_epoller := \<lparr>ep_fd = 14, ep_events_size = 32, ep_removed = {},
        ek_interest = [15 \<mapsto> (8, {EPOLLIN, EPOLLPRI})], ek_max_watches = 16\<rparr>\<rparr>)\<rparr>"

definition both_readable :: round where
  "both_readable = \<lparr>rd_before = Timestamp 1 0, rd_answer = (\<lambda>_. Events [(20, {EPOLLIN}), (8, {EPOLLIN})]), rd_after = Timestamp 1 0\<rparr>"

definition note_message :: "unit \<Rightarrow> byte option \<Rightarrow> (byte, unit, byte option list) tcp_client \<Rightarrow> (byte, unit, byte option list) tcp_client" where
  "note_message h m c = c\<lparr>tl_user := tl_user c @ [m]\<rparr>"

definition example_tcp_client :: "(byte, unit, byte option list) tcp_client" where
  "example_tcp_client =
     \<lparr>tl_service = \<lparr>cs_net = EpollReactor 10 (Timestamp 0 0) (example_kernel [] [] []) 10 3 True (example_client_state []),
                    cs_thread = Thread False, cs_handlers = Map.empty\<rparr>,
      tl_queue = MessageQueue 0 20, tl_creates = Map.empty, tl_user = []\<rparr>"

theorem attached_client_safe_witness:
  "\<exists>c' s2. tl_start (Some (5, 6), (True, True), (True, True)) (Some (17, 18), (True, True), (True, True)) example_tcp_client (example_app example_tcp_client)
       = Some (True, c', s2)
     \<and> (case app_loop \<lparr>sc_connect = None, sc_disconnect = None, sc_exceed = None\<rparr> (\<lambda>_ _ _ s. s) note_message (\<lambda>_. Timestamp 1 0) (\<lambda>_ _ s. s)
          [both_readable] (s2\<lparr>sv_user := c'\<rparr>) of Inl e \<Rightarrow> e = CallbackFailed | Inr s' \<Rightarrow> app_inv s')"
proof -
  let ?c = example_tcp_client and ?s = "example_app example_tcp_client" and ?env2 = "(Some (17, 18), (True, True), (True, True)) :: (int \<times> int) option \<times> (bool \<times> bool) \<times> (bool \<times> bool)"
  let ?env1 = "(Some (5, 6), (True, True), (True, True)) :: (int \<times> int) option \<times> (bool \<times> bool) \<times> (bool \<times> bool)"
  define es where "es = the (sv_epoll ?s)"
  define es' where "es' = es\<lparr>es_epoller := (es_epoller es)\<lparr>ek_interest := [15 \<mapsto> (8, {EPOLLIN, EPOLLPRI}), 17 \<mapsto> (20, {EPOLLIN, EPOLLPRI})]\<rparr>\<rparr>"
  have es: "sv_epoll ?s = Some es" by (simp add: es_def example_app_def)
  have "es_addIODevice ((IODevice 20)\<lparr>dev_fd := 17, dev_read_cb := True\<rparr>) es = (True, es')"
    by (simp add: es_addIODevice_def ep_add_def ctl_add_def IODevice_def wanted_events_def es'_def es_def example_app_def)
  note att = mq_attach_new_ok [where add = es_addIODevice, OF this]
  obtain c' s2 where start: "tl_start ?env1 ?env2 ?c ?s = Some (True, c', s2)" and s2: "s2 = ?s\<lparr>sv_epoll := Some es'\<rparr>"
    by (simp add: tl_start_def createClient_def example_client_init example_tcp_client_def attachNetCommandQueue_def
        es [unfolded example_tcp_client_def] att)
  have server: "svc_at 8 ?s"
    by (auto simp: svc_at_def svc_inv_def example_app_def example_app_queue_def IODevice_def split: if_splits)
  have reported: "\<forall>rd \<in> set [both_readable]. \<forall>t. case rd_answer rd t of WaitFailed e \<Rightarrow> True
      | Events evs \<Rightarrow> app_reported (s2\<lparr>sv_user := c'\<rparr>) evs"
  proof -
    have "ek_interest (es_epoller es') 15 = Some (8, {EPOLLIN, EPOLLPRI})" "ek_interest (es_epoller es') 17 = Some (20, {EPOLLIN, EPOLLPRI})"
      by (simp_all add: es'_def)
    then show ?thesis by (simp add: both_readable_def app_reported_def s2) blast
  qed
  have "quiet client_device \<lparr>sc_connect = None, sc_disconnect = None, sc_exceed = None\<rparr> (\<lambda>_ _ _ s. s) (\<lambda>_ _ s. s)" "client_quiet note_message"
    by (simp_all add: quiet_def call_back_def client_quiet_def note_message_def client_device_def)
  from attached_client_safe [OF server _ _ start this reported, of 0 20 "\<lambda>_. Timestamp 1 0"] start
  show ?thesis by (auto simp: example_tcp_client_def split: sum.splits)
qed

end
