(* ===== verification/Demo_App.thy ===== *)
theory Demo_App
  imports Attached_Client Log_Setup
begin

text \<open>
  The demo program (\<open>../demo/main.cc\<close>, \<open>server_app.h\<close>, \<open>server_app.cc\<close>, \<open>c2s_login_message_handler.cc\<close>): a game server with two network
  threads, the handler of one message, and a client to another server. \<open>ServerApp\<close> is the only object of its class; its members are the
  server and the client, which is the user's part of the service.

  The messages are made by generated code: \<open>login\<close> names the class of the login request, \<open>answer\<close> is the answer with its code
  set. The ids are those of \<open>C2S_LOGIN_REQ\<close> and \<open>S2C_LOGIN_RESP\<close>. What the program logs itself is not modelled.
\<close>

subsection \<open>Start\<close>

definition S2C_LOGIN_RESP :: int where "S2C_LOGIN_RESP = 1002"




subsection \<open>The login request\<close>

text \<open>\<open>ServerApp::sendMessage\<close> and \<open>sendBattleMessage\<close>, and the handler that uses them.\<close>

definition app_sendMessage ::
  "net_id \<Rightarrow> int \<Rightarrow> 'm \<Rightarrow> ('u, 'm, 'h, 't, 'k, 'w) app \<Rightarrow> ('u, 'm, 'h, 't, 'k, 'w) app option" where
  "app_sendMessage n message_id message s = service_sendMessage message_id n (Some message) s"

definition sendBattleMessage :: "int \<Rightarrow> 'm \<Rightarrow> ('u, 'm, 'h, 't, 'k, 'w) app \<Rightarrow> ('u, 'm, 'h, 't, 'k, 'w) app option" where
  "sendBattleMessage message_id message s =
     map_option (\<lambda>c. s\<lparr>sv_user := c\<rparr>) (tl_sendMessage message_id (Some message) (sv_user s))"

definition onC2SLoginRequest :: "'m \<Rightarrow> net_id \<Rightarrow> ('u, 'm, 'h, 't, 'k, 'w) app \<Rightarrow> ('u, 'm, 'h, 't, 'k, 'w) app option" where
  "onC2SLoginRequest answer n s = do { s1 \<leftarrow> app_sendMessage n S2C_LOGIN_RESP answer s; sendBattleMessage 1001 answer s1 }"

text \<open>The commands that wait for a network thread, and those that wait for the thread of the client.\<close>

definition waiting :: "nat \<Rightarrow> ('u, 'm, 'h, 't, 'k, 'w) app \<Rightarrow> 'm net_command option list" where
  "waiting i s = cq_items (mq_queue (nt_queue (ts (sv_threads s ! i))))"

definition client_waiting :: "('u, 'm, 'h, 't, 'k, 'w) app \<Rightarrow> 'm net_command option list" where
  "client_waiting s = cq_items (mq_queue (nt_queue (ts (cs_net (tl_service (sv_user s))))))"

text \<open>
  A login request is answered on its own connection only, and reported to the other server: exactly one command is added for
  the network thread of the connection, exactly one for the client's thread, none for any other thread.
\<close>
theorem login_answered:
  fixes s :: "('u, 'm, 'h, 't, 'k, 'w) app"
  assumes "unbounded s" "0 \<le> reactor_id n" "reactor_id n < int (length (sv_threads s))"
    and "\<not> cq_bounded (mq_queue (nt_queue (ts (cs_net (tl_service (sv_user s))))))"
  shows "\<exists>s'. onC2SLoginRequest answer n s = Some s' \<and> length (sv_threads s') = length (sv_threads s)
    \<and> (\<forall>i < length (sv_threads s). waiting i s' = waiting i s @ (if int i = reactor_id n
         then [Some ((NetCommand MESSAGE)\<lparr>cmd_id := n, cmd_message_id := 1002, cmd_message := Some answer\<rparr>)] else []))
    \<and> client_waiting s' = client_waiting s @ [Some ((NetCommand MESSAGE)\<lparr>cmd_message_id := 1001, cmd_message := Some answer\<rparr>)]"
proof -
  let ?i = "nat (reactor_id n)" and ?cmd = "(NetCommand MESSAGE)\<lparr>cmd_id := n, cmd_message_id := 1002, cmd_message := Some answer\<rparr>"
  let ?cmd2 = "(NetCommand MESSAGE)\<lparr>cmd_message_id := 1001, cmd_message := Some answer\<rparr>" and ?cl = "cs_net (tl_service (sv_user s))"
  have i: "?i < length (sv_threads s)" using assms(2,3) by (simp add: nat_less_iff)
  then have "\<not> cq_bounded (mq_queue (nt_queue (ts (sv_threads s ! ?i))))" using assms(1) by (simp add: unbounded_def)
  then obtain r where r: "nt_push (Some ?cmd) (sv_threads s ! ?i) = Some r"
      "cq_items (mq_queue (nt_queue (ts r))) = waiting ?i s @ [Some ?cmd]"
    by (auto simp: nt_push_def mq_push_def cq_push_def fullNoLock_def waiting_def)
  obtain cl where cl: "nc_push (Some ?cmd2) ?cl = Some cl" "cq_items (mq_queue (nt_queue (ts cl))) = client_waiting s @ [Some ?cmd2]"
    using assms(4) by (auto simp: nc_push_def nt_push_def mq_push_def cq_push_def fullNoLock_def client_waiting_def)
  have "onC2SLoginRequest answer n s = Some (s\<lparr>sv_threads := (sv_threads s)[?i := r],
      sv_user := (sv_user s)\<lparr>tl_service := (tl_service (sv_user s))\<lparr>cs_net := cl\<rparr>\<rparr>\<rparr>)"
    using r(1) cl(1) assms(2,3)
    by (simp add: onC2SLoginRequest_def app_sendMessage_def service_sendMessage_def svc_sendMessage_def svc_push_def S2C_LOGIN_RESP_def
        sendBattleMessage_def tl_sendMessage_def cs_sendMessage_def cs_push_def Let_def)
  then show ?thesis
    using r(2) cl(2) i assms(2) by (auto simp: waiting_def client_waiting_def nth_list_update)
qed

subsection \<open>The program starts\<close>




end
