(* ===== verification/Demo_Messages.thy ===== *)
theory Demo_Messages
  imports Net_Protocol
begin

unbundle bit_operations_syntax

text \<open>
  The base class of messages (\<open>exchange/base_struct.h\<close>, \<open>.cc\<close>), whose only code is the text it makes of bytes, and
  the message classes of the demo program (\<open>demo/c2s.h\<close>, \<open>.cc\<close>). Each of the four wraps a protobuf message \<open>data\<close>; what
  protobuf does with it is the parameter \<open>protobuf\<close>: the bytes of a message, if it is initialised, and what parsing some bytes
  leaves in a message and whether it succeeds. \<open>encode\<close> and \<open>decode\<close> have the form \<open>Net_Protocol\<close> uses.
\<close>

subsection \<open>\<open>BaseStruct\<close>\<close>

definition hex_digit :: "byte \<Rightarrow> byte" where
  "hex_digit d = (if d < 10 then 48 + d else 55 + d)"

text \<open>What \<open>snprintf\<close> stores for the format \<open>%02hhX-\<close>, with the null character.\<close>

definition hex_text :: "byte \<Rightarrow> bytes" where
  "hex_text v = [hex_digit (drop_bit 4 v), hex_digit (v AND 15), 45]"

primrec dump_loop :: "nat \<Rightarrow> bytes \<Rightarrow> bytes \<Rightarrow> bytes option" where
  "dump_loop i [] ret = Some ret"
| "dump_loop i (v # vs) ret = do { ret1 \<leftarrow> mem_write ret (3 * i) (hex_text v @ [0]); dump_loop (Suc i) vs ret1 }"

definition dumpBytes :: "bytes \<Rightarrow> bytes option" where
  "dumpBytes val =
     (if val = [] then Some []
      else do { ret \<leftarrow> dump_loop 0 val (replicate (3 * length val + 1) 0);
                let ret1 = ret[length ret - 2 := 0];
                Some (takeWhile (\<lambda>c. c \<noteq> 0) ret1) })"

lemma hex_digit_not_0: "hex_digit (v AND 15) \<noteq> 0 \<and> hex_digit (drop_bit 4 v) \<noteq> 0"
proof -
  have all: "list_all (\<lambda>n. hex_digit (word_of_nat n) \<noteq> 0) [0..<16]" by code_simp
  have "hex_digit d \<noteq> 0" if "unat d < 16" for d :: byte
    using all that by (force simp: list_all_iff dest: bspec [of _ _ "unat d"])
  moreover have "v AND 15 \<le> 15" by (rule word_and_le1)
  then have "unat (v AND 15) < 16" by (simp add: word_le_nat_alt)
  moreover have "unat v < 256" using unsigned_less [of v, where ?'a = nat] by simp
  then have "unat (drop_bit 4 v) < 16" by (simp add: unat_drop_bit_eq drop_bit_eq_div unat_div)
  ultimately show ?thesis by blast
qed

lemma dump_loop_ok:
  "length pre = 3 * i \<Longrightarrow> dump_loop i vs (pre @ replicate (3 * length vs + 1) 0) = Some (pre @ concat (map hex_text vs) @ [0])"
proof (induction vs arbitrary: i pre)
  case (Cons v vs)
  have "mem_write (pre @ replicate (3 * length (v # vs) + 1) 0) (3 * i) (hex_text v @ [0])
      = Some ((pre @ hex_text v) @ replicate (3 * length vs + 1) 0)"
    using Cons.prems by (simp add: mem_write_def hex_text_def numeral_3_eq_3)
  then show ?case using Cons.IH [of "pre @ hex_text v" "Suc i"] Cons.prems by (simp add: hex_text_def)
qed simp

text \<open>\<open>dumpBytes\<close> stays inside its buffer and gives the two digits of every byte, with a dash between them.\<close>

theorem dumpBytes_text:
  "dumpBytes (vs @ [v]) = Some (concat (map hex_text vs) @ butlast (hex_text v))"
proof -
  have all: "takeWhile (\<lambda>c. c \<noteq> 0) (concat (map hex_text vs) @ xs) = concat (map hex_text vs) @ takeWhile (\<lambda>c. c \<noteq> 0) xs" for xs
    by (rule takeWhile_append2) (auto simp: hex_text_def hex_digit_not_0)
  let ?n = "length (concat (map hex_text vs))"
  have "dump_loop 0 (vs @ [v]) (replicate (3 * length (vs @ [v]) + 1) 0) = Some (concat (map hex_text vs) @ hex_text v @ [0])"
    using dump_loop_ok [of "[]" 0 "vs @ [v]"] by simp
  moreover have "(concat (map hex_text vs) @ hex_text v @ [0])[length (concat (map hex_text vs) @ hex_text v @ [0]) - 2 := 0]
      = concat (map hex_text vs) @ butlast (hex_text v) @ [0, 0]"
    by (simp add: hex_text_def list_update_append)
  ultimately show ?thesis by (simp add: dumpBytes_def all) (simp add: hex_text_def hex_digit_not_0)
qed

subsection \<open>The demo's messages\<close>

record 'd protobuf =
  pb_serialize :: "'d \<Rightarrow> bytes option"
  pb_parse :: "bytes \<Rightarrow> bool \<times> 'd"

definition SerializeToArray :: "'d protobuf \<Rightarrow> 'd \<Rightarrow> nat \<Rightarrow> bytes option" where
  "SerializeToArray pb d n =
     (case pb_serialize pb d of None \<Rightarrow> None | Some bs \<Rightarrow> if n < length bs then None else Some bs)"

definition C2SLoginReqMessage_swap :: "'d \<times> 'd \<Rightarrow> 'd \<times> 'd" where
  "C2SLoginReqMessage_swap = (\<lambda>(d, other). (other, d))"

definition C2SLoginReqMessage_encode :: "'d protobuf \<Rightarrow> 'd \<Rightarrow> nat \<Rightarrow> bytes option" where
  "C2SLoginReqMessage_encode pb d n = (case SerializeToArray pb d n of None \<Rightarrow> None | Some bs \<Rightarrow> Some bs)"

definition C2SLoginReqMessage_decode :: "'d protobuf \<Rightarrow> 'd \<Rightarrow> bytes \<Rightarrow> 'd \<times> int" where
  "C2SLoginReqMessage_decode pb d str = (let (ok, d1) = pb_parse pb str in if \<not> ok then (d1, 0) else (d1, int (length str)))"

definition S2CLoginRespMessage_swap :: "'d \<times> 'd \<Rightarrow> 'd \<times> 'd" where
  "S2CLoginRespMessage_swap = (\<lambda>(d, other). (other, d))"

definition S2CLoginRespMessage_encode :: "'d protobuf \<Rightarrow> 'd \<Rightarrow> nat \<Rightarrow> bytes option" where
  "S2CLoginRespMessage_encode pb d n = (case SerializeToArray pb d n of None \<Rightarrow> None | Some bs \<Rightarrow> Some bs)"

definition S2CLoginRespMessage_decode :: "'d protobuf \<Rightarrow> 'd \<Rightarrow> bytes \<Rightarrow> 'd \<times> int" where
  "S2CLoginRespMessage_decode pb d str = (let (ok, d1) = pb_parse pb str in if \<not> ok then (d1, 0) else (d1, int (length str)))"

definition C2SLogoutReqMessage_swap :: "'d \<times> 'd \<Rightarrow> 'd \<times> 'd" where
  "C2SLogoutReqMessage_swap = (\<lambda>(d, other). (other, d))"

definition C2SLogoutReqMessage_encode :: "'d protobuf \<Rightarrow> 'd \<Rightarrow> nat \<Rightarrow> bytes option" where
  "C2SLogoutReqMessage_encode pb d n = (case SerializeToArray pb d n of None \<Rightarrow> None | Some bs \<Rightarrow> Some bs)"

definition C2SLogoutReqMessage_decode :: "'d protobuf \<Rightarrow> 'd \<Rightarrow> bytes \<Rightarrow> 'd \<times> int" where
  "C2SLogoutReqMessage_decode pb d str = (let (ok, d1) = pb_parse pb str in if \<not> ok then (d1, 0) else (d1, int (length str)))"

definition S2CLogoutRespMessage_swap :: "'d \<times> 'd \<Rightarrow> 'd \<times> 'd" where
  "S2CLogoutRespMessage_swap = (\<lambda>(d, other). (other, d))"

definition S2CLogoutRespMessage_encode :: "'d protobuf \<Rightarrow> 'd \<Rightarrow> nat \<Rightarrow> bytes option" where
  "S2CLogoutRespMessage_encode pb d n = (case SerializeToArray pb d n of None \<Rightarrow> None | Some bs \<Rightarrow> Some bs)"

definition S2CLogoutRespMessage_decode :: "'d protobuf \<Rightarrow> 'd \<Rightarrow> bytes \<Rightarrow> 'd \<times> int" where
  "S2CLogoutRespMessage_decode pb d str = (let (ok, d1) = pb_parse pb str in if \<not> ok then (d1, 0) else (d1, int (length str)))"

text \<open>The four classes do the same.\<close>

lemma demo_classes_alike:
  "S2CLoginRespMessage_encode = C2SLoginReqMessage_encode" "S2CLoginRespMessage_decode = C2SLoginReqMessage_decode"
  "C2SLogoutReqMessage_encode = C2SLoginReqMessage_encode" "C2SLogoutReqMessage_decode = C2SLoginReqMessage_decode"
  "S2CLogoutRespMessage_encode = C2SLoginReqMessage_encode" "S2CLogoutRespMessage_decode = C2SLoginReqMessage_decode"
  by (intro ext, simp add: S2CLoginRespMessage_encode_def S2CLoginRespMessage_decode_def C2SLogoutReqMessage_encode_def
      C2SLogoutReqMessage_decode_def S2CLogoutRespMessage_encode_def S2CLogoutRespMessage_decode_def
      C2SLoginReqMessage_encode_def C2SLoginReqMessage_decode_def)+

text \<open>
  What protobuf refuses is delivered: \<open>decode\<close> answers 0, and only a negative answer is an error for \<open>recvMessage\<close>. So
  with these classes a frame with a registered id is never at fault, and its message is whatever the parser left.
\<close>
theorem refused_body_delivered:
  assumes "buffer_ok b" and "content b = frame mid body" and "length body < 2 ^ 16" and "int (length body) + 4 \<le> mx"
    and "create (int (unat mid)) = Some d" and "pb_parse pb body = (ok, d1)"
  shows "\<exists>b'. recvMessage mx create (C2SLoginReqMessage_decode pb) b = Some (MESSAGE_READY (int (unat mid)) d1, b') \<and> content b' = []"
proof -
  have len: "length (content b) = length body + 4" "frame_length (content b) = length body"
    using assms(3) by (simp_all add: assms(2) frame_length_def frame_def unat_of_nat)
  have "frame_message create (C2SLoginReqMessage_decode pb) (content b) = Some (int (unat mid), d1)"
    unfolding frame_message_def len(2) using assms(5,6) by (simp add: assms(2) frame_def C2SLoginReqMessage_decode_def)
  then have "recvMessage mx create (C2SLoginReqMessage_decode pb) b = Some (MESSAGE_READY (int (unat mid)) d1, db_read (length body + 4) b)"
    using recvMessage_eq [OF assms(1), of mx create "C2SLoginReqMessage_decode pb"] len assms(4) by simp
  then show ?thesis using db_read_ok(2) [OF assms(1), of "length body + 4"] len(1) by simp
qed

text \<open>A parser that accepts only the empty message, and a body of one byte.\<close>

theorem refused_body_delivered_witness:
  "\<exists>b'. recvMessage 40960 (\<lambda>i. if i = 7 then Some (0 :: nat) else None)
      (C2SLoginReqMessage_decode \<lparr>pb_serialize = \<lambda>_. Some [], pb_parse = \<lambda>bs. (bs = [], 0)\<rparr>)
      \<lparr>db_buffer = frame 7 [42], db_expand_size = 8, db_read_index = 0, db_write_index = 5\<rparr> = Some (MESSAGE_READY 7 0, b') \<and> content b' = []"
proof -
  let ?b = "\<lparr>db_buffer = frame 7 [42], db_expand_size = 8, db_read_index = 0, db_write_index = 5\<rparr>"
  have b: "buffer_ok ?b" "content ?b = frame 7 [42]" by (simp_all add: buffer_ok_def content_def frame_def vec_max_def)
  show ?thesis
    using refused_body_delivered [OF b, of 40960 "\<lambda>i. if i = 7 then Some (0 :: nat) else None" 0
      "\<lparr>pb_serialize = \<lambda>_. Some [], pb_parse = \<lambda>bs. (bs = [], 0)\<rparr>" False 0] by simp
qed

end
