(* ===== verification/Spec2Isabelle.thy ===== *)
theory Spec2Isabelle
  imports Dynamic_Buffer Timer_Heap Wire_Memory Net_Protocol Tcp_Reactor Net_Thread_Flow Game_Server Acceptor_Model Select_Reactor
    Thread_Model Log_Setup Log_Sinks Demo_App Demo_Messages
begin

text \<open>
  A verification library for zbluenet, a C++ library for TCP servers and clients (\<open>src/zbluenet/zbluenet/src\<close>), in its
  branches for systems other than Windows. File names below are relative to \<open>src/zbluenet/zbluenet/src/zbluenet\<close>.

  \<^bold>\<open>The program.\<close> A server has a main thread (\<open>server/game_server.cc\<close>, \<open>server/game_service.cc\<close>, \<open>server/tcp_service.cc\<close>), an acceptor
  thread (\<open>net/acceptor.cc\<close>, \<open>net/epoll_acceptor.cc\<close>) and network threads (\<open>net/net_thread.cc\<close>). The acceptor numbers new
  sockets and attaches each to the network thread with the fewest connections. A network thread runs a reactor (\<open>net/reactor.cc\<close>,
  \<open>net/epoll_reactor.cc\<close>): it reads bytes into the buffer of the connection (\<open>dynamic_buffer.cc\<close>), cuts them into frames
  (\<open>protocol/net_protocol.cc\<close>), and passes NEW, MESSAGE and CLOSE commands to the main thread through a queue with a
  wake-up pipe (\<open>net/message_queue.h\<close>); the main thread calls the handlers of the messages and sends commands back through the
  queue of each network thread. A client (\<open>client/\<close>) is a network thread with one connection that it opens itself. Timers
  (\<open>timer_heap.cc\<close>), threads (\<open>thread.cc\<close>) and the log (\<open>log.cc\<close>, \<open>logger*.cc\<close>) serve all of them.

  \<^bold>\<open>The model.\<close> Every class is a record of its members, every operation a function from the old state to the new one. A failed
  assertion of the language (an access outside of a block, an unset callback, a dangling pointer or iterator, a division by zero)
  is \<open>None\<close> or a value of an error type, as is waiting for ever. Sizes are naturals with their wrap-around written out
  (\<open>sz_add\<close>, \<open>sz_sub\<close> of \<open>Zb_Prelude\<close>); integers whose width matters are words. What the program is
  told from outside is an argument or a script in the state: the answers of system calls, the clock, the kernel's tables, the order of a hash
  map, the addresses of objects, the callbacks of the user and the message classes (\<open>protocol\<close>: create, encode, decode).

  \<^item> \<open>Zb_Prelude\<close>: sizes, blocks of memory, bytes, signed division, the simplification collections.
  \<^item> \<open>Dynamic_Buffer\<close>: \<open>DynamicBuffer\<close>; \<open>buffer_ok\<close> is its invariant, \<open>content\<close> the bytes it stands for; it refines a
    queue of bytes (locale \<open>byte_queue\<close>).
  \<^item> \<open>Timestamp_Model\<close>, \<open>Heap_Array\<close>, \<open>Timer_Heap\<close>: points in time, binary heaps in an array, the timer queue with its
    map, its heap and the loop that fires; the locale \<open>priority_queue\<close> has the heap with removal of its top and with one firing as instances.
  \<^item> \<open>Wire_Codec\<close>: the macros of \<open>exchange/macro.h\<close>, with the locale \<open>codec\<close>, which every reader and writer instantiates;
    \<open>Wire_Memory\<close>: the reading ones on a block of memory, where a load outside of it is \<open>None\<close>, with the locale \<open>memory_reader\<close>.
  \<^item> \<open>Net_Ids\<close>, \<open>Net_Protocol\<close>: ids, commands, descriptor sets; frames and the receive loop, which refines
    \<open>parse_stream\<close>.
  \<^item> \<open>Io_Device\<close>, \<open>Tcp_Reactor\<close>, \<open>Epoll_Reactor\<close>: devices, the epoll multiplexer (locales \<open>event_source\<close> and \<open>event_loop\<close>: what
    keeps its event loop from using what is gone), connections and the reactor with its two flags \<open>quit_\<close> (locale \<open>reactor_callbacks_ok\<close>: what its callbacks have to keep).
  \<^item> \<open>Message_Queue\<close>: the queue between threads, and the interleavings of its users as a step relation.
  \<^item> \<open>Net_Thread\<close>, \<open>Net_Thread_Safety\<close>, \<open>Net_Thread_Flow\<close>: the network thread, its invariant \<open>thread_inv\<close> in every reachable
    state, and where its bytes go: \<open>kernel_gives\<close> is what a reader gets from the kernel, without buffer and memory. The state is extensible, so that the client uses the same operations.
  \<^item> \<open>Epoll_Service\<close>, \<open>Tcp_Service\<close>, \<open>Service_Flow\<close>, \<open>Service_Loop\<close>: the service of the main thread, with the locale
    \<open>service_loop\<close>, an \<open>event_loop\<close>, for its loop and the acceptor's; every connection is served by the machine \<open>conn_trace\<close> of its own
    commands.
  \<^item> \<open>Game_Server\<close>: the game server around the service, what registering message handlers does, and that a server that starts is safe.
  \<^item> \<open>Socket_Address\<close>, \<open>Tcp_Socket\<close>, \<open>Acceptor_Model\<close>: addresses with their lazily computed forms and all bytes of the binary one, opening and accepting sockets on a
    table of descriptors, the acceptor.
  \<^item> \<open>Select_Reactor\<close>: the reactor and the acceptor on \<open>select\<close>.
  \<^item> \<open>Thread_Model\<close>: semaphores and thread objects, as step relations; what \<open>is_run_\<close>, which no constructor sets, happens to be is an
    argument.
  \<^item> \<open>Logger_Model\<close>, \<open>Logger_Manager\<close>, \<open>Log_Setup\<close>, \<open>Log_Sinks\<close>: a logger and its lines, byte by byte; the table of loggers and
    who owns a sink; the set-up; the sinks, the asynchronous one with its worker as a step relation that remembers what \<open>log\<close> was given.
    Whether \<open>snprintf\<close> refuses sizes above \<open>INT_MAX\<close> is an argument.
  \<^item> \<open>Client_Thread\<close>, \<open>Client_Flow\<close>, \<open>Client_Service\<close>: the thread of a client, what it does in every reachable state, the service and
    the client object around it.
  \<^item> \<open>Attached_Client\<close>: the main loop with the queue of a client beside the server's own, as another instance of \<open>service_loop\<close>;
    \<open>Demo_App\<close>: the demo program, which starts all of it.
  \<^item> \<open>Demo_Messages\<close>: the base class of messages and the message classes of the demo program (\<open>../demo/c2s.cc\<close>).
  \<^item> This theory: a message from the thread that sends it to the thread that receives it.

  \<^bold>\<open>Bounds and loops.\<close> Loops that end are total functions: the receive loop of a socket by the answers the kernel still has, the
  acceptor's by the connections and answers left. Two may not end, \<open>checkTimeout\<close> and \<open>onRecvMessage\<close>, and are partial functions;
  that they return is part of their properties (\<open>checkTimeout_terminates\<close>, \<open>recv_loop_parses\<close>), and when the first one does not is
  \<open>zero_period_never_returns\<close>. An event loop is a function of the list of its rounds; every statement about it holds for all
  lists. The blocks of memory are smaller than \<open>vec_max\<close>, half of the size type.

  \<^bold>\<open>Not modelled.\<close> The branches for Windows; \<open>net/io_service_select.cc\<close>, which uses members that do not exist and is in no build;
  \<open>task/\<close>, one class with private members only and an empty file; protobuf and the code generated for
  it, a parameter of \<open>Demo_Messages\<close>; what is written to the log from inside the library; the template
  \<open>TcpClient::registerMessageHandlerFunc\<close>, which cannot be instantiated. An operation that holds a lock is one step; data races
  outside of the locks (\<open>NetThread::attach\<close> runs on the acceptor's thread) are not modelled.
\<close>

subsection \<open>From thread to thread\<close>

lemma nt_send_all:
  assumes c: "rx_connections r sid = Some c" "tc_status c = CONNECTED" "buffer_ok (tc_write_buffer c)" "content (tc_write_buffer c) = []"
    and k: "k_sends (rx_kernel r) = Sent n # ks" "length bs \<le> n" "bs \<noteq> []"
  shows "\<exists>r'. reactor_sendMessage cbs sid bs NoCallback r = Some (True, r') \<and> k_wire (rx_kernel r') sid = k_wire (rx_kernel r) sid @ bs"
proof -
  have "readableBytes (tc_write_buffer c) = 0" using length_content [OF c(3)] c(4) by simp
  then show ?thesis
    using c k by (simp add: reactor_sendMessage_def send_on_connection_def sock_send_def queue_rest_def run_send_complete_def Let_def)
qed

text \<open>
  C2: a message travels from one thread to another. When a network thread handles the command to send a message on a connection
  with nothing pending and the socket takes it, exactly one frame is added to the wire; and any network thread that finds
  these bytes in the read buffer of one of its connections emits exactly this message, under its own ids, keeps the connection and
  has no bytes left.
\<close>
theorem message_travels:
  fixes pr :: "'m protocol" and r :: "('u, 'm) net_thread"
  assumes cmd: "cmd_type cmd = MESSAGE" "cmd_message cmd = Some m" "0 \<le> cmd_message_id cmd" "cmd_message_id cmd < 65536"
    and c: "rx_connections r (socket_id (cmd_id cmd)) = Some c" "tc_status c = CONNECTED" "buffer_ok (tc_write_buffer c)"
      "content (tc_write_buffer c) = []"
    and enc: "buffer_ok (nt_encode_buffer (ts r))" "capacity (nt_encode_buffer (ts r)) < 65536"
      "pr_encode pr m (capacity (nt_encode_buffer (ts r)) - 4) = Some body" "length body + 4 \<le> capacity (nt_encode_buffer (ts r))"
    and k: "k_sends (rx_kernel r) = Sent n # ks" "length body + 4 \<le> n"
    and peer: "pr_create pr (cmd_message_id cmd) = Some m0" "pr_decode pr m0 body = (m, code)" "0 \<le> code" "int (length body) + 4 \<le> pr_max pr"
  shows "\<exists>r'. nt_command pr cmd r = Some r'
    \<and> k_wire (rx_kernel r') (socket_id (cmd_id cmd))
        = k_wire (rx_kernel r) (socket_id (cmd_id cmd)) @ frame (word_of_int (cmd_message_id cmd)) body
    \<and> (\<forall>(p :: ('v, 'm) net_thread) sid c1. thread_inv {} p \<longrightarrow> rx_connections p sid = Some c1 \<longrightarrow> content (tc_read_buffer c1) = frame (word_of_int (cmd_message_id cmd)) body \<longrightarrow>
         (\<exists>p' c2. nt_onRecvMessage pr sid p = Some p' \<and> rx_connections p' sid = Some c2 \<and> content (tc_read_buffer c2) = []
            \<and> nt_emitted (ts p') = nt_emitted (ts p) @ [command_of (nt_id (ts p)) sid (cmd_message_id cmd, m)]))"
proof -
  let ?sid = "socket_id (cmd_id cmd)" and ?eb = "nt_encode_buffer (ts r)"
  let ?out = "frame (word_of_int (cmd_message_id cmd)) body"
  obtain b where b: "writeMessage (pr_encode pr) (cmd_message_id cmd) m ?eb = Some (True, b)" "buffer_ok b" "content b = ?out"
    using writeMessage_ok [of ?eb body "pr_encode pr" m "cmd_message_id cmd"] enc(1,3,4) by blast
  define r1 where "r1 = upd_rest (\<lambda>t. t\<lparr>nt_encode_buffer := b\<rparr>) r"
  have e: "encode_command pr cmd r = Some (True, r1)" "encoded r1 = Some ?out"
    using b by (simp_all add: encode_command_def cmd r1_def encoded_def Let_def read_content)
  have len: "length ?out = length body + 4" by (simp add: frame_def)
  have "rx_connections r1 ?sid = Some c" "k_sends (rx_kernel r1) = Sent n # ks" using c(1) k(1) by (simp_all add: r1_def)
  then obtain r2 where r2: "reactor_sendMessage (nt_callbacks pr) ?sid ?out NoCallback r1 = Some (True, r2)"
    "k_wire (rx_kernel r2) ?sid = k_wire (rx_kernel r1) ?sid @ ?out"
    using nt_send_all [of r1 ?sid c n ks ?out "nt_callbacks pr"] c(2-4) k(2) len by (metis list.size(3) add_is_0 zero_neq_numeral)
  have send: "nt_command pr cmd r = Some r2"
    using c e r2(1) cmd(1) by (simp add: nt_command_def isConnected_def Let_def)
  have mid: "int (unat (word_of_int (cmd_message_id cmd) :: 16 word)) = cmd_message_id cmd"
    using cmd(3,4) by (simp add: unsigned_of_int take_bit_int_eq_self)
  have "parse_stream (pr_max pr) (pr_create pr) (pr_decode pr) [] = ([], False, [])" by (subst parse_stream_cases) simp
  then have parse: "parse_stream (pr_max pr) (pr_create pr) (pr_decode pr) ?out = ([(cmd_message_id cmd, m)], False, [])"
    using parse_frame [of body "pr_max pr" "pr_create pr" "word_of_int (cmd_message_id cmd)" m0 "pr_decode pr" m code "[]"]
      enc(2,4) peer mid by simp
  have "\<exists>p' c2. nt_onRecvMessage pr sid p = Some p' \<and> rx_connections p' sid = Some c2 \<and> content (tc_read_buffer c2) = []
      \<and> nt_emitted (ts p') = nt_emitted (ts p) @ [command_of (nt_id (ts p)) sid (cmd_message_id cmd, m)]"
    if p: "thread_inv {} p" "rx_connections p sid = Some c1" "content (tc_read_buffer c1) = ?out"
    for p :: "('v, 'm) net_thread" and sid c1
    using nt_recv_effect [OF p(1,2), of pr "[(cmd_message_id cmd, m)]" False "[]"] p(3) parse by auto
  then show ?thesis using send r2(2) by (intro exI [of _ r2]) (simp add: r1_def)
qed

text \<open>The thread of the examples sends one byte to another one.\<close>

theorem message_travels_witness:
  "\<exists>r' p' c2. nt_command example_protocol ((NetCommand MESSAGE)\<lparr>cmd_id := \<lparr>reactor_id = 1, socket_id = 7\<rparr>, cmd_message_id := 7,
        cmd_message := Some (42 :: byte)\<rparr>) (busy_thread (example_kernel [Sent 100] [] []) []) = Some r'
     \<and> k_wire (rx_kernel r') 7 = frame 7 [42]
     \<and> nt_onRecvMessage example_protocol 7 (upd_conn 7 (\<lambda>c. c\<lparr>tc_read_buffer := (tc_read_buffer c)\<lparr>db_buffer := frame 7 [42] @ replicate 3 0,
          db_write_index := 5\<rparr>\<rparr>) (busy_thread (example_kernel [] [] []) [])) = Some p'
     \<and> map cmd_message (nt_emitted (ts p')) = [Some 42] \<and> rx_connections p' 7 = Some c2"
proof -
  let ?cmd = "(NetCommand MESSAGE)\<lparr>cmd_id := \<lparr>reactor_id = 1, socket_id = 7\<rparr>, cmd_message_id := 7, cmd_message := Some (42 :: byte)\<rparr>"
  let ?r = "busy_thread (example_kernel [Sent 100] [] []) []"
  let ?f = "\<lambda>c. c\<lparr>tc_read_buffer := (tc_read_buffer c)\<lparr>db_buffer := frame 7 [42] @ replicate 3 0, db_write_index := 5\<rparr>\<rparr>"
  let ?p = "upd_conn 7 ?f (busy_thread (example_kernel [] [] []) [])" and ?c1 = "?f (example_connection [])"
  note r = busy_thread_ok [of "[]" "example_kernel [Sent 100] [] []", simplified]
  note p0 = busy_thread_ok [of "[]" "example_kernel [] [] []", simplified]
  have c1: "content (tc_read_buffer ?c1) = frame 7 [42]" "buffer_ok (tc_read_buffer ?c1)"
    by (simp_all add: example_connection_def content_def buffer_ok_def frame_def vec_max_def)
  have "thread_inv {} ?p"
    by (rule thread_inv_upd_conn [OF p0(1)]) (use p0(3) c1(2) in \<open>auto simp: conn_ok_def\<close>)
  moreover have "rx_connections ?p 7 = Some ?c1" using p0(3) by simp
  moreover have ts: "ts ?p = ts (busy_thread (example_kernel [] [] []) [])" by (simp add: ts_def)
  moreover have buf: "nt_encode_buffer (ts ?r) = nt_encode_buffer example_state"
    by (simp add: busy_thread_def example_thread_def set_queue_def ts_def upd_rest_def object_at_def set_epoller_def
      example_base_simps(2) [unfolded ts_def])
  have enc: "buffer_ok (nt_encode_buffer example_state)" "capacity (nt_encode_buffer example_state) = 64"
    by (simp_all add: example_state_def buffer_ok_def capacity_def vec_max_def)
  have conn: "tc_status (example_connection []) = CONNECTED" "buffer_ok (tc_write_buffer (example_connection []))"
    "content (tc_write_buffer (example_connection [])) = []"
    by (simp_all add: example_connection_def buffer_ok_def content_def vec_max_def)
  have cmd: "cmd_type ?cmd = MESSAGE" "cmd_message ?cmd = Some 42" "cmd_message_id ?cmd = 7" "socket_id (cmd_id ?cmd) = 7"
    by (simp_all add: NetCommand_def)
  have encodes: "pr_encode example_protocol 42 60 = Some [42]" by (simp add: example_protocol_def byte_encode_def)
  have decodes: "pr_create example_protocol 7 = Some 0" "pr_decode example_protocol 0 [42] = (42, 1)" "pr_max example_protocol = 40960"
    by (simp_all add: example_protocol_def byte_create_def byte_decode_def)
  have sends: "k_sends (rx_kernel ?r) = [Sent 100]" and wire: "k_wire (rx_kernel ?r) 7 = []" unfolding r(4) by (simp_all add: example_kernel_def)
  obtain r' where r': "nt_command example_protocol ?cmd ?r = Some r'" "k_wire (rx_kernel r') 7 = frame 7 [42]"
    "\<forall>(p :: (unit, byte) net_thread) sid c1. thread_inv {} p \<longrightarrow> rx_connections p sid = Some c1 \<longrightarrow> content (tc_read_buffer c1) = frame 7 [42] \<longrightarrow>
         (\<exists>p' c2. nt_onRecvMessage example_protocol sid p = Some p' \<and> rx_connections p' sid = Some c2 \<and> content (tc_read_buffer c2) = []
            \<and> nt_emitted (ts p') = nt_emitted (ts p) @ [command_of (nt_id (ts p)) sid (7, 42)])"
    using message_travels [of ?cmd 42 ?r "example_connection []" example_protocol "[42]" 100 "[]" 0 1, where ?'v = unit] r(3) conn enc
      cmd encodes decodes sends wire unfolding buf by auto
  ultimately obtain p' c2 where "nt_onRecvMessage example_protocol 7 ?p = Some p'" "rx_connections p' 7 = Some c2"
    "nt_emitted (ts p') = nt_emitted (ts ?p) @ [command_of (nt_id (ts ?p)) 7 (7, 42)]"
    using c1(1) by blast
  moreover have "nt_emitted (ts ?p) = []" using p0(5) ts by simp
  ultimately show ?thesis using r'(1,2) by (intro exI [of _ r'] exI [of _ p'] exI [of _ c2]) (simp add: command_of_def)
qed

end
